(* ===== verification/GoPrelude.thy ===== *)
theory GoPrelude
  imports Main "HOL-Library.AList" "HOL-Library.Multiset"
begin

text \<open>
  Shared vocabulary of the development: Go's machine integers, results that may panic, error
  values, \<open>sort.Slice\<close>, the two generic contracts used by several components (a machine driven
  by a list of events that keeps an invariant; a machine that refines another one), and the
  lemmas on lists and association lists they share.
\<close>

named_theorems panic_simps "case analysis on results that may panic"
named_theorems frame_simps "fields an operation leaves alone"

section \<open>Machine integers\<close>

text \<open>
  Go's \<open>int\<close> (on the 64-bit targets the Dockerfile builds), \<open>int64\<close> and \<open>time.Duration\<close> wrap
  at 64 bits, \<open>int32\<close> and \<open>atomic.Int32\<close> at 32 bits.  A value is kept as an \<open>int\<close> and every
  operation of the source that can leave the range is wrapped explicitly.
\<close>

definition int32 :: "int \<Rightarrow> int" where
  "int32 x = (x + 2147483648) mod 4294967296 - 2147483648"

definition int64 :: "int \<Rightarrow> int" where
  "int64 x = (x + 9223372036854775808) mod 18446744073709551616 - 9223372036854775808"

lemma int32_id [simp]: "- 2147483648 \<le> x \<Longrightarrow> x < 2147483648 \<Longrightarrow> int32 x = x"
  by (simp add: int32_def)

lemma int64_id [simp]:
  "- 9223372036854775808 \<le> x \<Longrightarrow> x < 9223372036854775808 \<Longrightarrow> int64 x = x"
  by (simp add: int64_def)

lemma int32_range: "- 2147483648 \<le> int32 x" "int32 x < 2147483648"
  by (simp_all add: int32_def)

lemma int64_range: "- 9223372036854775808 \<le> int64 x" "int64 x < 9223372036854775808"
  by (simp_all add: int64_def)

section \<open>Panics and errors\<close>

text \<open>
  A nil dereference or an index out of range is a panic; everything after it in the function
  (deferred calls apart) does not run.
\<close>

datatype 'a outcome = Ok 'a | Panic string

fun bind_outcome :: "'a outcome \<Rightarrow> ('a \<Rightarrow> 'b outcome) \<Rightarrow> 'b outcome" where
  "bind_outcome (Ok x) f = f x"
| "bind_outcome (Panic m) f = Panic m"

lemma bind_outcome_Ok [panic_simps]:
  "bind_outcome m f = Ok y \<longleftrightarrow> (\<exists>x. m = Ok x \<and> f x = Ok y)"
  by (cases m) auto

text \<open>
  Error values.  \<open>io.EOF\<close> and the context errors are package variables compared by identity;
  \<open>fmt.Errorf\<close> and \<open>errors.New\<close> allocate, so an error made by them equals no other one, and
  only its text is kept.
\<close>

datatype go_error = EOF | Canceled | Errorf string

text \<open>Comparing an error against a freshly allocated \<open>fmt.Errorf\<close> value, as a \<open>switch\<close> case does.\<close>

definition equals_fresh_errorf :: "go_error \<Rightarrow> string \<Rightarrow> bool" where
  "equals_fresh_errorf e msg = False"

section \<open>Sorting with a user-supplied order\<close>

text \<open>
  \<open>sort.Slice\<close> promises a permutation of its input in which no element is out of order, and
  nothing about equal elements.  The definitions that sort take the routine as an argument;
  the contract is this locale.  The order is required to be a strict weak order.
\<close>

definition strict_weak :: "('a \<Rightarrow> 'a \<Rightarrow> bool) \<Rightarrow> bool" where
  "strict_weak lt \<longleftrightarrow> (\<forall>x. \<not> lt x x) \<and> (\<forall>x y z. lt x y \<and> lt y z \<longrightarrow> lt x z)
     \<and> (\<forall>x y z. \<not> lt x y \<and> \<not> lt y z \<longrightarrow> \<not> lt x z)"

lemma strict_weak_key: "strict_weak (\<lambda>x y. (f x :: 'k :: linorder) < f y)"
  unfolding strict_weak_def by (auto intro: less_trans)

lemma strict_weak_key_desc: "strict_weak (\<lambda>x y. (f x :: 'k :: linorder) > f y)"
  unfolding strict_weak_def by (auto intro: less_trans)

locale slice_sorter =
  fixes srt :: "('a \<Rightarrow> 'a \<Rightarrow> bool) \<Rightarrow> 'a list \<Rightarrow> 'a list"
  assumes mset_srt: "mset (srt lt xs) = mset xs"
    and ordered_srt: "strict_weak lt \<Longrightarrow> sorted_wrt (\<lambda>x y. \<not> lt y x) (srt lt xs)"
begin

lemma set_srt [simp]: "set (srt lt xs) = set xs"
  using mset_srt [of lt xs] by (metis set_mset_mset)

lemma length_srt [simp]: "length (srt lt xs) = length xs"
  using mset_srt [of lt xs] by (metis size_mset)

lemma distinct_srt: "distinct (srt lt xs) \<longleftrightarrow> distinct xs"
  using mset_srt [of lt xs] by (metis mset_eq_imp_distinct_iff)

lemma srt_key_sorted: "sorted (map f (srt (\<lambda>x y. (f x :: 'k :: linorder) < f y) xs))"
proof -
  have "sorted_wrt (\<lambda>x y. \<not> f y < f x) (srt (\<lambda>x y. f x < f y) xs)"
    by (rule ordered_srt) (rule strict_weak_key)
  then show ?thesis
    by (simp add: sorted_map not_less)
qed

lemma srt_Nil [simp]: "srt lt [] = []"
  by (metis length_0_conv length_srt)

lemma srt_hd_max:
  assumes "x \<in> set (srt (\<lambda>a b. (f a :: 'k :: linorder) > f b) xs)"
  shows "f x \<le> f (hd (srt (\<lambda>a b. f a > f b) xs))"
proof -
  let ?ys = "srt (\<lambda>a b. f a > f b) xs"
  have "sorted_wrt (\<lambda>x y. \<not> f y > f x) ?ys"
    by (rule ordered_srt) (rule strict_weak_key_desc)
  with assms show ?thesis
    by (cases ?ys) (auto simp: not_less)
qed

end

text \<open>
  \<open>insertionSort\<close> of Go's \<open>sort\<close> package, which \<open>sort.Slice\<close> runs on slices of up to 12
  elements: each element moves left past the elements it is less than.
\<close>

fun insert_left :: "('a \<Rightarrow> 'a \<Rightarrow> bool) \<Rightarrow> 'a \<Rightarrow> 'a list \<Rightarrow> 'a list" where
  "insert_left lt x [] = [x]"
| "insert_left lt x (y # ys) = (if lt x y then y # insert_left lt x ys else x # y # ys)"

definition insertion_sort :: "('a \<Rightarrow> 'a \<Rightarrow> bool) \<Rightarrow> 'a list \<Rightarrow> 'a list" where
  "insertion_sort lt xs = rev (foldl (\<lambda>acc x. insert_left lt x acc) [] xs)"

lemma mset_insert_left [simp]: "mset (insert_left lt x ys) = add_mset x (mset ys)"
  by (induction ys) auto

lemma set_insert_left [simp]: "set (insert_left lt x ys) = insert x (set ys)"
  by (induction ys) auto

lemma sorted_insert_left:
  assumes "strict_weak lt"
  shows "sorted_wrt (\<lambda>a b. \<not> lt a b) ys \<Longrightarrow> sorted_wrt (\<lambda>a b. \<not> lt a b) (insert_left lt x ys)"
proof (induction ys)
  case (Cons y ys)
  show ?case
  proof (cases "lt x y")
    case True
    then have "\<not> lt y x"
      using assms unfolding strict_weak_def by blast
    with True Cons show ?thesis by simp
  next
    case False
    have "\<not> lt x z" if "z \<in> set ys" for z
    proof -
      from that Cons.prems have "\<not> lt y z" by simp
      with False assms show ?thesis unfolding strict_weak_def by blast
    qed
    with False Cons.prems show ?thesis by simp
  qed
qed simp

lemma mset_insertion_sort: "mset (insertion_sort lt xs) = mset xs"
proof -
  have "mset (foldl (\<lambda>acc x. insert_left lt x acc) ys xs) = mset ys + mset xs" for ys
    by (induction xs arbitrary: ys) auto
  from this [of "[]"] show ?thesis
    by (simp add: insertion_sort_def)
qed

lemma sorted_insertion_sort:
  assumes "strict_weak lt"
  shows "sorted_wrt (\<lambda>a b. \<not> lt b a) (insertion_sort lt xs)"
proof -
  have "sorted_wrt (\<lambda>a b. \<not> lt a b) (foldl (\<lambda>acc x. insert_left lt x acc) ys xs)"
    if "sorted_wrt (\<lambda>a b. \<not> lt a b) ys" for ys
    using that
    by (induction xs arbitrary: ys) (auto intro: sorted_insert_left [OF assms])
  from this [of "[]"] show ?thesis
    by (simp add: insertion_sort_def sorted_wrt_rev)
qed

interpretation insertion: slice_sorter insertion_sort
  by unfold_locales (simp_all add: mset_insertion_sort sorted_insertion_sort)

section \<open>Machines driven by events\<close>

text \<open>
  Several components are objects whose methods are called in an order nobody controls: a list
  of events stands for one interleaving of the calls, and a property of the object is an
  invariant of the run.  The second contract adds an abstract machine that the first one
  implements on the states of the invariant.
\<close>

locale event_machine =
  fixes step :: "'s \<Rightarrow> 'e \<Rightarrow> 's"
    and invar :: "'s \<Rightarrow> bool"
  assumes inv_step: "invar s \<Longrightarrow> invar (step s e)"
begin

lemma inv_run: "invar s \<Longrightarrow> invar (foldl step s es)"
  by (induction es arbitrary: s) (auto intro: inv_step)

end

locale event_refinement = event_machine +
  fixes astep :: "'a \<Rightarrow> 'e \<Rightarrow> 'a"
    and abst :: "'s \<Rightarrow> 'a"
  assumes abst_step: "invar s \<Longrightarrow> abst (step s e) = astep (abst s) e"
begin

lemma abst_run: "invar s \<Longrightarrow> abst (foldl step s es) = foldl astep (abst s) es"
  by (induction es arbitrary: s) (simp_all add: abst_step inv_step)

end

section \<open>Lists and association lists\<close>

text \<open>
  A Go map is an association list with distinct keys when the code ranges over it: the order of
  the list is the order in which that \<open>range\<close> happens to visit the entries.
\<close>

definition last_n :: "nat \<Rightarrow> 'a list \<Rightarrow> 'a list" where
  "last_n n xs = drop (length xs - n) xs"

lemma last_n_0 [simp]: "last_n 0 xs = []"
  by (simp add: last_n_def)

lemma length_last_n [simp]: "length (last_n n xs) = min n (length xs)"
  by (simp add: last_n_def)

lemma last_n_snoc: "0 < n \<Longrightarrow> last_n n (xs @ [x]) = last_n (n - 1) xs @ [x]"
  by (cases n) (simp_all add: last_n_def Suc_diff_Suc)

lemma last_n_all: "length xs \<le> n \<Longrightarrow> last_n n xs = xs"
  by (simp add: last_n_def)

lemma in_set_update: "p \<in> set (AList.update k v es) \<Longrightarrow> p = (k, v) \<or> p \<in> set es"
  by (induction es) (auto split: if_splits)

lemma foldl_update_members:
  "p \<in> set (foldl (\<lambda>es (k, v). AList.update k v es) es us) \<Longrightarrow> p \<in> set es \<or> p \<in> set us"
  by (induction us arbitrary: es) (auto dest: in_set_update)

lemma foldl_update_keys:
  "fst ` set (foldl (\<lambda>es (k, v). AList.update k v es) es us) = fst ` set es \<union> fst ` set us"
  by (induction us arbitrary: es) (auto simp: dom_update split_beta)

lemma foldl_snoc_step: "foldl f s (es @ [e]) = f (foldl f s es) e"
  by simp

end
