(* ===== verification/GoStrings.thy ===== *)
theory GoStrings
  imports GoPrelude
begin

text \<open>
  The functions of Go's \<open>strings\<close>, \<open>strconv\<close>, \<open>fmt\<close> and \<open>path\<close> packages that the program calls,
  on byte strings (a Go string is a byte sequence, and so is a HOL \<open>string\<close>).
\<close>

section \<open>strings\<close>

definition HasPrefix :: "string \<Rightarrow> string \<Rightarrow> bool" where
  "HasPrefix s p \<longleftrightarrow> take (length p) s = p"

definition HasSuffix :: "string \<Rightarrow> string \<Rightarrow> bool" where
  "HasSuffix s p \<longleftrightarrow> length p \<le> length s \<and> drop (length s - length p) s = p"

definition TrimPrefix :: "string \<Rightarrow> string \<Rightarrow> string" where
  "TrimPrefix s p = (if HasPrefix s p then drop (length p) s else s)"

definition TrimSuffix :: "string \<Rightarrow> string \<Rightarrow> string" where
  "TrimSuffix s p = (if HasSuffix s p then take (length s - length p) s else s)"

text \<open>\<open>cut\<close> splits around the first occurrence of a non-empty separator.\<close>

fun cut :: "string \<Rightarrow> string \<Rightarrow> (string \<times> string) option" where
  "cut sep [] = (if sep = [] then Some ([], []) else None)"
| "cut sep (c # cs) =
     (if HasPrefix (c # cs) sep then Some ([], drop (length sep) (c # cs))
      else map_option (\<lambda>(a, b). (c # a, b)) (cut sep cs))"

definition SplitN2 :: "string \<Rightarrow> string \<Rightarrow> string list" where
  "SplitN2 s sep = (case cut sep s of None \<Rightarrow> [s] | Some (a, b) \<Rightarrow> [a, b])"

definition Contains :: "string \<Rightarrow> string \<Rightarrow> bool" where
  "Contains s sub \<longleftrightarrow> cut sub s \<noteq> None"

text \<open>\<open>strings.Split\<close> with a one-byte separator: always at least one part.\<close>

fun SplitChar :: "char \<Rightarrow> string \<Rightarrow> string list" where
  "SplitChar d [] = [[]]"
| "SplitChar d (c # cs) =
     (if c = d then [] # SplitChar d cs
      else case SplitChar d cs of [] \<Rightarrow> [[c]] | p # ps \<Rightarrow> (c # p) # ps)"

lemma SplitChar_not_Nil [simp]: "SplitChar d s \<noteq> []"
  by (induction s) (auto split: list.splits)

lemma hd_SplitChar: "hd (SplitChar d s) = takeWhile (\<lambda>c. c \<noteq> d) s"
  by (induction s) (auto split: list.splits)

text \<open>
  \<open>strings.TrimSpace\<close>: the white space of Unicode, in UTF-8, stripped at both ends.
\<close>

definition ascii_space :: "char \<Rightarrow> bool" where
  "ascii_space c \<longleftrightarrow> of_char c \<in> {9 :: nat, 10, 11, 12, 13, 32}"

definition wide_spaces :: "string list" where
  "wide_spaces = map (map (char_of :: nat \<Rightarrow> char))
     ([[194, 133], [194, 160], [225, 154, 128], [226, 128, 168], [226, 128, 169],
       [226, 128, 175], [226, 129, 159], [227, 128, 128]]
      @ map (\<lambda>k. [226, 128, k]) [128..<139])"

definition strip1 :: "string \<Rightarrow> string option" where
  "strip1 s = (case s of [] \<Rightarrow> None
     | c # cs \<Rightarrow> if ascii_space c then Some cs
                 else map_option (\<lambda>w. drop (length w) s) (find (HasPrefix s) wide_spaces))"

definition strip1_right :: "string \<Rightarrow> string option" where
  "strip1_right s = (if s = [] then None
     else if ascii_space (last s) then Some (butlast s)
     else map_option (\<lambda>w. take (length s - length w) s) (find (HasSuffix s) wide_spaces))"

fun repeat_strip :: "nat \<Rightarrow> (string \<Rightarrow> string option) \<Rightarrow> string \<Rightarrow> string" where
  "repeat_strip 0 f s = s"
| "repeat_strip (Suc k) f s = (case f s of None \<Rightarrow> s | Some s' \<Rightarrow> repeat_strip k f s')"

text \<open>Each step removes at least one byte, so as many steps as bytes are enough.\<close>

definition TrimSpace :: "string \<Rightarrow> string" where
  "TrimSpace s = (let l = repeat_strip (length s) strip1 s
                  in repeat_strip (length l) strip1_right l)"

text \<open>
  \<open>strings.ToLower\<close>.  ASCII letters, and the two characters outside ASCII whose lower case is an
  ASCII letter (U+0130 and U+212A); every other byte sequence outside ASCII is left alone.  So
  the result is exact as far as a comparison with an ASCII string goes, which is all the
  program does with it where this function is used.
\<close>

definition lower_char :: "char \<Rightarrow> char" where
  "lower_char c = (let n = (of_char c :: nat)
                   in if 65 \<le> n \<and> n \<le> 90 then char_of (n + 32) else c)"

fun ToLower :: "string \<Rightarrow> string" where
  "ToLower [] = []"
| "ToLower (c # cs) =
     (if of_char c = (196 :: nat) \<and> take 1 cs = [char_of (176 :: nat)]
      then CHR ''i'' # ToLower (drop 1 cs)
      else if of_char c = (226 :: nat) \<and> take 2 cs = [char_of (132 :: nat), char_of (170 :: nat)]
      then CHR ''k'' # ToLower (drop 2 cs)
      else lower_char c # ToLower cs)"

section \<open>strconv and fmt\<close>

definition is_digit :: "char \<Rightarrow> bool" where
  "is_digit c \<longleftrightarrow> 48 \<le> (of_char c :: nat) \<and> (of_char c :: nat) \<le> 57"

definition digit_val :: "char \<Rightarrow> nat" where
  "digit_val c = of_char c - 48"

definition digits_val :: "string \<Rightarrow> nat" where
  "digits_val ds = foldl (\<lambda>n c. 10 * n + digit_val c) 0 ds"

definition sign_split :: "string \<Rightarrow> bool \<times> string" where
  "sign_split s = (case s of [] \<Rightarrow> (False, [])
     | c # cs \<Rightarrow> if c = CHR ''-'' then (True, cs)
                 else if c = CHR ''+'' then (False, cs) else (False, s))"

text \<open>
  \<open>strconv.Atoi\<close> returns a value and an error.  The value is 0 on a syntax error and the
  nearest bound of \<open>int64\<close> on a range error; the flag says that there was no error.
\<close>

definition Atoi :: "string \<Rightarrow> int \<times> bool" where
  "Atoi s = (let (neg, ds) = sign_split s in
     if ds = [] \<or> \<not> list_all is_digit ds then (0, False)
     else let v = (if neg then - int (digits_val ds) else int (digits_val ds)) in
       if v < - 9223372036854775808 then (- 9223372036854775808, False)
       else if 9223372036854775807 < v then (9223372036854775807, False)
       else (v, True))"

definition digit_char :: "nat \<Rightarrow> char" where
  "digit_char d = char_of (48 + d)"

fun nat_digits :: "nat \<Rightarrow> string" where
  "nat_digits n = (if n < 10 then [digit_char n] else nat_digits (n div 10) @ [digit_char (n mod 10)])"

declare nat_digits.simps [simp del]

definition Itoa :: "int \<Rightarrow> string" where
  "Itoa i = (if i < 0 then CHR ''-'' # nat_digits (nat (- i)) else nat_digits (nat i))"

text \<open>\<open>fmt.Sprintf("%0*d", width, n)\<close>: zeros after the sign, up to the width.\<close>

definition zero_pad :: "nat \<Rightarrow> int \<Rightarrow> string" where
  "zero_pad w i =
     (if i < 0
      then CHR ''-'' # replicate (w - 1 - length (nat_digits (nat (- i)))) (CHR ''0'') @ nat_digits (nat (- i))
      else replicate (w - length (nat_digits (nat i))) (CHR ''0'') @ nat_digits (nat i))"

section \<open>bufio\<close>

text \<open>
  \<open>bufio.Scanner\<close> on lines: a final line without a newline counts, a carriage return before the
  newline is dropped, and a line that does not fit the buffer stops the scan with an error.
\<close>

definition newline :: char where
  "newline = CHR 0x0A"

definition drop_CR :: "string \<Rightarrow> string" where
  "drop_CR l = (if l \<noteq> [] \<and> last l = CHR 0x0D then butlast l else l)"

definition raw_lines :: "string \<Rightarrow> string list" where
  "raw_lines s = (let ps = SplitChar newline s in if last ps = [] then butlast ps else ps)"

definition scan_tokens :: "nat \<Rightarrow> string \<Rightarrow> string list \<times> go_error option" where
  "scan_tokens limit s =
     (let ls = raw_lines s; ok = takeWhile (\<lambda>l. length l < limit) ls in
      (map drop_CR ok, if length ok < length ls then Some (Errorf ''bufio.Scanner: token too long'') else None))"

section \<open>path\<close>

definition strip_slashes :: "string \<Rightarrow> string" where
  "strip_slashes s = rev (dropWhile (\<lambda>c. c = CHR ''/'') (rev s))"

definition after_last :: "char \<Rightarrow> string \<Rightarrow> string" where
  "after_last d s = rev (takeWhile (\<lambda>c. c \<noteq> d) (rev s))"

definition path_Base :: "string \<Rightarrow> string" where
  "path_Base p = (if p = [] then ''.''
     else let q = after_last (CHR ''/'') (strip_slashes p) in if q = [] then ''/'' else q)"

text \<open>\<open>path.Ext\<close>: the suffix of the last element from its final dot, or nothing.\<close>

definition path_Ext :: "string \<Rightarrow> string" where
  "path_Ext p = (let b = after_last (CHR ''/'') p in
     if CHR ''.'' \<in> set b then CHR ''.'' # after_last (CHR ''.'') b else [])"

section \<open>The process environment\<close>

text \<open>\<open>os.Environ\<close> is a list of pairs; \<open>os.LookupEnv\<close> and \<open>os.Getenv\<close> read it.\<close>

type_synonym environ = "(string \<times> string) list"

definition LookupEnv :: "environ \<Rightarrow> string \<Rightarrow> string option" where
  "LookupEnv env k = map_of env k"

definition Getenv :: "environ \<Rightarrow> string \<Rightarrow> string" where
  "Getenv env k = (case LookupEnv env k of None \<Rightarrow> [] | Some v \<Rightarrow> v)"

section \<open>Facts about them\<close>

lemma HasPrefix_append [simp]: "HasPrefix (p @ s) p"
  by (simp add: HasPrefix_def)

lemma TrimPrefix_append [simp]: "TrimPrefix (p @ s) p = s"
  by (simp add: TrimPrefix_def)

lemma TrimSuffix_append [simp]: "TrimSuffix (s @ p) p = s"
  by (simp add: TrimSuffix_def HasSuffix_def)

lemma is_digit_digit_char: "d < 10 \<Longrightarrow> is_digit (digit_char d)"
  by (simp add: is_digit_def digit_char_def)

lemma digit_val_digit_char: "d < 10 \<Longrightarrow> digit_val (digit_char d) = d"
  by (simp add: digit_val_def digit_char_def)

lemma digits_val_snoc: "digits_val (ds @ [c]) = 10 * digits_val ds + digit_val c"
  by (simp add: digits_val_def)

lemma nat_digits_not_Nil [simp]: "nat_digits n \<noteq> []"
  by (subst nat_digits.simps) simp

lemma nat_digits_all_digits: "list_all is_digit (nat_digits n)"
proof (induction n rule: nat_digits.induct)
  case (1 n)
  then show ?case
    by (subst nat_digits.simps) (auto simp: is_digit_digit_char)
qed

lemma digits_val_nat_digits [simp]: "digits_val (nat_digits n) = n"
proof (induction n rule: nat_digits.induct)
  case (1 n)
  show ?case
  proof (cases "n < 10")
    case True
    then show ?thesis
      by (subst nat_digits.simps) (simp add: digits_val_def digit_val_digit_char)
  next
    case False
    then show ?thesis
      using "1.IH" by (subst nat_digits.simps) (simp add: digits_val_snoc digit_val_digit_char)
  qed
qed

lemma nat_digits_hd_digit: "nat_digits n = c # cs \<Longrightarrow> is_digit c"
  using nat_digits_all_digits [of n] by simp

lemma not_sign_if_digit: "is_digit c \<Longrightarrow> c \<noteq> CHR ''-'' \<and> c \<noteq> CHR ''+''"
  by (auto simp: is_digit_def)

lemma sign_split_nat_digits: "sign_split (nat_digits n) = (False, nat_digits n)"
  using nat_digits_hd_digit [of n]
  by (auto simp: sign_split_def split: list.splits dest: not_sign_if_digit)

lemma Atoi_Itoa:
  assumes "- 9223372036854775808 \<le> i" "i \<le> 9223372036854775807"
  shows "Atoi (Itoa i) = (i, True)"
proof (cases "i < 0")
  case True
  then have "sign_split (Itoa i) = (True, nat_digits (nat (- i)))"
    by (simp add: Itoa_def sign_split_def)
  with True assms show ?thesis
    by (simp add: Atoi_def nat_digits_all_digits)
next
  case False
  then have "sign_split (Itoa i) = (False, nat_digits (nat i))"
    by (simp add: Itoa_def sign_split_nat_digits)
  with False assms show ?thesis
    by (simp add: Atoi_def nat_digits_all_digits)
qed

text \<open>Trimming leaves a text alone that starts and ends with visible ASCII characters.\<close>

definition visible :: "char \<Rightarrow> bool" where
  "visible c \<longleftrightarrow> 32 < (of_char c :: nat) \<and> (of_char c :: nat) < 128"

lemma wide_spaces_bytes: "w \<in> set wide_spaces \<Longrightarrow> w \<noteq> [] \<and> (\<forall>c \<in> set w. \<not> visible c)"
  by (auto simp: wide_spaces_def visible_def of_char_of)

lemma ascii_space_invisible: "visible c \<Longrightarrow> \<not> ascii_space c"
  by (auto simp: visible_def ascii_space_def)

lemma strip1_visible: "s \<noteq> [] \<Longrightarrow> visible (hd s) \<Longrightarrow> strip1 s = None"
proof -
  assume s: "s \<noteq> []" "visible (hd s)"
  have "\<not> HasPrefix s w" if "w \<in> set wide_spaces" for w
    using wide_spaces_bytes [OF that] s by (cases w; cases s) (auto simp: HasPrefix_def)
  then have "find (HasPrefix s) wide_spaces = None" by (simp add: find_None_iff)
  with s show ?thesis by (auto simp: strip1_def ascii_space_invisible split: list.split)
qed

lemma strip1_right_visible: "s \<noteq> [] \<Longrightarrow> visible (last s) \<Longrightarrow> strip1_right s = None"
proof -
  assume s: "s \<noteq> []" "visible (last s)"
  have "\<not> HasSuffix s w" if w: "w \<in> set wide_spaces" for w
  proof
    assume "HasSuffix s w"
    then have "w = drop (length s - length w) s" "w \<noteq> []"
      using wide_spaces_bytes [OF w] by (simp_all add: HasSuffix_def)
    then have "last w = last s" by (metis last_drop drop_all not_le)
    with s wide_spaces_bytes [OF w] \<open>w \<noteq> []\<close> show False by (metis last_in_set)
  qed
  then have "find (HasSuffix s) wide_spaces = None" by (simp add: find_None_iff)
  with s show ?thesis by (simp add: strip1_right_def ascii_space_invisible)
qed

lemma repeat_strip_None: "f s = None \<Longrightarrow> repeat_strip k f s = s"
  by (cases k) simp_all

lemma TrimSpace_visible: "s \<noteq> [] \<Longrightarrow> visible (hd s) \<Longrightarrow> visible (last s) \<Longrightarrow> TrimSpace s = s"
  by (simp add: TrimSpace_def repeat_strip_None strip1_visible strip1_right_visible)

lemma TrimSpace_Nil [simp]: "TrimSpace [] = []"
  by (simp add: TrimSpace_def)

lemma visible_digit: "is_digit c \<Longrightarrow> visible c"
  by (auto simp: is_digit_def visible_def)

lemma takeWhile_nat_digits [simp]: "takeWhile is_digit (nat_digits n) = nat_digits n"
  using nat_digits_all_digits [of n] by (simp add: list_all_iff)

end
