(* ===== verification/HttpTypes.thy ===== *)
theory HttpTypes
  imports GoStrings
begin

text \<open>
  The parts of \<open>net/http\<close> values the program looks at, the result the load balancer hands to the
  stream handlers (\<open>LoadBalancerResult\<close> of \<^verbatim>\<open>proxy/loadbalancer/instance.go\<close>), the exit statuses of
  \<^verbatim>\<open>proxy/constants.go\<close>, and \<^verbatim>\<open>utils/url.go\<close>, which recognises an M3U8 playlist.
\<close>

text \<open>
  An \<open>http.Header\<close> maps canonical keys to lists of values.  \<open>Get\<close> returns the first value, \<open>Set\<close>
  replaces them all, \<open>Add\<close> appends one.  The keys the program passes are written canonically.
\<close>

type_synonym header = "(string \<times> string list) list"

definition header_Get :: "header \<Rightarrow> string \<Rightarrow> string" where
  "header_Get h k = (case map_of h k of Some (v # vs) \<Rightarrow> v | _ \<Rightarrow> [])"

definition header_Set :: "header \<Rightarrow> string \<Rightarrow> string \<Rightarrow> header" where
  "header_Set h k v = AList.update k [v] h"

definition header_Add :: "header \<Rightarrow> string \<Rightarrow> string \<Rightarrow> header" where
  "header_Add h k v = AList.update k ((case map_of h k of None \<Rightarrow> [] | Some vs \<Rightarrow> vs) @ [v]) h"

definition header_Del :: "header \<Rightarrow> string \<Rightarrow> header" where
  "header_Del h k = AList.delete k h"

lemma header_Get_Set [simp]: "header_Get (header_Set h k v) k' = (if k' = k then v else header_Get h k')"
  by (simp add: header_Get_def header_Set_def update_conv)

lemma header_Get_Del [simp]: "header_Get (header_Del h k) k' = (if k' = k then [] else header_Get h k')"
  by (simp add: header_Get_def header_Del_def delete_conv)

text \<open>
  A response: status, header, the path of the URL it was finally fetched from (when there is a
  request), that URL in full.  Bodies are scripts of reads, given to the functions that read.
\<close>

record Response =
  StatusCode :: int
  RespHeader :: header
  RequestPath :: "string option"
  RequestURL :: string

record LoadBalancerResult =
  lbResponse :: Response
  lbURL :: string
  lbIndex :: string
  lbSubIndex :: string

section \<open>Exit statuses\<close>

definition StatusClientClosed :: int where "StatusClientClosed = 0"
definition StatusServerError :: int where "StatusServerError = 1"
definition StatusEOF :: int where "StatusEOF = 2"
definition StatusM3U8Parsed :: int where "StatusM3U8Parsed = 3"
definition StatusM3U8ParseError :: int where "StatusM3U8ParseError = 4"
definition StatusIncompatible :: int where "StatusIncompatible = 5"

lemmas status_defs = StatusClientClosed_def StatusServerError_def StatusEOF_def
  StatusM3U8Parsed_def StatusM3U8ParseError_def StatusIncompatible_def

section \<open>M3U8 detection\<close>

definition knownMimeTypes :: "string list" where
  "knownMimeTypes = [''application/x-mpegurl'', ''text/plain'', ''audio/x-mpegurl'',
     ''audio/mpegurl'', ''application/vnd.apple.mpegurl'']"

definition IsAnM3U8Media :: "Response \<Rightarrow> bool" where
  "IsAnM3U8Media resp =
     (let conditionTwo = (case RequestPath resp of
            None \<Rightarrow> False
          | Some p \<Rightarrow> ToLower (path_Ext p) \<in> set [''.m3u'', ''.m3u8''])
      in ToLower (header_Get (RespHeader resp) ''Content-Type'') \<in> set knownMimeTypes \<or> conditionTwo)"

end
