(* ===== verification/ResponseWriter.thy ===== *)
theory ResponseWriter
  imports HttpTypes
begin

text \<open>
  What the handlers use of an \<open>http.ResponseWriter\<close> and of the replies \<open>net/http\<close> makes from one.

  A writer is its header map, the status codes it was given (only the first counts) and the bytes it
  has accepted; what one of its \<open>Write\<close> calls answers is an argument.
\<close>

record Writer =
  wHeader :: header
  wStatus :: "int list"
  wBody :: string

definition w_WriteHeader :: "int \<Rightarrow> Writer \<Rightarrow> Writer" where
  "w_WriteHeader code w = w\<lparr>wStatus := wStatus w @ [code]\<rparr>"

text \<open>The first write without a status sends 200.\<close>

definition w_Write :: "string \<Rightarrow> nat \<times> go_error option \<Rightarrow> Writer \<Rightarrow> ((nat \<times> go_error option) \<times> Writer) outcome" where
  "w_Write data answer w =
     (let w' = (if wStatus w = [] then w_WriteHeader 200 w else w)
      in Ok (answer, w'\<lparr>wBody := wBody w' @ take (fst answer) data\<rparr>))"

text \<open>\<open>http.Error\<close>, when the client accepts the message.\<close>

definition http_Error :: "string \<Rightarrow> int \<Rightarrow> Writer \<Rightarrow> Writer" where
  "http_Error msg code w =
     (let h = header_Set (header_Set (header_Del (wHeader w) ''Content-Length'')
                ''Content-Type'' ''text/plain; charset=utf-8'') ''X-Content-Type-Options'' ''nosniff'';
          w' = w_WriteHeader code (w\<lparr>wHeader := h\<rparr>)
      in w'\<lparr>wBody := wBody w' @ msg @ [newline]\<rparr>)"

text \<open>
  \<open>http.ServeFile\<close> for a request without a range or a condition: \<open>files\<close> gives the content of the
  regular file of a name, with the headers that are made from its name, time and size.
\<close>

type_synonym file_server = "string \<Rightarrow> (header \<times> string) option"

definition http_ServeFile :: "file_server \<Rightarrow> string \<Rightarrow> string \<Rightarrow> Writer \<Rightarrow> Writer" where
  "http_ServeFile files mthd name w =
     (case files name of
        None \<Rightarrow> http_Error ''404 page not found'' 404 w
      | Some (hs, content) \<Rightarrow>
          let w' = w_WriteHeader 200 (w\<lparr>wHeader := foldl (\<lambda>h (k, vs). header_Set h k (hd vs)) (wHeader w) hs\<rparr>)
          in if mthd = ''HEAD'' then w' else w'\<lparr>wBody := wBody w' @ content\<rparr>)"

lemma reply_simps [simp]:
  "wStatus (http_Error msg code w) = wStatus w @ [code]" "wBody (http_Error msg code w) = wBody w @ msg @ [newline]"
  by (simp_all add: http_Error_def w_WriteHeader_def Let_def)

lemma http_ServeFile_file:
  "files name = Some (hs, content) \<Longrightarrow> mthd \<noteq> ''HEAD'' \<Longrightarrow>
    wStatus (http_ServeFile files mthd name w) = wStatus w @ [200]
    \<and> wBody (http_ServeFile files mthd name w) = wBody w @ content"
  by (simp add: http_ServeFile_def w_WriteHeader_def)

end
