(* ===== verification/StreamClient.thy ===== *)
theory StreamClient
  imports ResponseWriter
begin

text \<open>
  \<^verbatim>\<open>proxy/client/client.go\<close>: the client's side of a stream, a response writer whose headers are
  sent once.
\<close>

record StreamClient =
  ResponseHeaders :: header
  HeadersSent :: bool
  respWriter :: "Writer option"

definition NewStreamClient :: "Writer option \<Rightarrow> StreamClient" where
  "NewStreamClient w = \<lparr>ResponseHeaders = [], HeadersSent = False, respWriter = w\<rparr>"

definition SetHeader :: "string \<Rightarrow> string \<Rightarrow> StreamClient \<Rightarrow> StreamClient" where
  "SetHeader k v sc =
     (if HeadersSent sc then sc else sc\<lparr>ResponseHeaders := header_Set (ResponseHeaders sc) k v\<rparr>)"

definition Header :: "StreamClient \<Rightarrow> header outcome" where
  "Header sc =
     (if HeadersSent sc
      then (case respWriter sc of None \<Rightarrow> Panic ''nil pointer dereference'' | Some w \<Rightarrow> Ok (wHeader w))
      else Ok (ResponseHeaders sc))"

text \<open>The two nested loops that copy the headers, in the order in which the map is visited.\<close>

definition add_all :: "header \<Rightarrow> header \<Rightarrow> header" where
  "add_all hs h = foldl (\<lambda>h (k, vs). foldl (\<lambda>h v. header_Add h k v) h vs) h hs"

definition WriteHeader :: "int \<Rightarrow> StreamClient \<Rightarrow> StreamClient outcome" where
  "WriteHeader statusCode sc =
     (if HeadersSent sc then Ok sc
      else case respWriter sc of
        None \<Rightarrow> Panic ''nil pointer dereference''
      | Some w \<Rightarrow> Ok (sc\<lparr>respWriter := Some (w\<lparr>wHeader := add_all (ResponseHeaders sc) (wHeader w),
                          wStatus := wStatus w @ [statusCode]\<rparr>), HeadersSent := True\<rparr>))"

definition IsWritable :: "StreamClient \<Rightarrow> bool" where
  "IsWritable sc \<longleftrightarrow> respWriter sc \<noteq> None"

text \<open>
  \<open>n\<close> of the bytes are accepted, with error \<open>err\<close> (an \<open>io.Writer\<close> that accepts fewer reports one).
\<close>

definition Write_client :: "string \<Rightarrow> nat \<times> go_error option \<Rightarrow> StreamClient
    \<Rightarrow> ((nat \<times> go_error option) \<times> StreamClient) outcome" where
  "Write_client data answer sc =
     bind_outcome (if HeadersSent sc then Ok sc else WriteHeader 200 sc) (\<lambda>sc1.
       case respWriter sc1 of
         None \<Rightarrow> Panic ''nil pointer dereference''
       | Some w \<Rightarrow> Ok (answer, sc1\<lparr>respWriter := Some (w\<lparr>wBody := wBody w @ take (fst answer) data\<rparr>)\<rparr>))"

section \<open>Headers are sent once\<close>

definition client_body :: "StreamClient \<Rightarrow> string" where
  "client_body sc = (case respWriter sc of None \<Rightarrow> [] | Some w \<Rightarrow> wBody w)"

definition client_status :: "StreamClient \<Rightarrow> int list" where
  "client_status sc = (case respWriter sc of None \<Rightarrow> [] | Some w \<Rightarrow> wStatus w)"

lemma WriteHeader_ok:
  assumes "IsWritable sc"
  obtains sc' where "WriteHeader code sc = Ok sc'" "IsWritable sc'" "HeadersSent sc'"
    "client_body sc' = client_body sc"
    "client_status sc' = client_status sc @ (if HeadersSent sc then [] else [code])"
proof -
  from assms obtain w where "respWriter sc = Some w" by (auto simp: IsWritable_def)
  with that show thesis
    by (cases "HeadersSent sc") (simp_all add: WriteHeader_def IsWritable_def client_body_def client_status_def)
qed

lemma Write_client_ok:
  assumes "IsWritable sc"
  obtains sc' where "Write_client data a sc = Ok (a, sc')" "IsWritable sc'" "HeadersSent sc'"
    "client_body sc' = client_body sc @ take (fst a) data"
    "client_status sc' = client_status sc @ (if HeadersSent sc then [] else [200])"
proof -
  have fill: "\<exists>sc'. (case respWriter s of None \<Rightarrow> Panic ''nil pointer dereference''
       | Some w \<Rightarrow> Ok (a, s\<lparr>respWriter := Some (w\<lparr>wBody := wBody w @ take (fst a) data\<rparr>)\<rparr>)) = Ok (a, sc')
      \<and> IsWritable sc' \<and> HeadersSent sc' = HeadersSent s \<and> client_body sc' = client_body s @ take (fst a) data
      \<and> client_status sc' = client_status s" if "IsWritable s" for s
    using that by (auto simp: IsWritable_def client_body_def client_status_def)
  show thesis
  proof (cases "HeadersSent sc")
    case True
    with fill [OF assms] that show thesis by (auto simp: Write_client_def)
  next
    case False
    obtain s where "WriteHeader 200 sc = Ok s" "IsWritable s" "HeadersSent s"
      "client_body s = client_body sc" "client_status s = client_status sc @ (if HeadersSent sc then [] else [200])"
      by (rule WriteHeader_ok [OF assms])
    with False fill [of s] that show thesis by (auto simp: Write_client_def)
  qed
qed

end
