(* ===== verification/Configs.thy ===== *)
theory Configs
  imports GoStrings
begin

text \<open>
  \<^verbatim>\<open>proxy/stream/config/config.go\<close> and \<^verbatim>\<open>proxy/loadbalancer/config.go\<close>: the numbers read from the
  environment at start, with their defaults.  \<open>int_setting\<close> is the shape both files repeat: look
  the variable up, convert it, keep the default when it is missing, malformed or rejected.
\<close>

definition int_setting :: "environ \<Rightarrow> string \<Rightarrow> (int \<Rightarrow> bool) \<Rightarrow> int \<Rightarrow> int" where
  "int_setting env key accept dflt =
     (case LookupEnv env key of
        None \<Rightarrow> dflt
      | Some s \<Rightarrow> let (v, ok) = Atoi s in if ok \<and> accept v then v else dflt)"

record StreamConfig =
  SharedBufferSize :: int
  ChunkSize :: int
  TimeoutSeconds :: int
  InitialBackoff :: int
  StreamMaxRetries :: int

definition NewDefaultStreamConfig :: "environ \<Rightarrow> StreamConfig" where
  "NewDefaultStreamConfig env =
     \<lparr>SharedBufferSize = int_setting env ''BUFFER_CHUNK_NUM'' (\<lambda>v. v \<ge> 0) 8,
      ChunkSize = 1024 * 1024,
      TimeoutSeconds = int_setting env ''STREAM_TIMEOUT'' (\<lambda>v. v \<ge> 0) 3,
      InitialBackoff = 200 * 1000000,
      StreamMaxRetries = int_setting env ''MAX_RETRIES'' (\<lambda>_. True) 5\<rparr>"

record LBConfig =
  MaxRetries :: int
  RetryWait :: int

definition NewDefaultLBConfig :: "environ \<Rightarrow> LBConfig" where
  "NewDefaultLBConfig env =
     \<lparr>MaxRetries = int_setting env ''MAX_RETRIES'' (\<lambda>_. True) 5,
      RetryWait = int_setting env ''RETRY_WAIT'' (\<lambda>_. True) 0\<rparr>"

lemma int_setting_accepts: "accept dflt \<Longrightarrow> accept (int_setting env key accept dflt)"
  by (auto simp: int_setting_def split: option.splits prod.splits)

lemma Atoi_range:
  "- 9223372036854775808 \<le> fst (Atoi s)" "fst (Atoi s) \<le> 9223372036854775807"
  by (auto simp: Atoi_def Let_def split: prod.splits)

lemma int_setting_range:
  assumes "- 9223372036854775808 \<le> dflt" "dflt \<le> 9223372036854775807"
  shows "- 9223372036854775808 \<le> int_setting env key accept dflt"
    "int_setting env key accept dflt \<le> 9223372036854775807"
  using assms Atoi_range [of "the (LookupEnv env key)"]
  by (auto simp: int_setting_def split: option.splits prod.splits)

lemma int_setting_Itoa:
  assumes "LookupEnv env key = Some (Itoa v)" "accept v"
    "- 9223372036854775808 \<le> v" "v \<le> 9223372036854775807"
  shows "int_setting env key accept dflt = v"
  using assms by (simp add: int_setting_def Atoi_Itoa)

lemma stream_config_nonneg:
  "0 \<le> SharedBufferSize (NewDefaultStreamConfig env)" "0 \<le> TimeoutSeconds (NewDefaultStreamConfig env)"
  unfolding NewDefaultStreamConfig_def
  by (simp_all add: int_setting_accepts [of "\<lambda>v. v \<ge> 0"])

end
