(* ===== verification/Backoff.thy ===== *)
theory Backoff
  imports GoPrelude
begin

text \<open>
  \<^verbatim>\<open>proxy/backoff.go\<close>: the delay between two attempts.  Durations are \<open>int64\<close> nanoseconds.
\<close>

record BackoffStrategy =
  initial :: int
  max_delay :: int
  current :: int

definition NewBackoffStrategy :: "int \<Rightarrow> int \<Rightarrow> BackoffStrategy" where
  "NewBackoffStrategy i m = \<lparr>initial = i, max_delay = m, current = i\<rparr>"

definition Next :: "BackoffStrategy \<Rightarrow> int \<times> BackoffStrategy" where
  "Next b =
     (if max_delay b = 0 then (initial b, b)
      else let cur = current b;
               doubled = int64 (cur * 2);
               capped = (if doubled > max_delay b then max_delay b else doubled)
           in (cur, b\<lparr>current := capped\<rparr>))"

text \<open>
  \<open>Sleep\<close> evaluates \<open>b.Next()\<close> when it enters the \<open>select\<close>, so the state advances whether the
  context or the timer wins.  The argument is the time left until the context is done, if it
  ever is; the result is the time slept.  A timer with a delay of 0 or less fires at once.
\<close>

definition Sleep :: "int option \<Rightarrow> BackoffStrategy \<Rightarrow> int \<times> BackoffStrategy" where
  "Sleep ctx_left b =
     (let (d, b') = Next b; d0 = max 0 d
      in (case ctx_left of None \<Rightarrow> d0 | Some t \<Rightarrow> min (max 0 t) d0, b'))"

definition Reset :: "BackoffStrategy \<Rightarrow> BackoffStrategy" where
  "Reset b = (if max_delay b > 0 then b\<lparr>current := initial b\<rparr> else b)"

fun delays :: "nat \<Rightarrow> BackoffStrategy \<Rightarrow> int list" where
  "delays 0 b = []"
| "delays (Suc k) b = (let (d, b') = Next b in d # delays k b')"

section \<open>The sequence of delays\<close>

text \<open>
  The state after \<open>k\<close> calls of \<open>Next\<close>, and the capped doubling it keeps while no product leaves
  the range of \<open>int64\<close>.
\<close>

definition at_step :: "int \<Rightarrow> int \<Rightarrow> nat \<Rightarrow> BackoffStrategy" where
  "at_step i m k = \<lparr>initial = i, max_delay = m, current = min (i * 2 ^ k) m\<rparr>"

lemma at_step_0: "0 < i \<Longrightarrow> i \<le> m \<Longrightarrow> NewBackoffStrategy i m = at_step i m 0"
  by (simp add: NewBackoffStrategy_def at_step_def)

lemma Next_at_step:
  assumes "0 < i" "i \<le> m" "m < 4611686018427387904"
  shows "Next (at_step i m k) = (min (i * 2 ^ k) m, at_step i m (Suc k))"
proof -
  define x where "x = i * 2 ^ k"
  have pos: "0 < x" using assms by (simp add: x_def)
  have wrap: "int64 (min x m * 2) = min x m * 2"
    using assms pos by (intro int64_id) linarith+
  have cap: "(if min x m * 2 > m then m else min x m * 2) = min (x * 2) m"
    using pos assms by (auto simp: min_def)
  have "Next (at_step i m k) =
      (min x m, \<lparr>initial = i, max_delay = m,
        current = (if int64 (min x m * 2) > m then m else int64 (min x m * 2))\<rparr>)"
    using assms by (simp add: Next_def at_step_def Let_def x_def)
  also have "\<dots> = (min x m, \<lparr>initial = i, max_delay = m, current = min (x * 2) m\<rparr>)"
    unfolding wrap cap ..
  finally show ?thesis
    by (simp add: at_step_def x_def mult.assoc mult.commute)
qed

lemma delays_at_step:
  assumes "0 < i" "i \<le> m" "m < 4611686018427387904"
  shows "delays n (at_step i m k) = map (\<lambda>j. min (i * 2 ^ (k + j)) m) [0..<n]"
proof (induction n arbitrary: k)
  case (Suc n)
  have "[0..<Suc n] = 0 # map Suc [0..<n]"
    by (simp add: map_Suc_upt upt_conv_Cons del: upt_Suc)
  then show ?case
    by (simp add: Next_at_step [OF assms] Suc.IH del: upt_Suc)
qed simp

text \<open>The delays of a backoff strategy with a positive start not above its cap double from
  call to call and stop at the cap: the k-th one is \<open>min (initial * 2 ^ k) max\<close> (the cap stays
  below half of the range of \<open>int64\<close>, so the doubling never wraps).\<close>

theorem backoff_doubles_to_cap:
  assumes "0 < i" "i \<le> m" "m < 4611686018427387904" "k < n"
  shows "delays n (NewBackoffStrategy i m) ! k = min (i * 2 ^ k) m"
  using assms by (simp add: at_step_0 delays_at_step)

theorem backoff_doubles_to_cap_witness:
  "delays 5 (NewBackoffStrategy 200000000 2000000000) ! 4 = 2000000000"
  using backoff_doubles_to_cap [of 200000000 2000000000 4 5] by simp

text \<open>After \<open>Reset\<close> the sequence starts again, and a cap of 0 turns the doubling off.\<close>

lemma Reset_at_step:
  "0 < i \<Longrightarrow> i \<le> m \<Longrightarrow> Reset (at_step i m k) = NewBackoffStrategy i m"
  by (simp add: Reset_def at_step_def NewBackoffStrategy_def)

lemma delays_no_cap: "delays n (NewBackoffStrategy i 0) = replicate n i"
  by (induction n) (simp_all add: Next_def NewBackoffStrategy_def)

text \<open>
  A negative cap: the first delay is the initial one, every later one is not above the cap, so
  no time passes in \<open>Sleep\<close>; and \<open>Reset\<close> does nothing.
\<close>

lemma Next_negative_cap:
  assumes "max_delay b < 0" "Next b = (d, b')"
  shows "d = current b" "current b' \<le> max_delay b" "max_delay b' = max_delay b"
  using assms by (auto simp: Next_def Let_def split: if_splits)

lemma delays_negative_cap:
  "max_delay b < 0 \<Longrightarrow> current b \<le> max_delay b \<Longrightarrow> d \<in> set (delays n b) \<Longrightarrow> d \<le> max_delay b"
proof (induction n arbitrary: b)
  case (Suc n)
  obtain d1 b1 where n: "Next b = (d1, b1)" by (cases "Next b")
  note f = Next_negative_cap [OF Suc.prems(1) n]
  from Suc.prems n f Suc.IH [of b1] show ?case by auto
qed simp

text \<open>With a negative cap, which \<open>readAndWriteStream\<close> builds when \<open>TimeoutSeconds\<close> is 0 (the cap is
  \<open>TimeoutSeconds - 1\<close> seconds), no delay after the first one is positive: the retries of a
  failing source follow each other without any wait.\<close>

theorem negative_cap_never_waits:
  assumes "m < 0" "0 < k" "k < n"
  shows "delays n (NewBackoffStrategy i m) ! k \<le> m"
proof -
  obtain j where k: "k = Suc j" using assms(2) by (cases k) auto
  obtain n' where n: "n = Suc n'" using assms(3) by (cases n) auto
  obtain d b where nx: "Next (NewBackoffStrategy i m) = (d, b)"
    by (cases "Next (NewBackoffStrategy i m)")
  have "max_delay b = m" "current b \<le> m"
    using Next_negative_cap [OF _ nx] assms(1) by (simp_all add: NewBackoffStrategy_def)
  then have "\<forall>d \<in> set (delays n' b). d \<le> m"
    using delays_negative_cap [of b] assms(1) by auto
  moreover have "length (delays n' b) = n'"
    by (induction n' arbitrary: b) (auto split: prod.splits)
  ultimately show ?thesis
    using assms(3) k n nx by simp
qed

theorem negative_cap_never_waits_witness:
  "delays 4 (NewBackoffStrategy 200000000 (- 1000000000)) ! 2 \<le> - 1000000000"
  using negative_cap_never_waits [of "- 1000000000" 2 4 200000000] by simp

end
