(* ===== verification/Coordinator.thy ===== *)
theory Coordinator
  imports Configs HttpTypes Backoff
begin

text \<open>
  \<^verbatim>\<open>proxy/stream/buffer/coordinator.go\<close>: the shared buffer of one stream.  One writer puts chunks
  into a ring of \<open>SharedBufferSize\<close> slots, any number of readers follow it, each with a pointer
  to the slot it has reached.  \<open>container/ring\<close> is the list \<open>slots\<close>; a \<open>*ring.Ring\<close> is an index
  into it (the nil ring of size 0 is the empty list, on which every access panics).
  A method that runs under \<open>Mu\<close>, and each atomic access, is one step.  Logging is left out.
\<close>

section \<open>Chunks\<close>

text \<open>
  A \<open>*bytebufferpool.ByteBuffer\<close> is its content (\<open>None\<close> is nil): \<open>bytebufferpool.Get\<close> returns an
  empty buffer, and a buffer has one owner at a time, so its address does not matter.
\<close>

record ChunkData =
  Buffer :: "string option"
  Error :: "go_error option"
  Status :: int
  Timestamp :: int
  seq :: int

definition newChunkData :: ChunkData where
  "newChunkData = \<lparr>Buffer = Some [], Error = None, Status = 0, Timestamp = 0, seq = 0\<rparr>"

definition ChunkReset :: "ChunkData \<Rightarrow> ChunkData" where
  "ChunkReset c = c\<lparr>Buffer := Some [], Error := None, Status := 0, Timestamp := 0, seq := 0\<rparr>"

lemma ChunkReset_new [simp]: "ChunkReset c = newChunkData"
  by (simp add: ChunkReset_def newChunkData_def)

section \<open>State\<close>

datatype coord_state = StateActive | StateDraining | StateClosed

text \<open>The \<open>int32\<close> values of the constants, which order them.\<close>

fun state_code :: "coord_state \<Rightarrow> int" where
  "state_code StateActive = 0"
| "state_code StateDraining = 1"
| "state_code StateClosed = 2"

lemma state_code_inject [simp]: "state_code a = state_code b \<longleftrightarrow> a = b"
  by (cases a; cases b) auto

instantiation coord_state :: linorder
begin

definition less_eq_coord_state :: "coord_state \<Rightarrow> coord_state \<Rightarrow> bool" where
  "less_eq_coord_state a b \<longleftrightarrow> state_code a \<le> state_code b"

definition less_coord_state :: "coord_state \<Rightarrow> coord_state \<Rightarrow> bool" where
  "less_coord_state a b \<longleftrightarrow> state_code a < state_code b"

instance
  by standard (auto simp: less_eq_coord_state_def less_coord_state_def)

end

text \<open>
  \<open>LastError\<close> is an \<open>atomic.Value\<close>: \<open>None\<close> when nothing was stored, \<open>Some None\<close> for the typed nil
  \<open>(*ChunkData)(nil)\<close>, \<open>Some (Some i)\<close> for a pointer to the chunk in slot \<open>i\<close>.  The broadcast
  channel is the number of channels closed so far.  \<open>WriterCtx\<close> and \<open>WriterCancel\<close> are the number
  of a context, \<open>cancelled\<close> the contexts that were cancelled.
\<close>

record Coord =
  slots :: "ChunkData list"
  wpos :: nat
  broadcast :: nat
  ClientCount :: int
  WriterCtx :: "nat option"
  WriterCancel :: "nat option"
  nextCtx :: nat
  cancelled :: "nat list"
  WriterChan :: bool
  WriterActive :: bool
  WriterRespHeader :: "header option"
  respHeaderSet :: bool
  m3uHeaderSet :: bool
  LastError :: "nat option option"
  config :: StreamConfig
  streamID :: string
  actualURL :: string
  cstate :: coord_state
  LBResultOnWrite :: "LoadBalancerResult option"
  writeSeq :: int

definition NewStreamCoordinator :: "string \<Rightarrow> StreamConfig \<Rightarrow> Coord" where
  "NewStreamCoordinator sid cfg =
     \<lparr>slots = replicate (nat (SharedBufferSize cfg)) newChunkData, wpos = 0, broadcast = 0,
      ClientCount = 0, WriterCtx = None, WriterCancel = None, nextCtx = 0, cancelled = [],
      WriterChan = False, WriterActive = False, WriterRespHeader = None, respHeaderSet = False,
      m3uHeaderSet = False, LastError = Some None, config = cfg, streamID = sid, actualURL = [],
      cstate = StateActive, LBResultOnWrite = None, writeSeq = 0\<rparr>"

definition SetActualURL :: "string \<Rightarrow> Coord \<Rightarrow> Coord" where
  "SetActualURL url c = (if actualURL c = [] then c\<lparr>actualURL := url\<rparr> else c)"

definition GetActualURL :: "Coord \<Rightarrow> string" where
  "GetActualURL c = actualURL c"

text \<open>\<open>subscribe\<close> returns the channel that the next notification closes.\<close>

definition subscribe :: "Coord \<Rightarrow> nat" where
  "subscribe c = broadcast c"

definition notifySubscribers :: "Coord \<Rightarrow> Coord" where
  "notifySubscribers c = c\<lparr>broadcast := Suc (broadcast c)\<rparr>"

definition GetWriterLBResult :: "Coord \<Rightarrow> LoadBalancerResult option" where
  "GetWriterLBResult c = LBResultOnWrite c"

section \<open>Clients\<close>

definition RegisterClient :: "Coord \<Rightarrow> Coord" where
  "RegisterClient c =
     (let c1 = (if cstate c \<noteq> StateActive \<and> ClientCount c = 0 then c\<lparr>cstate := StateActive\<rparr> else c)
      in c1\<lparr>ClientCount := int32 (ClientCount c1 + 1)\<rparr>)"

text \<open>\<open>ClearBuffer\<close>: \<open>SharedBufferSize\<close> steps around the ring from the writer's slot.\<close>

fun clear_loop :: "nat \<Rightarrow> nat \<Rightarrow> ChunkData list \<Rightarrow> ChunkData list" where
  "clear_loop 0 p cs = cs"
| "clear_loop (Suc k) p cs = clear_loop k ((p + 1) mod length cs) (cs[p := ChunkReset (cs ! p)])"

definition ClearBuffer :: "Coord \<Rightarrow> Coord" where
  "ClearBuffer c = c\<lparr>slots := clear_loop (nat (SharedBufferSize (config c))) (wpos c) (slots c)\<rparr>"

definition UnregisterClient :: "Coord \<Rightarrow> Coord" where
  "UnregisterClient c =
     (let n = int32 (ClientCount c - 1); c1 = c\<lparr>ClientCount := n\<rparr> in
      if n = 0 then
        notifySubscribers (ClearBuffer
          (c1\<lparr>cstate := StateDraining, WriterChan := True, WriterRespHeader := None\<rparr>))
      else c1)"

definition HasClient :: "Coord \<Rightarrow> bool" where
  "HasClient c \<longleftrightarrow> ClientCount c > 0"

section \<open>Timeouts\<close>

definition getTimeoutDuration :: "Coord \<Rightarrow> int" where
  "getTimeoutDuration c =
     (if TimeoutSeconds (config c) = 0 then 60000000000
      else int64 (TimeoutSeconds (config c) * 1000000000))"

definition shouldTimeout :: "Coord \<Rightarrow> int \<Rightarrow> int \<Rightarrow> int \<Rightarrow> bool" where
  "shouldTimeout c now lastSuccess timeout \<longleftrightarrow>
     TimeoutSeconds (config c) > 0 \<and> now - lastSuccess \<ge> timeout"

definition shouldRetry :: "Coord \<Rightarrow> int \<Rightarrow> bool" where
  "shouldRetry c timeout \<longleftrightarrow> TimeoutSeconds (config c) = 0 \<or> timeout > 0"

section \<open>Writing\<close>

text \<open>
  What the ring's slot holds after the swap: the caller's buffer and metadata under the next
  sequence number.  The result of \<open>Write\<close> is the flag it returns, the caller's chunk (reset on
  every path) and the coordinator.
\<close>

definition stored :: "int \<Rightarrow> ChunkData \<Rightarrow> ChunkData" where
  "stored n ch = \<lparr>Buffer = Buffer ch, Error = Error ch, Status = Status ch,
     Timestamp = Timestamp ch, seq = n\<rparr>"

definition is_error :: "ChunkData \<Rightarrow> bool" where
  "is_error ch \<longleftrightarrow> Error ch \<noteq> None \<or> Status ch \<noteq> 0"

definition Write :: "ChunkData option \<Rightarrow> Coord \<Rightarrow> (bool \<times> ChunkData option \<times> Coord) outcome" where
  "Write chunk c =
     (case chunk of
        None \<Rightarrow> Ok (False, None, c)
      | Some ch \<Rightarrow>
          if cstate c \<noteq> StateActive then Ok (False, Some (ChunkReset ch), c)
          else if slots c = [] then Panic ''nil pointer dereference''
          else
            let n = int64 (writeSeq c + 1);
                cur = stored n ch;
                ch' = ch\<lparr>Buffer := Buffer (slots c ! wpos c)\<rparr>;
                c1 = c\<lparr>slots := (slots c)[wpos c := cur], writeSeq := n,
                       wpos := (wpos c + 1) mod length (slots c)\<rparr>;
                c2 = (if is_error cur
                      then c1\<lparr>LastError := (if LastError c1 = None then Some (Some (wpos c)) else LastError c1),
                              cstate := StateDraining\<rparr>
                      else c1)
            in Ok (True, Some (ChunkReset ch'), notifySubscribers c2))"

definition writeError :: "go_error option \<Rightarrow> int \<Rightarrow> int \<Rightarrow> Coord \<Rightarrow> Coord outcome" where
  "writeError err status now c =
     bind_outcome (Write (Some (newChunkData\<lparr>Error := err, Status := status, Timestamp := now\<rparr>)) c)
       (\<lambda>(_, _, c'). Ok (c'\<lparr>cstate := StateClosed\<rparr>))"

section \<open>Reading\<close>

text \<open>
  A reader's pointer that is nil, or whose slot is older than the ring reaches, restarts at the
  writer's slot.  A reader that stands at the writer's slot waits while the stream is active.
\<close>

definition start_position :: "nat option \<Rightarrow> Coord \<Rightarrow> nat" where
  "start_position from c =
     (let p = (case from of None \<Rightarrow> wpos c | Some p \<Rightarrow> p) in
      if seq (slots c ! p) < int64 (writeSeq c - SharedBufferSize (config c)) then wpos c else p)"

definition must_wait :: "nat \<Rightarrow> Coord \<Rightarrow> bool" where
  "must_wait p c \<longleftrightarrow> p = wpos c \<and> cstate c = StateActive"

text \<open>One slot of the loop: copy its data, remember its error; the last error seen wins.\<close>

definition visit :: "ChunkData list \<times> ChunkData option \<Rightarrow> ChunkData \<Rightarrow> ChunkData list \<times> ChunkData option" where
  "visit acc ch =
     ((case Buffer ch of
         Some (b # bs) \<Rightarrow> fst acc @ [newChunkData\<lparr>Buffer := Some (b # bs), Timestamp := Timestamp ch\<rparr>]
       | _ \<Rightarrow> fst acc),
      (if is_error ch then Some (ch\<lparr>Buffer := None, seq := 0\<rparr>) else snd acc))"

text \<open>
  The loop from \<open>from\<close> up to the writer's slot, with one unit of fuel per slot of the ring;
  \<open>None\<close> would be a loop that goes on.
\<close>

fun read_loop :: "nat \<Rightarrow> ChunkData list \<Rightarrow> nat \<Rightarrow> nat \<Rightarrow> nat \<Rightarrow> ChunkData list \<times> ChunkData option
    \<Rightarrow> ((ChunkData list \<times> ChunkData option) \<times> nat) option" where
  "read_loop fuel cs w from p acc =
     (if p = w then Some (acc, p)
      else case fuel of
        0 \<Rightarrow> None
      | Suc k \<Rightarrow>
          let acc' = visit acc (cs ! p); p' = (p + 1) mod length cs in
          if p' = from then Some (acc', p') else read_loop k cs w from p' acc')"

declare read_loop.simps [simp del]

datatype read_result = Waiting nat | ReadRes "ChunkData list" "ChunkData option" nat

text \<open>
  \<open>ReadFrom\<close> is \<open>ReadChunks\<close> from its wait loop on: a reader that is woken up tests again whether it
  has to wait, and does not go back to the test for a stale position.
\<close>

definition ReadFrom :: "nat \<Rightarrow> Coord \<Rightarrow> read_result outcome" where
  "ReadFrom p c =
     (if must_wait p c then Ok (Waiting p)
      else case read_loop (length (slots c)) (slots c) (wpos c) p p ([], None) of
        None \<Rightarrow> Panic ''loop without end''
      | Some ((chunks, err), q) \<Rightarrow>
          Ok (case err of
                Some e \<Rightarrow> ReadRes chunks (Some e) q
              | None \<Rightarrow>
                  (case LastError c of
                     Some (Some i) \<Rightarrow> ReadRes chunks (Some (slots c ! i)) q
                   | _ \<Rightarrow> ReadRes chunks None q)))"

definition ReadChunks :: "nat option \<Rightarrow> Coord \<Rightarrow> read_result outcome" where
  "ReadChunks from c =
     (if slots c = [] then Panic ''nil pointer dereference''
      else ReadFrom (start_position from c) c)"

section \<open>The ring as a window\<close>

text \<open>
  The slots in the order in which they were written, oldest first: the view the reader has of
  the ring.  \<open>ring_ok\<close> is what the constructor establishes and every operation keeps.
\<close>

definition ring_view :: "Coord \<Rightarrow> ChunkData list" where
  "ring_view c = rotate (wpos c) (slots c)"

definition ring_ok :: "Coord \<Rightarrow> bool" where
  "ring_ok c \<longleftrightarrow> slots c \<noteq> [] \<and> length (slots c) = nat (SharedBufferSize (config c))
     \<and> SharedBufferSize (config c) < 9223372036854775808 \<and> wpos c < length (slots c)"

lemma length_ring_view [simp]: "length (ring_view c) = length (slots c)"
  by (simp add: ring_view_def)

lemma rotate_same [simp]: "rotate k (replicate n x) = replicate n x"
  by (rule nth_equalityI) (auto simp: nth_rotate)

lemma clear_loop_nth:
  "p < length cs \<Longrightarrow> length (clear_loop k p cs) = length cs
    \<and> (\<forall>i < length cs. clear_loop k p cs ! i
         = (if \<exists>j < k. (p + j) mod length cs = i then newChunkData else cs ! i))"
proof (induction k arbitrary: p cs)
  case (Suc k)
  let ?n = "length cs" let ?p = "(p + 1) mod ?n" let ?cs = "cs[p := newChunkData]"
  have n: "0 < ?n" using Suc.prems by linarith
  then have "?p < length ?cs" by (metis length_list_update mod_less_divisor)
  note IH = Suc.IH [OF this]
  have step: "(\<exists>j < Suc k. (p + j) mod ?n = i) \<longleftrightarrow> i = p \<or> (\<exists>j < k. (?p + j) mod ?n = i)"
    if "i < ?n" for i
    using Suc.prems by (auto simp: less_Suc_eq_0_disj mod_simps)
  show ?case
    using IH step Suc.prems by (auto simp: nth_list_update simp del: One_nat_def)
qed simp

lemma clear_loop_full:
  assumes "p < length cs"
  shows "clear_loop (length cs) p cs = replicate (length cs) newChunkData"
proof (rule nth_equalityI)
  let ?n = "length cs"
  have len: "length (clear_loop ?n p cs) = ?n" using clear_loop_nth [OF assms] by blast
  then show "length (clear_loop ?n p cs) = length (replicate ?n newChunkData)" by simp
  fix i assume "i < length (clear_loop ?n p cs)"
  then have i: "i < ?n" using len by simp
  have "(p + (i + ?n - p) mod ?n) mod ?n = (p + (i + ?n - p)) mod ?n" by (simp add: mod_simps)
  also have "\<dots> = i" using assms i by simp
  finally have "(p + (i + ?n - p) mod ?n) mod ?n = i" .
  moreover have "(i + ?n - p) mod ?n < ?n" using i by (intro mod_less_divisor) linarith
  ultimately have "\<exists>j < ?n. (p + j) mod ?n = i" by blast
  with clear_loop_nth [OF assms, of ?n] i show "clear_loop ?n p cs ! i = replicate ?n newChunkData ! i"
    by simp
qed

lemma ClearBuffer_slots: "ring_ok c \<Longrightarrow> slots (ClearBuffer c) = replicate (length (slots c)) newChunkData"
  using clear_loop_full [of "wpos c" "slots c"] by (simp add: ClearBuffer_def ring_ok_def)

lemma ClearBuffer_view: "ring_ok c \<Longrightarrow> ring_view (ClearBuffer c) = replicate (length (slots c)) newChunkData"
  by (simp add: ring_view_def ClearBuffer_slots rotate_same)

lemma rotate_write:
  assumes "w < length cs"
  shows "rotate ((w + 1) mod length cs) (cs[w := x]) = tl (rotate w cs) @ [x]"
proof (rule nth_equalityI)
  let ?n = "length cs"
  show "length (rotate ((w + 1) mod ?n) (cs[w := x])) = length (tl (rotate w cs) @ [x])"
    using assms by simp
  fix i assume "i < length (rotate ((w + 1) mod ?n) (cs[w := x]))"
  then have i: "i < ?n" by simp
  have l: "rotate ((w + 1) mod ?n) (cs[w := x]) ! i = cs[w := x] ! ((w + 1 + i) mod ?n)"
    using i by (simp add: nth_rotate mod_simps)
  show "rotate ((w + 1) mod ?n) (cs[w := x]) ! i = (tl (rotate w cs) @ [x]) ! i"
  proof (cases "i = ?n - 1")
    case True
    then have "w + 1 + i = w + ?n" using assms by linarith
    then have "(w + 1 + i) mod ?n = (w + ?n) mod ?n" by (simp only:)
    also have "\<dots> = w" using assms by simp
    finally have "(w + 1 + i) mod ?n = w" .
    with l True assms show ?thesis by (simp add: nth_append)
  next
    case False
    with i have i': "Suc i < ?n" by simp
    have "(w + 1 + i) mod ?n \<noteq> w"
    proof
      assume a: "(w + 1 + i) mod ?n = w"
      show False
      proof (cases "w + 1 + i < ?n")
        case True with a show False by simp
      next
        case False
        with assms i' have "(w + 1 + i) mod ?n = w + 1 + i - ?n"
          by (simp add: mod_if [of "w + 1 + i - ?n"] le_mod_geq)
        with a False i' show False by simp
      qed
    qed
    moreover have "i < ?n - Suc 0" using i' by linarith
    ultimately show ?thesis
      using l i' assms by (simp add: nth_append nth_tl nth_rotate)
  qed
qed

lemma Write_inactive:
  "cstate c \<noteq> StateActive \<Longrightarrow> Write (Some ch) c = Ok (False, Some newChunkData, c)"
  by (simp add: Write_def)

text \<open>The coordinator after a successful write.\<close>

definition after_write :: "ChunkData \<Rightarrow> Coord \<Rightarrow> Coord" where
  "after_write ch c = (case Write (Some ch) c of Ok (_, _, c') \<Rightarrow> c' | Panic _ \<Rightarrow> c)"

lemma Write_active:
  assumes "ring_ok c" "cstate c = StateActive"
  shows "Write (Some ch) c = Ok (True, Some newChunkData, after_write ch c)"
  using assms by (simp add: after_write_def Write_def ring_ok_def Let_def)

lemma after_write_inactive: "cstate c \<noteq> StateActive \<Longrightarrow> after_write ch c = c"
  by (simp add: after_write_def Write_inactive)

lemma after_write_fields:
  assumes "ring_ok c" "cstate c = StateActive"
  shows "slots (after_write ch c) = (slots c)[wpos c := stored (int64 (writeSeq c + 1)) ch]"
    "wpos (after_write ch c) = (wpos c + 1) mod length (slots c)"
    "writeSeq (after_write ch c) = int64 (writeSeq c + 1)"
    "cstate (after_write ch c) = (if is_error ch then StateDraining else StateActive)"
    "broadcast (after_write ch c) = Suc (broadcast c)"
    "config (after_write ch c) = config c"
    "ClientCount (after_write ch c) = ClientCount c"
    "LastError (after_write ch c) =
       (if is_error ch \<and> LastError c = None then Some (Some (wpos c)) else LastError c)"
  using assms
  by (simp_all add: after_write_def Write_def ring_ok_def Let_def notifySubscribers_def
      is_error_def stored_def)

lemma ring_ok_after_write [simp]: "ring_ok c \<Longrightarrow> ring_ok (after_write ch c)"
  by (cases "cstate c = StateActive")
    (auto simp: ring_ok_def after_write_fields after_write_inactive)

lemma ring_view_after_write:
  assumes "ring_ok c" "cstate c = StateActive"
  shows "ring_view (after_write ch c) = tl (ring_view c) @ [stored (int64 (writeSeq c + 1)) ch]"
  using assms rotate_write [of "wpos c" "slots c" "stored (int64 (writeSeq c + 1)) ch"]
  by (simp add: ring_view_def after_write_fields ring_ok_def)

section \<open>What a reader sees\<close>

text \<open>\<open>behind k\<close> is the position \<open>k\<close> slots before the writer's.\<close>

definition behind :: "nat \<Rightarrow> Coord \<Rightarrow> nat" where
  "behind k c = (wpos c + length (slots c) - k) mod length (slots c)"

lemma mod_back:
  assumes "w < (n :: nat)" "a < n"
  shows "(w + n - a) mod n = (if a \<le> w then w - a else w + n - a)"
proof (cases "a \<le> w")
  case True
  then have "w + n - a = (w - a) + n" by simp
  then have "(w + n - a) mod n = (w - a) mod n" by (simp only: mod_add_self2)
  with True assms show ?thesis by simp
qed (use assms in simp)

lemma mod_back_inj:
  "w < (n :: nat) \<Longrightarrow> a < n \<Longrightarrow> b < n \<Longrightarrow> (w + n - a) mod n = (w + n - b) mod n \<longleftrightarrow> a = b"
  by (auto simp: mod_back split: if_splits)

lemma mod_back_Suc:
  assumes "w < (n :: nat)" "Suc d < n"
  shows "((w + n - Suc d) mod n + 1) mod n = (w + n - d) mod n"
proof -
  have "((w + n - Suc d) mod n + 1) mod n = (w + n - Suc d + 1) mod n" by (simp only: mod_add_left_eq)
  also have "w + n - Suc d + 1 = w + n - d" using assms by linarith
  finally show ?thesis .
qed

lemma last_n_Suc: "d < length xs \<Longrightarrow> last_n (Suc d) xs = xs ! (length xs - Suc d) # last_n d xs"
  by (simp add: last_n_def Cons_nth_drop_Suc [symmetric] Suc_diff_Suc)

lemma read_loop_segment:
  assumes "w < length cs" "k < length cs"
  shows "d \<le> k \<Longrightarrow> d < fuel \<Longrightarrow>
    read_loop fuel cs w ((w + length cs - k) mod length cs) ((w + length cs - d) mod length cs) acc
      = Some (foldl visit acc (last_n d (rotate w cs)), w)"
proof (induction d arbitrary: fuel acc)
  case 0
  then show ?case using assms by (simp add: read_loop.simps)
next
  case (Suc d)
  let ?n = "length cs"
  have d: "Suc d < ?n" "d < ?n" using Suc.prems assms by linarith+
  obtain f where f: "fuel = Suc f" "d < f" using Suc.prems by (cases fuel) auto
  have notw: "(w + ?n - Suc d) mod ?n \<noteq> w"
    using mod_back_inj [OF assms(1) d(1), of 0] assms by (cases "cs = []") simp_all
  have notfrom: "(w + ?n - d) mod ?n \<noteq> (w + ?n - k) mod ?n"
    using mod_back_inj [OF assms(1) d(2) assms(2)] Suc.prems by simp
  have hd: "rotate w cs ! (?n - Suc d) = cs ! ((w + ?n - Suc d) mod ?n)"
    using d assms by (simp add: nth_rotate)
  have seg: "last_n (Suc d) (rotate w cs) = cs ! ((w + ?n - Suc d) mod ?n) # last_n d (rotate w cs)"
    using last_n_Suc [of d "rotate w cs"] d hd by simp
  have nxt: "((w + ?n - Suc d) mod ?n + 1) mod ?n = (w + ?n - d) mod ?n"
    by (rule mod_back_Suc [OF assms(1) d(1)])
  show ?case
    unfolding seg using Suc.IH [of f] Suc.prems f notw notfrom nxt
    by (subst read_loop.simps) (simp add: Let_def)
qed

definition has_data :: "ChunkData \<Rightarrow> bool" where
  "has_data ch \<longleftrightarrow> (\<exists>b bs. Buffer ch = Some (b # bs))"

definition data_copy :: "ChunkData \<Rightarrow> ChunkData" where
  "data_copy ch = newChunkData\<lparr>Buffer := Buffer ch, Timestamp := Timestamp ch\<rparr>"

lemma visit_fst: "fst (visit acc ch) = (if has_data ch then fst acc @ [data_copy ch] else fst acc)"
  by (auto simp: visit_def has_data_def data_copy_def split: option.splits list.splits)

lemma visit_snd: "snd (visit acc ch) = (if is_error ch then Some (ch\<lparr>Buffer := None, seq := 0\<rparr>) else snd acc)"
  by (simp add: visit_def)

lemma foldl_visit_fst: "fst (foldl visit acc cs) = fst acc @ map data_copy (filter has_data cs)"
  by (induction cs arbitrary: acc) (auto simp: visit_fst)

lemma foldl_visit_no_error: "\<forall>ch \<in> set cs. \<not> is_error ch \<Longrightarrow> snd (foldl visit acc cs) = snd acc"
  by (induction cs arbitrary: acc) (auto simp: visit_snd)

lemma stored_simps [simp]:
  "has_data (stored n ch) = has_data ch" "is_error (stored n ch) = is_error ch"
  "data_copy (stored n ch) = data_copy ch" "seq (stored n ch) = n"
  by (simp_all add: has_data_def is_error_def data_copy_def stored_def)

text \<open>
  A reader that stands \<open>k\<close> slots behind the writer gets the last \<open>k\<close> slots written, in order, and
  ends at the writer's slot; so does one that enters there, unless its slot is stale.
\<close>

lemma ReadFrom_behind:
  assumes "ring_ok c" "0 < k" "k < length (slots c)" "LastError c = Some None"
  shows "ReadFrom (behind k c) c =
    (let r = foldl visit ([], None) (last_n k (ring_view c)) in Ok (ReadRes (fst r) (snd r) (wpos c)))"
proof -
  let ?n = "length (slots c)"
  have w: "wpos c < ?n" "slots c \<noteq> []" using assms(1) by (auto simp: ring_ok_def)
  have nw: "behind k c \<noteq> wpos c"
    using mod_back_inj [OF w(1) assms(3), of 0] assms(2) w by (simp add: behind_def)
  have loop: "read_loop ?n (slots c) (wpos c) (behind k c) (behind k c) ([], None) =
      Some (foldl visit ([], None) (last_n k (ring_view c)), wpos c)"
    using read_loop_segment [OF w(1) assms(3), of k ?n] assms(3)
    by (simp add: behind_def ring_view_def)
  show ?thesis
    using nw loop assms(4)
    by (cases "foldl visit ([], None) (last_n k (ring_view c))")
      (simp add: ReadFrom_def must_wait_def Let_def split: option.splits)
qed

lemma ReadChunks_not_stale:
  assumes "slots c \<noteq> []" "int64 (writeSeq c - SharedBufferSize (config c)) \<le> seq (slots c ! p)"
  shows "ReadChunks (Some p) c = ReadFrom p c"
  using assms by (simp add: ReadChunks_def start_position_def)

lemma ReadChunks_at_writer:
  assumes "ring_ok c" "LastError c = Some None"
  shows "ReadChunks (Some (wpos c)) c =
    Ok (if cstate c = StateActive then Waiting (wpos c) else ReadRes [] None (wpos c))"
proof -
  have "start_position (Some (wpos c)) c = wpos c" by (simp add: start_position_def)
  then show ?thesis
    using assms by (simp add: ReadChunks_def ReadFrom_def must_wait_def ring_ok_def read_loop.simps Let_def)
qed

section \<open>Batches of writes\<close>

definition writes :: "ChunkData list \<Rightarrow> Coord \<Rightarrow> Coord" where
  "writes ws c = foldl (\<lambda>c ch. after_write ch c) c ws"

lemma writes_Nil [simp]: "writes [] c = c"
  by (simp add: writes_def)

lemma writes_Cons [simp]: "writes (ch # ws) c = writes ws (after_write ch c)"
  by (simp add: writes_def)

lemma writes_append: "writes (us @ ws) c = writes ws (writes us c)"
  by (simp add: writes_def)

fun numbered :: "int \<Rightarrow> ChunkData list \<Rightarrow> ChunkData list" where
  "numbered n [] = []"
| "numbered n (ch # ws) = stored (n + 1) ch # numbered (n + 1) ws"

lemma length_numbered [simp]: "length (numbered n ws) = length ws"
  by (induction ws arbitrary: n) auto

lemma nth_numbered: "i < length ws \<Longrightarrow> numbered n ws ! i = stored (n + int i + 1) (ws ! i)"
  by (induction ws arbitrary: n i) (auto simp: nth_Cons split: nat.splits)

lemma drop_numbered: "drop j (numbered n ws) = numbered (n + int j) (drop j ws)"
  by (induction ws arbitrary: n j) (auto simp: drop_Cons add_ac split: nat.splits)

lemma numbered_data: "map data_copy (filter has_data (numbered n ws)) = map data_copy (filter has_data ws)"
  by (induction ws arbitrary: n) auto

lemma numbered_no_error:
  "(\<forall>ch \<in> set (numbered n ws). \<not> is_error ch) \<longleftrightarrow> (\<forall>ch \<in> set ws. \<not> is_error ch)"
  by (induction ws arbitrary: n) auto

text \<open>
  An active coordinator that can take \<open>m\<close> more writes: the sequence numbers stay in \<open>int64\<close>.
\<close>

definition live :: "nat \<Rightarrow> Coord \<Rightarrow> bool" where
  "live m c \<longleftrightarrow> ring_ok c \<and> cstate c = StateActive \<and> LastError c = Some None
     \<and> 0 \<le> writeSeq c \<and> writeSeq c + int m < 9223372036854775808"

lemma live_mono: "live m c \<Longrightarrow> m' \<le> m \<Longrightarrow> live m' c"
  by (auto simp: live_def)

lemma live_after_write:
  assumes "live (Suc m) c" "\<not> is_error ch"
  shows "live m (after_write ch c)" "writeSeq (after_write ch c) = writeSeq c + 1"
  using assms after_write_fields [of c ch] by (auto simp: live_def)

lemma last_n_slide:
  assumes "length v = n" "0 < n"
  shows "last_n n ((tl v @ [x]) @ rest) = last_n n (v @ x # rest)"
proof (cases v)
  case (Cons h t)
  with assms have "n = Suc (length t)" by simp
  with Cons show ?thesis by (simp add: last_n_def)
qed (use assms in simp)

lemma writes_live:
  "live (length ws + m) c \<Longrightarrow> \<forall>ch \<in> set ws. \<not> is_error ch \<Longrightarrow>
    live m (writes ws c) \<and> writeSeq (writes ws c) = writeSeq c + int (length ws)
    \<and> length (slots (writes ws c)) = length (slots c) \<and> config (writes ws c) = config c
    \<and> wpos (writes ws c) = (wpos c + length ws) mod length (slots c)
    \<and> ring_view (writes ws c) = last_n (length (slots c)) (ring_view c @ numbered (writeSeq c) ws)"
proof (induction ws arbitrary: c)
  case Nil
  then show ?case by (auto simp: live_def ring_ok_def last_n_all)
next
  case (Cons ch ws)
  let ?c = "after_write ch c" let ?n = "length (slots c)"
  have r: "ring_ok c" "cstate c = StateActive" and ch: "\<not> is_error ch" and n: "0 < ?n"
    using Cons.prems by (auto simp: live_def ring_ok_def)
  have l: "live (Suc (length ws + m)) c" using Cons.prems(1) by simp
  note st = live_after_write [OF l ch]
  note f = after_write_fields [OF r, of ch]
  have i64: "int64 (writeSeq c + 1) = writeSeq c + 1"
    using l by (intro int64_id) (auto simp: live_def)
  have "ring_view ?c @ numbered (writeSeq ?c) ws =
      (tl (ring_view c) @ [stored (writeSeq c + 1) ch]) @ numbered (writeSeq c + 1) ws"
    using ring_view_after_write [OF r, of ch] st(2) i64 by simp
  then have "last_n ?n (ring_view ?c @ numbered (writeSeq ?c) ws) =
      last_n ?n (ring_view c @ numbered (writeSeq c) (ch # ws))"
    using last_n_slide [of "ring_view c" ?n] n by simp
  then show ?case
    using Cons.IH [OF st(1)] Cons.prems(2) st(2) f by (simp add: mod_simps add.assoc)
qed

lemma visit_stored [simp]: "visit acc (stored n ch) = visit acc ch"
  by (auto simp: visit_def stored_def is_error_def split: option.splits list.splits)

lemma foldl_visit_numbered: "foldl visit acc (numbered n ws) = foldl visit acc ws"
  by (induction ws arbitrary: n acc) auto

text \<open>
  Reading \<open>m\<close> slots behind the writer, when the last \<open>m\<close> slots hold the chunks \<open>us\<close> under
  consecutive sequence numbers: the slot of the pointer is not stale, and all of \<open>us\<close> is visited.
\<close>

lemma read_window_from:
  assumes "ring_ok c" "LastError c = Some None" "0 < length us" "length us < length (slots c)"
    and "last_n (length us) (ring_view c) = numbered s us"
  shows "ReadFrom (behind (length us) c) c =
    (let r = foldl visit ([], None) us in Ok (ReadRes (fst r) (snd r) (wpos c)))"
  using ReadFrom_behind [OF assms(1,3,4,2)] by (simp add: assms(5) foldl_visit_numbered)

lemma read_window:
  assumes "ring_ok c" "LastError c = Some None" "0 < length us" "length us < length (slots c)"
    and "last_n (length us) (ring_view c) = numbered s us"
    and "writeSeq c = s + int (length us)" "- 1 \<le> s" "writeSeq c < 9223372036854775808"
  shows "ReadChunks (Some (behind (length us) c)) c = ReadFrom (behind (length us) c) c"
proof -
  let ?n = "length (slots c)" let ?m = "length us"
  have w: "wpos c < ?n" and size: "SharedBufferSize (config c) = int ?n"
    using assms(1,4) by (auto simp: ring_ok_def)
  have "?n - ?m < ?n" "wpos c + (?n - ?m) = wpos c + ?n - ?m" using assms(3,4) by linarith+
  then have "slots c ! behind ?m c = ring_view c ! (?n - ?m)"
    by (simp add: ring_view_def nth_rotate behind_def)
  also have "\<dots> = last_n ?m (ring_view c) ! 0"
    using assms(4) by (simp add: last_n_def)
  also have "\<dots> = numbered s us ! 0" unfolding assms(5) ..
  finally have sq: "seq (slots c ! behind ?m c) = s + 1"
    using assms(3) nth_numbered [of 0 us s] by simp
  have n: "int ?n < 9223372036854775808" using assms(1) size by (simp add: ring_ok_def)
  have "int64 (writeSeq c - int ?n) = writeSeq c - int ?n"
    using assms(6,7,8) n by (intro int64_id) linarith+
  then show ?thesis
    using assms(1,4,6) by (intro ReadChunks_not_stale) (simp_all add: size sq ring_ok_def)
qed

text \<open>
  The reader that stood at the writer's slot before a batch of writes and reads after it: with
  \<open>m\<close> chunks written to a ring of \<open>n\<close> slots it gets the last \<open>m mod n\<close> of them.
\<close>

lemma behind_after_writes:
  assumes "w < (n :: nat)" "wpos c = (w + m) mod n" "length (slots c) = n"
  shows "behind (m mod n) c = w"
proof -
  let ?k = "m mod n"
  have n: "0 < n" "?k < n" "?k \<le> m" using assms(1) by simp_all
  have "behind ?k c = ((w + m) mod n + (n - ?k)) mod n"
    using n assms(2,3) by (simp add: behind_def)
  also have "\<dots> = (w + m + (n - ?k)) mod n" by (simp only: mod_add_left_eq)
  also have "w + m + (n - ?k) = w + (m - ?k) + n" using n by linarith
  also have "(w + (m - ?k) + n) mod n = (w + (m - ?k)) mod n" by simp
  also have "m - ?k = n * (m div n)" by (simp add: minus_mod_eq_mult_div)
  finally show ?thesis using assms(1) by simp
qed

lemma last_n_last_n: "k \<le> n \<Longrightarrow> last_n k (last_n n xs) = last_n k xs"
proof -
  assume "k \<le> n"
  then have "length xs - (length xs - n + k) + (length xs - n) = length xs - k" by arith
  then show ?thesis by (simp add: last_n_def)
qed

lemma last_n_append: "k \<le> length ys \<Longrightarrow> last_n k (xs @ ys) = last_n k ys"
  by (simp add: last_n_def)

lemma last_n_numbered: "last_n k (numbered s ws) = numbered (s + int (length ws - k)) (last_n k ws)"
  by (simp add: last_n_def drop_numbered)

lemma read_after_writes:
  assumes "live (length ws) c" "\<forall>ch \<in> set ws. \<not> is_error ch"
    and "k = length ws mod length (slots c)"
  shows "ReadChunks (Some (wpos c)) (writes ws c) =
    Ok (if k = 0 then Waiting (wpos c)
        else ReadRes (map data_copy (filter has_data (last_n k ws))) None (wpos (writes ws c)))"
proof -
  let ?n = "length (slots c)" let ?c = "writes ws c" let ?m = "length ws"
  have live: "live 0 ?c" and sq: "writeSeq ?c = writeSeq c + int ?m"
    and len: "length (slots ?c) = ?n" and wp: "wpos ?c = (wpos c + ?m) mod ?n"
    and view: "ring_view ?c = last_n ?n (ring_view c @ numbered (writeSeq c) ws)"
    using writes_live [of ws 0 c] assms(1,2) by auto
  have ok: "ring_ok ?c" "LastError ?c = Some None" "cstate ?c = StateActive"
    using live by (auto simp: live_def)
  have w: "wpos c < ?n" using assms(1) by (auto simp: live_def ring_ok_def)
  then have "0 < ?n" by linarith
  from mod_less_divisor [OF this, of ?m] have km: "k \<le> ?m" "k < ?n"
    unfolding assms(3) by simp_all
  have bk: "behind k ?c = wpos c" unfolding assms(3) by (rule behind_after_writes [OF w wp len])
  show ?thesis
  proof (cases "k = 0")
    case True
    then have "wpos ?c = wpos c" using bk w len ok(1) by (simp add: behind_def ring_ok_def)
    with True ReadChunks_at_writer [OF ok(1,2)] ok(3) show ?thesis by simp
  next
    case False
    let ?us = "last_n k ws"
    have us: "length ?us = k" "\<forall>ch \<in> set ?us. \<not> is_error ch"
      using km assms(2) by (auto simp: last_n_def dest: in_set_dropD)
    have "last_n k (ring_view ?c) = numbered (writeSeq c + int (?m - k)) ?us"
      using km by (simp add: view last_n_last_n last_n_append last_n_numbered)
    then have "ReadChunks (Some (behind k ?c)) ?c =
        (let r = foldl visit ([], None) ?us in Ok (ReadRes (fst r) (snd r) (wpos ?c)))"
      using read_window [OF ok(1,2), of ?us "writeSeq c + int (?m - k)"]
        read_window_from [OF ok(1,2), of ?us "writeSeq c + int (?m - k)"] us False km len sq live assms(1)
      by (simp add: live_def)
    then show ?thesis
      using bk False foldl_visit_fst [of "([], None)" ?us] foldl_visit_no_error [OF us(2), of "([], None)"]
      by (simp add: Let_def)
  qed
qed

end
