(* ===== verification/SharedLog.thy ===== *)
theory SharedLog
  imports Coordinator
begin

text \<open>
  The contract of the shared buffer: seen by a reader that keeps up it is a log, and what a
  reader that does not keep up loses.
\<close>

section \<open>The buffer as a log\<close>

text \<open>
  A reader's loop over any log: after each batch of writes it reads once and goes on from the
  position it got.
\<close>

fun follow :: "('p \<Rightarrow> 's \<Rightarrow> ('d list \<times> 'p) option) \<Rightarrow> ('c \<Rightarrow> 's \<Rightarrow> 's) \<Rightarrow> 'p \<Rightarrow> 's \<Rightarrow> 'c list list \<Rightarrow> 'd list" where
  "follow rd wr p s [] = []"
| "follow rd wr p s (b # bs) =
     (let s' = foldl (\<lambda>s ch. wr ch s) s b in
      case rd p s' of
        None \<Rightarrow> follow rd wr p s' bs
      | Some (ds, p') \<Rightarrow> ds @ follow rd wr p' s' bs)"

text \<open>
  What the stream handlers rely on: a reader that starts at \<open>here\<close> and reads again before the
  writer has gone once around gets everything that was written, once and in order.  The
  contract names the writer's operation, the read, the room for more writes, the length of a
  lap, and what of the written chunks is delivered.
\<close>

locale chunk_log =
  fixes wr :: "'c \<Rightarrow> 's \<Rightarrow> 's"
    and rd :: "'p \<Rightarrow> 's \<Rightarrow> ('d list \<times> 'p) option"
    and here :: "'s \<Rightarrow> 'p"
    and room :: "nat \<Rightarrow> 's \<Rightarrow> bool"
    and good :: "'c \<Rightarrow> bool"
    and lap :: "'s \<Rightarrow> nat"
    and deliver :: "'c list \<Rightarrow> 'd list"
  assumes deliver_Nil: "deliver [] = []"
    and deliver_append: "deliver (us @ ws) = deliver us @ deliver ws"
    and room_mono: "room m s \<Longrightarrow> m' \<le> m \<Longrightarrow> room m' s"
    and room_wr: "room (Suc m) s \<Longrightarrow> good ch \<Longrightarrow> room m (wr ch s)"
    and lap_wr: "room (Suc m) s \<Longrightarrow> good ch \<Longrightarrow> lap (wr ch s) = lap s"
    and rd_batch: "room (length ws) s \<Longrightarrow> \<forall>ch \<in> set ws. good ch \<Longrightarrow> length ws < lap s \<Longrightarrow> ws \<noteq> [] \<Longrightarrow>
      rd (here s) (foldl (\<lambda>s ch. wr ch s) s ws) = Some (deliver ws, here (foldl (\<lambda>s ch. wr ch s) s ws))"
    and rd_wait: "room 0 s \<Longrightarrow> rd (here s) s = None"
begin

lemma batch:
  "room (length ws + m) s \<Longrightarrow> \<forall>ch \<in> set ws. good ch \<Longrightarrow>
    room m (foldl (\<lambda>s ch. wr ch s) s ws) \<and> lap (foldl (\<lambda>s ch. wr ch s) s ws) = lap s"
proof (induction ws arbitrary: s)
  case (Cons ch ws)
  then have "room (Suc (length ws + m)) s" by simp
  then show ?case
    using Cons.IH [of "wr ch s"] Cons.prems(2) room_wr [of "length ws + m" s ch] lap_wr [of "length ws + m" s ch]
    by simp
qed simp

lemma follow_complete:
  "room (length (concat bs)) s \<Longrightarrow> \<forall>b \<in> set bs. length b < lap s \<and> (\<forall>ch \<in> set b. good ch) \<Longrightarrow>
    follow rd wr (here s) s bs = deliver (concat bs)"
proof (induction bs arbitrary: s)
  case (Cons b bs)
  let ?s = "foldl (\<lambda>s ch. wr ch s) s b"
  have r: "room (length b + length (concat bs)) s" and g: "\<forall>ch \<in> set b. good ch"
    and l: "length b < lap s"
    using Cons.prems by simp_all
  note b = batch [OF r g]
  have IH: "follow rd wr (here ?s) ?s bs = deliver (concat bs)"
    using Cons.IH [of ?s] b Cons.prems(2) by simp
  show ?case
  proof (cases "b = []")
    case True
    then show ?thesis
      using IH rd_wait [of s] room_mono [OF r, of 0] by simp
  next
    case False
    then show ?thesis
      using IH rd_batch [OF room_mono [OF r] g l] by (simp add: deliver_append Let_def)
  qed
qed (simp add: deliver_Nil)

end

definition read_step :: "nat \<Rightarrow> Coord \<Rightarrow> (ChunkData list \<times> nat) option" where
  "read_step p c = (case ReadChunks (Some p) c of Ok (ReadRes cs None q) \<Rightarrow> Some (cs, q) | _ \<Rightarrow> None)"

definition delivered :: "ChunkData list \<Rightarrow> ChunkData list" where
  "delivered ws = map data_copy (filter has_data ws)"

interpretation shared: chunk_log after_write read_step wpos live "\<lambda>ch. \<not> is_error ch"
  "\<lambda>c. length (slots c)" delivered
proof
  show "delivered [] = []" "delivered (us @ ws) = delivered us @ delivered ws" for us ws
    by (simp_all add: delivered_def)
  show "live m' c" if "live m c" "m' \<le> m" for m m' c
    using that by (rule live_mono)
  show "live m (after_write ch c)" if "live (Suc m) c" "\<not> is_error ch" for m c ch
    using live_after_write [OF that] by blast
  show "length (slots (after_write ch c)) = length (slots c)" if "live (Suc m) c" "\<not> is_error ch" for m c ch
    using that by (simp add: after_write_fields live_def)
  show "read_step (wpos c) c = None" if "live 0 c" for c
    using that ReadChunks_at_writer [of c] by (simp add: read_step_def live_def)
  fix ws c
  assume l: "live (length ws) c" and g: "\<forall>ch \<in> set ws. \<not> is_error ch"
    and s: "length ws < length (slots c)" and ne: "ws \<noteq> []"
  have fold: "foldl (\<lambda>s ch. after_write ch s) c ws = writes ws c" by (simp add: writes_def)
  show "read_step (wpos c) (foldl (\<lambda>s ch. after_write ch s) c ws) =
      Some (delivered ws, wpos (foldl (\<lambda>s ch. after_write ch s) c ws))"
    unfolding fold using read_after_writes [OF l g refl] s ne
    by (simp add: read_step_def delivered_def last_n_all)
qed

lemma live_New:
  assumes "0 < SharedBufferSize cfg" "SharedBufferSize cfg < 9223372036854775808"
    "int m < 9223372036854775808"
  shows "live m (NewStreamCoordinator sid cfg)"
  using assms by (auto simp: live_def ring_ok_def NewStreamCoordinator_def)

text \<open>C9. Refinement to a log: a reader that starts at the writer's slot and reads after every batch
  of fewer chunks than the ring has slots is given the data of all chunks ever written, each
  once and in the order of the writes, however many times the ring wraps.\<close>

theorem reader_follows_writer:
  assumes "live (length (concat batches)) c"
    and "\<forall>b \<in> set batches. length b < length (slots c) \<and> (\<forall>ch \<in> set b. \<not> is_error ch)"
  shows "follow read_step after_write (wpos c) c batches = delivered (concat batches)"
  using assms by (rule shared.follow_complete)

definition sample_chunk :: "string \<Rightarrow> ChunkData" where
  "sample_chunk s = newChunkData\<lparr>Buffer := Some s\<rparr>"

definition sample_config :: StreamConfig where
  "sample_config = \<lparr>SharedBufferSize = 3, ChunkSize = 16, TimeoutSeconds = 3,
     InitialBackoff = 200000000, StreamMaxRetries = 5\<rparr>"

lemma live_sample: "int m < 9223372036854775808 \<Longrightarrow> live m (NewStreamCoordinator ''id'' sample_config)"
  by (rule live_New) (simp_all add: sample_config_def)

theorem reader_follows_writer_witness:
  "let c = NewStreamCoordinator ''id'' sample_config;
       bs = [[sample_chunk ''a'', sample_chunk ''b''], [sample_chunk ''c''], [sample_chunk ''d'', sample_chunk ''e'']]
   in follow read_step after_write (wpos c) c bs = delivered (concat bs)"
proof -
  let ?c = "NewStreamCoordinator ''id'' sample_config"
  let ?bs = "[[sample_chunk ''a'', sample_chunk ''b''], [sample_chunk ''c''], [sample_chunk ''d'', sample_chunk ''e'']]"
  have "live (length (concat ?bs)) ?c" by (rule live_sample) simp
  moreover have "\<forall>b \<in> set ?bs. length b < length (slots ?c) \<and> (\<forall>ch \<in> set b. \<not> is_error ch)"
    by (simp add: sample_chunk_def is_error_def newChunkData_def NewStreamCoordinator_def sample_config_def)
  ultimately show ?thesis unfolding Let_def by (rule reader_follows_writer)
qed

text \<open>C35. Losing a lap: when the writer has put \<open>m\<close> chunks into a ring of \<open>n\<close> slots since a reader
  last read, the reader gets only the last \<open>m mod n\<close> of them, although the ring still holds the
  last \<open>n\<close>; after exactly one lap it is told to wait as if nothing had been written.\<close>

theorem reader_behind_a_lap_loses:
  assumes "live (length ws) c" "\<forall>ch \<in> set ws. \<not> is_error ch"
  shows "ReadChunks (Some (wpos c)) (writes ws c) =
      Ok (if length ws mod length (slots c) = 0 then Waiting (wpos c)
          else ReadRes (delivered (last_n (length ws mod length (slots c)) ws)) None (wpos (writes ws c)))
    \<and> ring_view (writes ws c) = last_n (length (slots c)) (ring_view c @ numbered (writeSeq c) ws)"
proof
  show "ReadChunks (Some (wpos c)) (writes ws c) =
      Ok (if length ws mod length (slots c) = 0 then Waiting (wpos c)
          else ReadRes (delivered (last_n (length ws mod length (slots c)) ws)) None (wpos (writes ws c)))"
    using read_after_writes [OF assms refl] by (simp add: delivered_def)
  show "ring_view (writes ws c) = last_n (length (slots c)) (ring_view c @ numbered (writeSeq c) ws)"
    using writes_live [of ws 0 c] assms by simp
qed

theorem reader_behind_a_lap_loses_witness:
  "let c = NewStreamCoordinator ''id'' sample_config;
       ws = [sample_chunk ''a'', sample_chunk ''b'', sample_chunk ''c'']
   in ReadChunks (Some (wpos c)) (writes ws c) = Ok (Waiting (wpos c))
     \<and> ring_view (writes ws c) = numbered 0 ws"
proof -
  let ?c = "NewStreamCoordinator ''id'' sample_config"
  let ?ws = "[sample_chunk ''a'', sample_chunk ''b'', sample_chunk ''c'']"
  have "live (length ?ws) ?c" by (rule live_sample) simp
  moreover have "\<forall>ch \<in> set ?ws. \<not> is_error ch"
    by (simp add: sample_chunk_def is_error_def newChunkData_def)
  ultimately show ?thesis
    using reader_behind_a_lap_loses [of ?ws ?c]
    by (simp add: NewStreamCoordinator_def sample_config_def last_n_def ring_view_def)
qed

end
