(* ===== verification/CoordinatorLife.thy ===== *)
theory CoordinatorLife
  imports SharedLog
begin

text \<open>
  The life of a coordinator: every interleaving of the calls its writer, its clients and the
  stream handlers make, as a run over a list of actions; the invariants of such runs, the
  states active, draining and closed, and how an error gets (or does not get) to a reader.
\<close>

datatype coord_act =
    ARegister
  | AUnregister
  | AWrite ChunkData
  | AWriteError "go_error option" int int
  | AClear
  | ASetURL string
  | AForgetError

text \<open>
  \<open>AForgetError\<close> is the \<open>LastError.Store((*ChunkData)(nil))\<close> of the stream handler.  A panicking
  call (only on the nil ring) leaves the coordinator as it was.
\<close>

fun coord_step :: "Coord \<Rightarrow> coord_act \<Rightarrow> Coord" where
  "coord_step c ARegister = RegisterClient c"
| "coord_step c AUnregister = UnregisterClient c"
| "coord_step c (AWrite ch) = after_write ch c"
| "coord_step c (AWriteError e st t) = (case writeError e st t c of Ok c' \<Rightarrow> c' | Panic _ \<Rightarrow> c)"
| "coord_step c AClear = ClearBuffer c"
| "coord_step c (ASetURL u) = SetActualURL u c"
| "coord_step c AForgetError = c\<lparr>LastError := Some None\<rparr>"

definition coord_ok :: "Coord \<Rightarrow> bool" where
  "coord_ok c \<longleftrightarrow> ring_ok c \<and> LastError c = Some None"

section \<open>Frame lemmas\<close>

definition error_chunk :: "go_error option \<Rightarrow> int \<Rightarrow> int \<Rightarrow> ChunkData" where
  "error_chunk e st t = newChunkData\<lparr>Error := e, Status := st, Timestamp := t\<rparr>"

lemma is_error_error_chunk [simp]: "is_error (error_chunk e st t) \<longleftrightarrow> e \<noteq> None \<or> st \<noteq> 0"
  by (simp add: is_error_def error_chunk_def newChunkData_def)

lemma writeError_eq:
  "ring_ok c \<Longrightarrow> writeError e st t c = Ok ((after_write (error_chunk e st t) c)\<lparr>cstate := StateClosed\<rparr>)"
  by (cases "cstate c = StateActive")
    (simp_all add: writeError_def Write_active Write_inactive after_write_inactive
      flip: error_chunk_def)

lemma Register_frame [frame_simps]:
  "slots (RegisterClient c) = slots c" "wpos (RegisterClient c) = wpos c"
  "writeSeq (RegisterClient c) = writeSeq c" "LastError (RegisterClient c) = LastError c"
  "config (RegisterClient c) = config c"
  "cstate (RegisterClient c) = (if ClientCount c = 0 then StateActive else cstate c)"
  "ClientCount (RegisterClient c) = int32 (ClientCount c + 1)"
  by (simp_all add: RegisterClient_def)

lemma Clear_frame [frame_simps]:
  "wpos (ClearBuffer c) = wpos c" "writeSeq (ClearBuffer c) = writeSeq c"
  "LastError (ClearBuffer c) = LastError c" "config (ClearBuffer c) = config c"
  "cstate (ClearBuffer c) = cstate c" "ClientCount (ClearBuffer c) = ClientCount c"
  by (simp_all add: ClearBuffer_def)

lemma Unregister_frame [frame_simps]:
  "wpos (UnregisterClient c) = wpos c" "writeSeq (UnregisterClient c) = writeSeq c"
  "LastError (UnregisterClient c) = LastError c" "config (UnregisterClient c) = config c"
  "ClientCount (UnregisterClient c) = int32 (ClientCount c - 1)"
  "cstate (UnregisterClient c) = (if int32 (ClientCount c - 1) = 0 then StateDraining else cstate c)"
  "slots (UnregisterClient c) = (if int32 (ClientCount c - 1) = 0 then slots (ClearBuffer c) else slots c)"
  by (simp_all add: UnregisterClient_def Let_def notifySubscribers_def ClearBuffer_def)

lemma SetURL_frame [frame_simps]:
  "slots (SetActualURL u c) = slots c" "wpos (SetActualURL u c) = wpos c"
  "writeSeq (SetActualURL u c) = writeSeq c" "LastError (SetActualURL u c) = LastError c"
  "config (SetActualURL u c) = config c" "cstate (SetActualURL u c) = cstate c"
  "ClientCount (SetActualURL u c) = ClientCount c"
  by (simp_all add: SetActualURL_def)

lemma ring_ok_cong:
  "length (slots c') = length (slots c) \<Longrightarrow> config c' = config c \<Longrightarrow> wpos c' = wpos c \<Longrightarrow> ring_ok c' = ring_ok c"
  by (auto simp: ring_ok_def)

lemma ring_ok_fields [simp]:
  "ring_ok (c\<lparr>cstate := st\<rparr>) = ring_ok c" "ring_ok (c\<lparr>LastError := e\<rparr>) = ring_ok c"
  "ring_ok (RegisterClient c) = ring_ok c" "ring_ok (SetActualURL u c) = ring_ok c"
  by (rule ring_ok_cong; simp add: frame_simps)+

lemma ring_ok_Clear [simp]: "ring_ok c \<Longrightarrow> ring_ok (ClearBuffer c)"
  using ring_ok_cong [of "ClearBuffer c" c] by (simp add: ClearBuffer_slots frame_simps)

lemma ring_ok_Unregister [simp]: "ring_ok c \<Longrightarrow> ring_ok (UnregisterClient c)"
  using ring_ok_cong [of "UnregisterClient c" c] by (simp add: ClearBuffer_slots frame_simps)

section \<open>Invariants of every run\<close>

lemma LastError_after_write: "LastError c = Some None \<Longrightarrow> LastError (after_write ch c) = Some None"
  by (auto simp: after_write_def Write_def Let_def notifySubscribers_def split: outcome.splits)

interpretation lifecycle: event_machine coord_step coord_ok
proof
  fix c a
  assume "coord_ok c"
  then have ok: "ring_ok c" "LastError c = Some None" by (simp_all add: coord_ok_def)
  show "coord_ok (coord_step c a)"
    using ok by (cases a) (simp_all add: coord_ok_def writeError_eq LastError_after_write frame_simps)
qed

lemma coord_ok_New:
  "0 < SharedBufferSize cfg \<Longrightarrow> SharedBufferSize cfg < 9223372036854775808 \<Longrightarrow>
    coord_ok (NewStreamCoordinator sid cfg)"
  by (auto simp: coord_ok_def ring_ok_def NewStreamCoordinator_def)

text \<open>C37. Whatever its writer and its clients do, a coordinator keeps the ring it was created with
  (as many slots as configured, the writer's position inside), and its \<open>LastError\<close> is the typed
  nil pointer forever: the test \<open>LastError.Load() == nil\<close> in \<open>Write\<close> is false for a typed nil, so
  no error is ever recorded there and the fallback of \<open>ReadChunks\<close> on \<open>LastError\<close> never applies.\<close>

theorem last_error_never_recorded:
  assumes "0 < SharedBufferSize cfg" "SharedBufferSize cfg < 9223372036854775808"
  shows "let c = foldl coord_step (NewStreamCoordinator sid cfg) acts in
    LastError c = Some None \<and> length (slots c) = nat (SharedBufferSize (config c)) \<and> wpos c < length (slots c)"
  using lifecycle.inv_run [OF coord_ok_New [OF assms], of sid acts]
  unfolding coord_ok_def ring_ok_def Let_def by blast

theorem last_error_never_recorded_witness:
  "let c = foldl coord_step (NewStreamCoordinator ''id'' sample_config)
      [ARegister, AWrite (sample_chunk ''a''), AWriteError (Some EOF) 2 0, AUnregister] in
   LastError c = Some None \<and> length (slots c) = nat (SharedBufferSize (config c)) \<and> wpos c < length (slots c)"
  by (rule last_error_never_recorded) (simp_all add: sample_config_def)

section \<open>States\<close>

text \<open>
  Where a run could reactivate the stream: a client registers while no other is registered.
\<close>

fun no_restart :: "Coord \<Rightarrow> coord_act list \<Rightarrow> bool" where
  "no_restart c [] = True"
| "no_restart c (a # as) = ((a = ARegister \<longrightarrow> ClientCount c \<noteq> 0) \<and> no_restart (coord_step c a) as)"

lemma inactive_step:
  assumes "ring_ok c" "cstate c \<noteq> StateActive" "a = ARegister \<longrightarrow> ClientCount c \<noteq> 0"
  shows "cstate (coord_step c a) \<noteq> StateActive \<and> writeSeq (coord_step c a) = writeSeq c
    \<and> wpos (coord_step c a) = wpos c"
  using assms by (cases a) (auto simp: frame_simps after_write_inactive writeError_eq)

lemma inactive_run:
  "coord_ok c \<Longrightarrow> cstate c \<noteq> StateActive \<Longrightarrow> no_restart c as \<Longrightarrow>
    cstate (foldl coord_step c as) \<noteq> StateActive \<and> writeSeq (foldl coord_step c as) = writeSeq c
    \<and> wpos (foldl coord_step c as) = wpos c"
proof (induction as arbitrary: c)
  case (Cons a as)
  have "coord_ok (coord_step c a)" using Cons.prems(1) by (rule lifecycle.inv_step)
  then show ?case
    using Cons.IH [of "coord_step c a"] Cons.prems inactive_step [of c a] by (simp add: coord_ok_def)
qed simp

text \<open>A stream that has started to drain or is closed stays so, and takes no more chunks, in
  every run in which no client registers while the client count is 0; and a client that
  registers at count 0 reactivates it.\<close>

theorem stream_restarts_only_by_first_client:
  assumes "coord_ok c" "cstate c \<noteq> StateActive"
  shows "(no_restart c as \<longrightarrow> cstate (foldl coord_step c as) \<noteq> StateActive
      \<and> writeSeq (foldl coord_step c as) = writeSeq c)
    \<and> (ClientCount c = 0 \<longrightarrow> cstate (RegisterClient c) = StateActive)"
  using inactive_run [OF assms] by (simp add: frame_simps)

theorem stream_restarts_only_by_first_client_witness:
  "let c = (NewStreamCoordinator ''id'' sample_config)\<lparr>cstate := StateClosed\<rparr> in
   (no_restart c [AWrite (sample_chunk ''a''), AUnregister] \<longrightarrow>
      cstate (foldl coord_step c [AWrite (sample_chunk ''a''), AUnregister]) \<noteq> StateActive
      \<and> writeSeq (foldl coord_step c [AWrite (sample_chunk ''a''), AUnregister]) = writeSeq c)
    \<and> (ClientCount c = 0 \<longrightarrow> cstate (RegisterClient c) = StateActive)"
  unfolding Let_def
  by (rule stream_restarts_only_by_first_client)
    (auto simp: coord_ok_def ring_ok_def NewStreamCoordinator_def sample_config_def)

section \<open>The life cycle as an automaton\<close>

text \<open>
  What an observer sees of a coordinator: the number of clients and the state.  The automaton
  below moves on the same actions and knows nothing of chunks but whether they carry an error.
\<close>

definition life :: "Coord \<Rightarrow> int \<times> coord_state" where
  "life c = (ClientCount c, cstate c)"

fun life_step :: "int \<times> coord_state \<Rightarrow> coord_act \<Rightarrow> int \<times> coord_state" where
  "life_step (n, st) ARegister = (int32 (n + 1), if n = 0 then StateActive else st)"
| "life_step (n, st) AUnregister =
     (int32 (n - 1), if int32 (n - 1) = 0 then StateDraining else st)"
| "life_step (n, st) (AWrite ch) = (n, if st = StateActive \<and> is_error ch then StateDraining else st)"
| "life_step (n, st) (AWriteError e s t) = (n, StateClosed)"
| "life_step (n, st) _ = (n, st)"

lemma ClientCount_after_write: "ClientCount (after_write ch c) = ClientCount c"
  by (auto simp: after_write_def Write_def Let_def notifySubscribers_def split: outcome.splits)

interpretation automaton: event_refinement coord_step coord_ok life_step life
proof
  fix c a
  assume "coord_ok c"
  then have ok: "ring_ok c" by (simp add: coord_ok_def)
  show "life (coord_step c a) = life_step (life c) a"
  proof (cases a)
    case (AWrite ch)
    with ok show ?thesis
      by (cases "cstate c = StateActive")
        (simp_all add: life_def after_write_fields after_write_inactive)
  qed (use ok in \<open>simp_all add: life_def frame_simps writeError_eq ClientCount_after_write\<close>)
qed

text \<open>Refinement: through any interleaving of calls, the client count and the state of a
  coordinator move exactly as the small automaton says; in particular a stream is active after
  its first client registers, is drained when the last one leaves, and is closed by every
  reported error.\<close>

theorem coordinator_refines_life_cycle:
  assumes "0 < SharedBufferSize cfg" "SharedBufferSize cfg < 9223372036854775808"
  shows "life (foldl coord_step (NewStreamCoordinator sid cfg) acts) = foldl life_step (0, StateActive) acts"
  using automaton.abst_run [OF coord_ok_New [OF assms], of sid acts]
  by (simp add: life_def NewStreamCoordinator_def)

theorem coordinator_refines_life_cycle_witness:
  "life (foldl coord_step (NewStreamCoordinator ''id'' sample_config)
      [ARegister, AWrite (sample_chunk ''a''), AUnregister, ARegister])
    = foldl life_step (0, StateActive) [ARegister, AWrite (sample_chunk ''a''), AUnregister, ARegister]"
  by (rule coordinator_refines_life_cycle) (simp_all add: sample_config_def)

section \<open>How an error reaches a reader\<close>

lemma numbered_snoc: "numbered n (ws @ [x]) = numbered n ws @ [stored (n + int (length ws) + 1) x]"
  by (induction ws arbitrary: n) (simp_all add: algebra_simps)

lemma ring_view_cstate [simp]: "ring_view (c\<lparr>cstate := st\<rparr>) = ring_view c"
  by (simp add: ring_view_def)

text \<open>The coordinator after a batch of data chunks and the error that ends the stream.\<close>

definition ended :: "ChunkData list \<Rightarrow> go_error option \<Rightarrow> int \<Rightarrow> int \<Rightarrow> Coord \<Rightarrow> Coord" where
  "ended ws e st t c = coord_step (writes ws c) (AWriteError e st t)"

lemma ended_facts:
  assumes "live (Suc (length ws)) c" "\<forall>ch \<in> set ws. \<not> is_error ch" "e \<noteq> None \<or> st \<noteq> 0"
  defines "n \<equiv> length (slots c)" and "m \<equiv> Suc (length ws)"
  shows "coord_ok (ended ws e st t c)" "cstate (ended ws e st t c) = StateClosed"
    "length (slots (ended ws e st t c)) = n" "writeSeq (ended ws e st t c) = writeSeq c + int m"
    "wpos (ended ws e st t c) = (wpos c + m) mod n"
    "m \<le> n \<Longrightarrow> last_n m (ring_view (ended ws e st t c)) = numbered (writeSeq c) (ws @ [error_chunk e st t])"
proof -
  let ?ech = "error_chunk e st t" let ?c1 = "writes ws c"
  have l1: "live (length ws + 1) c" using assms(1) by simp
  note w = writes_live [OF l1 assms(2)]
  have live1: "live 1 ?c1" using w by blast
  have ok1: "ring_ok ?c1" "cstate ?c1 = StateActive" "LastError ?c1 = Some None"
    using live1 by (auto simp: live_def)
  have c': "ended ws e st t c = (after_write ?ech ?c1)\<lparr>cstate := StateClosed\<rparr>"
    by (simp add: ended_def writeError_eq [OF ok1(1)])
  note f = after_write_fields [OF ok1(1,2), of ?ech]
  have i: "int64 (writeSeq ?c1 + 1) = writeSeq c + int (length ws) + 1"
    using live1 w by (simp add: live_def)
  show "coord_ok (ended ws e st t c)"
    using ok1 by (simp add: c' coord_ok_def LastError_after_write)
  show "cstate (ended ws e st t c) = StateClosed" "length (slots (ended ws e st t c)) = n"
    "writeSeq (ended ws e st t c) = writeSeq c + int m"
    using f w i by (simp_all add: c' n_def m_def)
  show "wpos (ended ws e st t c) = (wpos c + m) mod n"
    using f(2) w by (simp add: c' n_def m_def mod_simps)
  assume mn: "m \<le> n"
  have v: "ring_view (ended ws e st t c) = tl (ring_view ?c1) @ [stored (writeSeq c + int (length ws) + 1) ?ech]"
    using ring_view_after_write [OF ok1(1,2)] i by (simp add: c')
  have "last_n (length ws) (tl (ring_view ?c1)) = last_n (length ws) (ring_view ?c1)"
    using mn w by (cases "ring_view ?c1") (auto simp: last_n_def n_def m_def Suc_diff_le)
  also have "\<dots> = numbered (writeSeq c) ws"
    using mn w by (simp add: last_n_last_n last_n_append n_def m_def) (simp add: last_n_all)
  finally show "last_n m (ring_view (ended ws e st t c)) = numbered (writeSeq c) (ws @ [?ech])"
    unfolding v m_def numbered_snoc by (simp add: last_n_snoc)
qed

lemma ended_ring_view:
  assumes "live (Suc (length ws)) c" "\<forall>ch \<in> set ws. \<not> is_error ch"
  shows "ring_view (ended ws e st t c) =
    last_n (length (slots c)) (ring_view c @ numbered (writeSeq c) (ws @ [error_chunk e st t]))"
proof -
  let ?n = "length (slots c)" let ?c1 = "writes ws c" let ?x = "stored (writeSeq c + int (length ws) + 1) (error_chunk e st t)"
  have l: "live (length ws + 1) c" using assms(1) by simp
  note w = writes_live [OF l assms(2)]
  have ok: "ring_ok ?c1" "cstate ?c1 = StateActive" "0 < ?n" using w assms(1) by (auto simp: live_def ring_ok_def)
  have len: "length (ring_view ?c1) = ?n" using w by simp
  have "int64 (writeSeq ?c1 + 1) = writeSeq c + int (length ws) + 1" using w by (simp add: live_def)
  then have "ring_view (ended ws e st t c) = tl (ring_view ?c1) @ [?x]"
    using ring_view_after_write [OF ok(1,2)] by (simp add: ended_def writeError_eq [OF ok(1)])
  also have "\<dots> = last_n ?n (tl (ring_view ?c1) @ [?x])" using len ok(3) by (simp add: last_n_all)
  also have "\<dots> = last_n ?n (ring_view ?c1 @ [?x])"
    using last_n_slide [OF len ok(3), of ?x "[]"] by simp
  also have "\<dots> = last_n ?n (ring_view c @ numbered (writeSeq c) (ws @ [error_chunk e st t]))"
    using w ok(3) by (simp add: last_n_snoc last_n_last_n numbered_snoc flip: append_assoc)
  finally show ?thesis .
qed

lemma error_reaches_waiting_reader:
  assumes "live (Suc (length ws)) c" "\<forall>ch \<in> set ws. \<not> is_error ch" "e \<noteq> None \<or> st \<noteq> 0"
    and "Suc (length ws) < length (slots c)"
  shows "ReadFrom (wpos c) (ended ws e st t c) =
      Ok (ReadRes (delivered ws) (Some \<lparr>Buffer = None, Error = e, Status = st, Timestamp = t, seq = 0\<rparr>)
        (wpos (ended ws e st t c)))
    \<and> ReadChunks (Some (wpos c)) (ended ws e st t c) = ReadFrom (wpos c) (ended ws e st t c)"
proof
  let ?c' = "ended ws e st t c" let ?us = "ws @ [error_chunk e st t]"
  note f = ended_facts [OF assms(1,2,3), of t]
  have w: "wpos c < length (slots c)" using assms(1) by (auto simp: live_def ring_ok_def)
  have bk: "behind (length ?us) ?c' = wpos c"
    using behind_after_writes [OF w f(5) f(3)] assms(4) by simp
  have ok: "ring_ok ?c'" "LastError ?c' = Some None" using f(1) by (simp_all add: coord_ok_def)
  have len: "0 < length ?us" "length ?us < length (slots ?c')" using f(3) assms(4) by simp_all
  have win: "last_n (length ?us) (ring_view ?c') = numbered (writeSeq c) ?us"
    using f(6) assms(4) by simp
  have "ReadFrom (behind (length ?us) ?c') ?c' =
      (let r = foldl visit ([], None) ?us in Ok (ReadRes (fst r) (snd r) (wpos ?c')))"
    by (rule read_window_from [OF ok len win])
  moreover have "fst (foldl visit ([], None) ?us) = delivered ws"
    using foldl_visit_fst [of "([], None)" ?us]
    by (simp add: delivered_def has_data_def error_chunk_def newChunkData_def)
  moreover have "snd (foldl visit ([], None) ?us) =
      Some \<lparr>Buffer = None, Error = e, Status = st, Timestamp = t, seq = 0\<rparr>"
    using assms(3) by (simp add: visit_snd) (simp add: error_chunk_def newChunkData_def)
  ultimately show "ReadFrom (wpos c) ?c' =
      Ok (ReadRes (delivered ws) (Some \<lparr>Buffer = None, Error = e, Status = st, Timestamp = t, seq = 0\<rparr>) (wpos ?c'))"
    unfolding bk by (simp add: Let_def)
  have "ReadChunks (Some (behind (length ?us) ?c')) ?c' = ReadFrom (behind (length ?us) ?c') ?c'"
    by (rule read_window [OF ok len win]) (use f(4) assms(1) in \<open>auto simp: live_def\<close>)
  then show "ReadChunks (Some (wpos c)) ?c' = ReadFrom (wpos c) ?c'" unfolding bk .
qed

text \<open>C28. A reader that is less than a lap behind when the stream ends with an error gets all the
  remaining data and then the error with its status: of \<open>n\<close> slots at most \<open>n - 2\<close> data chunks and
  the error chunk were written since its last read.\<close>

theorem error_reaches_reader:
  assumes "live (Suc (length ws)) c" "\<forall>ch \<in> set ws. \<not> is_error ch" "e \<noteq> None \<or> st \<noteq> 0"
    and "Suc (length ws) < length (slots c)"
  shows "ReadChunks (Some (wpos c)) (ended ws e st t c) =
    Ok (ReadRes (delivered ws) (Some \<lparr>Buffer = None, Error = e, Status = st, Timestamp = t, seq = 0\<rparr>)
      (wpos (ended ws e st t c)))"
  using error_reaches_waiting_reader [OF assms] by simp

lemma live_sample_plain:
  "live 2 (NewStreamCoordinator ''id'' sample_config)"
  "\<forall>ch \<in> set [sample_chunk s]. \<not> is_error ch"
  by (rule live_sample, simp) (simp add: sample_chunk_def is_error_def newChunkData_def)

theorem error_reaches_reader_witness:
  "let c = NewStreamCoordinator ''id'' sample_config; ws = [sample_chunk ''a''] in
   ReadChunks (Some (wpos c)) (ended ws (Some EOF) 2 0 c) =
    Ok (ReadRes (delivered ws) (Some \<lparr>Buffer = None, Error = Some EOF, Status = 2, Timestamp = 0, seq = 0\<rparr>)
      (wpos (ended ws (Some EOF) 2 0 c)))"
  unfolding Let_def
  by (rule error_reaches_reader)
    (use live_sample_plain in \<open>simp_all add: NewStreamCoordinator_def sample_config_def eval_nat_numeral\<close>)

text \<open>An error that completes a lap is lost: when the error is the \<open>n\<close>-th chunk written since the
  reader's last read, the reader gets no data and no error, and so it stays: as long as no
  client restarts the stream, every later read from its position returns the same nothing, and
  the loop of \<open>HandleStream\<close> around it never ends by itself.\<close>

theorem error_completing_a_lap_is_lost:
  assumes "live (Suc (length ws)) c" "\<forall>ch \<in> set ws. \<not> is_error ch" "e \<noteq> None \<or> st \<noteq> 0"
    and "Suc (length ws) = length (slots c)" "no_restart (ended ws e st t c) as"
  shows "ReadChunks (Some (wpos c)) (foldl coord_step (ended ws e st t c) as) = Ok (ReadRes [] None (wpos c))
    \<and> is_error (last (ring_view (ended ws e st t c)))"
proof
  let ?c' = "ended ws e st t c" let ?c2 = "foldl coord_step ?c' as"
  note f = ended_facts [OF assms(1,2,3), of t]
  have w: "wpos c < length (slots c)" using assms(1) by (auto simp: live_def ring_ok_def)
  have "wpos ?c' = wpos c" using f(5) assms(4) w by simp
  moreover have "cstate ?c2 \<noteq> StateActive" "wpos ?c2 = wpos ?c'"
    using inactive_run [OF f(1) _ assms(5)] f(2) by simp_all
  moreover have "coord_ok ?c2" using f(1) by (rule lifecycle.inv_run)
  ultimately show "ReadChunks (Some (wpos c)) ?c2 = Ok (ReadRes [] None (wpos c))"
    using ReadChunks_at_writer [of ?c2] by (simp add: coord_ok_def)
  have "last_n (Suc (length ws)) (ring_view ?c') = numbered (writeSeq c) (ws @ [error_chunk e st t])"
    using f(6) assms(4) by simp
  then have "ring_view ?c' = numbered (writeSeq c) (ws @ [error_chunk e st t])"
    using f(3) assms(4) by (simp add: last_n_all)
  then show "is_error (last (ring_view ?c'))"
    using assms(3) by (simp add: numbered_snoc)
qed

theorem error_completing_a_lap_is_lost_witness:
  "let c = NewStreamCoordinator ''id'' sample_config; ws = [sample_chunk ''a'', sample_chunk ''b'']
   in ReadChunks (Some (wpos c)) (foldl coord_step (ended ws (Some EOF) 2 0 c) [AUnregister])
        = Ok (ReadRes [] None (wpos c))
      \<and> is_error (last (ring_view (ended ws (Some EOF) 2 0 c)))"
  unfolding Let_def
proof (rule error_completing_a_lap_is_lost)
  let ?c = "NewStreamCoordinator ''id'' sample_config"
  let ?ws = "[sample_chunk ''a'', sample_chunk ''b'']"
  show "live (Suc (length ?ws)) ?c" by (rule live_sample) simp
  show "\<forall>ch \<in> set ?ws. \<not> is_error ch" by (simp add: sample_chunk_def is_error_def newChunkData_def)
  show "Suc (length ?ws) = length (slots ?c)" by (simp add: NewStreamCoordinator_def sample_config_def)
qed simp_all

section \<open>Nothing survives a cleared ring\<close>

text \<open>After \<open>ClearBuffer\<close> (run when the last client leaves and when a writer starts) no reader
  gets any data or error of the stream's past, whatever position it holds: it waits, or reads
  nothing.\<close>

theorem cleared_ring_leaks_nothing:
  assumes "coord_ok c" "p < length (slots c)"
  shows "\<exists>q. ReadChunks (Some p) (ClearBuffer c) = Ok (Waiting q)
    \<or> ReadChunks (Some p) (ClearBuffer c) = Ok (ReadRes [] None q)"
proof -
  let ?c = "ClearBuffer c" let ?n = "length (slots c)" let ?blank = "replicate ?n newChunkData"
  have ok: "ring_ok c" "LastError c = Some None" using assms(1) by (simp_all add: coord_ok_def)
  have sl: "slots ?c = ?blank" by (rule ClearBuffer_slots [OF ok(1)])
  have w: "wpos c < ?n" using ok by (simp add: ring_ok_def)
  have blank: "foldl visit ([], None) (replicate k newChunkData) = ([], None)" for k
    by (induction k) (simp_all add: visit_def newChunkData_def is_error_def)
  define s where "s = start_position (Some p) ?c"
  have s: "s < ?n" using assms(2) w by (simp add: s_def start_position_def Let_def frame_simps)
  define k where "k = (wpos c + ?n - s) mod ?n"
  have n: "0 < ?n" using s by linarith
  have k: "k < ?n" unfolding k_def using n by (rule mod_less_divisor)
  have kv: "k = (if s \<le> wpos c then wpos c - s else wpos c + ?n - s)"
    unfolding k_def by (rule mod_back [OF w s])
  have bk: "(wpos c + ?n - k) mod ?n = s"
    using mod_back [OF w k] s w unfolding kv by (simp split: if_splits)
  have "read_loop ?n ?blank (wpos c) s s ([], None) = Some (([], None), wpos c)"
    using read_loop_segment [of "wpos c" ?blank k k ?n "([], None)"] w k bk
    by (simp add: last_n_def blank)
  then show ?thesis
    using sl ok(2) n s_def by (auto simp: ReadChunks_def ReadFrom_def Let_def frame_simps)
qed

theorem cleared_ring_leaks_nothing_witness:
  "\<exists>q. ReadChunks (Some 1) (ClearBuffer (NewStreamCoordinator ''id'' sample_config)) = Ok (Waiting q)
    \<or> ReadChunks (Some 1) (ClearBuffer (NewStreamCoordinator ''id'' sample_config)) = Ok (ReadRes [] None q)"
  by (rule cleared_ring_leaks_nothing)
    (simp_all add: coord_ok_def ring_ok_def NewStreamCoordinator_def sample_config_def)

section \<open>What a reader has still to read\<close>

text \<open>
  The last chunks of the ring, \<open>us\<close>, with the sequence number \<open>s\<close> before them: fewer than a lap.  A
  reader that stands behind them has exactly them to read.  (The empty slot in front of the first
  chunk ever written counts as a chunk with number 0.)
\<close>

definition window :: "int \<Rightarrow> ChunkData list \<Rightarrow> Coord \<Rightarrow> bool" where
  "window s us c \<longleftrightarrow> coord_ok c \<and> last_n (length us) (ring_view c) = numbered s us
     \<and> writeSeq c = s + int (length us) \<and> - 1 \<le> s \<and> 0 \<le> writeSeq c \<and> length us < length (slots c)"

lemma window_here: "live m c \<Longrightarrow> window (writeSeq c) [] c"
  by (auto simp: window_def live_def coord_ok_def ring_ok_def)

lemma window_nil: "window s us c \<Longrightarrow> window (writeSeq c) [] c"
  by (auto simp: window_def)

lemma behind_0: "ring_ok c \<Longrightarrow> behind 0 c = wpos c"
  by (simp add: behind_def ring_ok_def)

lemma behind_Suc:
  assumes "w < (n :: nat)" "k < n"
  shows "((w + 1) mod n + n - Suc k) mod n = (w + n - k) mod n"
proof -
  have "(w + 1) mod n + n - Suc k = (w + 1) mod n + (n - Suc k)" using assms(2) by linarith
  then have "((w + 1) mod n + n - Suc k) mod n = (w + 1 + (n - Suc k)) mod n" by (simp add: mod_add_left_eq)
  also have "w + 1 + (n - Suc k) = w + n - k" using assms(2) by linarith
  finally show ?thesis .
qed

lemma window_write:
  assumes "window s us c" "cstate c = StateActive" "writeSeq c + 1 < 9223372036854775808"
    and "Suc (length us) < length (slots c)"
  shows "window s (us @ [ch]) (after_write ch c)"
    "behind (Suc (length us)) (after_write ch c) = behind (length us) c"
    "writeSeq (after_write ch c) = writeSeq c + 1" "length (slots (after_write ch c)) = length (slots c)"
    "cstate (after_write ch c) = (if is_error ch then StateDraining else StateActive)"
proof -
  let ?c = "after_write ch c" let ?n = "length (slots c)"
  have ok: "ring_ok c" using assms(1) by (simp add: window_def coord_ok_def)
  note f = after_write_fields [OF ok assms(2), of ch]
  have i: "int64 (writeSeq c + 1) = writeSeq c + 1"
    using assms(1,3) by (intro int64_id) (simp_all add: window_def)
  show q: "writeSeq ?c = writeSeq c + 1" "length (slots ?c) = ?n"
    "cstate ?c = (if is_error ch then StateDraining else StateActive)" using f i by simp_all
  have w: "wpos c < ?n" using ok by (simp add: ring_ok_def)
  show "behind (Suc (length us)) ?c = behind (length us) c"
    using behind_Suc [OF w, of "length us"] assms(4) f by (simp add: behind_def)
  have "last_n (Suc (length us)) (ring_view ?c) =
      last_n (length us) (tl (ring_view c)) @ [stored (writeSeq c + 1) ch]"
    by (simp add: ring_view_after_write [OF ok assms(2)] i last_n_snoc)
  also have "last_n (length us) (tl (ring_view c)) = last_n (length us) (ring_view c)"
  proof (cases "ring_view c")
    case (Cons x xs)
    have "length (ring_view c) = ?n" by (simp add: ring_view_def)
    with Cons have l: "?n = Suc (length xs)" by simp
    then have "Suc (length xs) - length us = Suc (length xs - length us)" using assms(4) by linarith
    then show ?thesis by (simp add: last_n_def Cons)
  qed simp
  also have "last_n (length us) (ring_view c) = numbered s us" using assms(1) by (simp add: window_def)
  also have "writeSeq c + 1 = s + int (length us) + 1" using assms(1) by (simp add: window_def)
  finally have v: "last_n (Suc (length us)) (ring_view ?c) = numbered s (us @ [ch])" by (simp add: numbered_snoc)
  have "coord_ok ?c" using assms(1) lifecycle.inv_step [of c "AWrite ch"] by (simp add: window_def)
  then show "window s (us @ [ch]) ?c" using v q assms(1,4) by (simp add: window_def)
qed

lemma window_writes:
  "window s us c \<Longrightarrow> cstate c = StateActive \<Longrightarrow> \<forall>ch \<in> set ws. \<not> is_error ch \<Longrightarrow>
    writeSeq c + int (length ws) < 9223372036854775808 \<Longrightarrow> length us + length ws < length (slots c) \<Longrightarrow>
    window s (us @ ws) (writes ws c) \<and> behind (length us + length ws) (writes ws c) = behind (length us) c
    \<and> cstate (writes ws c) = StateActive \<and> writeSeq (writes ws c) = writeSeq c + int (length ws)
    \<and> length (slots (writes ws c)) = length (slots c)"
proof (induction ws arbitrary: us c)
  case (Cons ch ws)
  have "writeSeq c + 1 < 9223372036854775808" "Suc (length us) < length (slots c)" using Cons.prems by simp_all
  note w = window_write [OF Cons.prems(1,2) this, of ch]
  show ?case using Cons.IH [OF w(1)] Cons.prems w(2-5) by simp
qed simp

lemma window_error:
  assumes "window s us c" "cstate c = StateActive" "writeSeq c + 1 < 9223372036854775808"
    and "Suc (length us) < length (slots c)"
  shows "window s (us @ [error_chunk e st t]) (coord_step c (AWriteError e st t))"
    "behind (Suc (length us)) (coord_step c (AWriteError e st t)) = behind (length us) c"
    "ClientCount (coord_step c (AWriteError e st t)) = ClientCount c"
    "length (slots (coord_step c (AWriteError e st t))) = length (slots c)"
proof -
  have ok: "ring_ok c" using assms(1) by (simp add: window_def coord_ok_def)
  note w = window_write [OF assms, of "error_chunk e st t"]
  show "window s (us @ [error_chunk e st t]) (coord_step c (AWriteError e st t))"
    "behind (Suc (length us)) (coord_step c (AWriteError e st t)) = behind (length us) c"
    "ClientCount (coord_step c (AWriteError e st t)) = ClientCount c"
    "length (slots (coord_step c (AWriteError e st t))) = length (slots c)"
    using w by (simp_all add: writeError_eq [OF ok] window_def coord_ok_def behind_def ClientCount_after_write)
qed

lemma window_read:
  assumes "window s us c" "us \<noteq> []" "writeSeq c < 9223372036854775808"
  defines "r \<equiv> ReadRes (delivered us) (snd (foldl visit ([], None) us)) (wpos c)"
  shows "ReadFrom (behind (length us) c) c = Ok r" "ReadChunks (Some (behind (length us) c)) c = Ok r"
proof -
  have ok: "ring_ok c" "LastError c = Some None" and len: "0 < length us" "length us < length (slots c)"
    and v: "last_n (length us) (ring_view c) = numbered s us"
    and q: "writeSeq c = s + int (length us)" "- 1 \<le> s"
    using assms(1,2) by (simp_all add: window_def coord_ok_def)
  have "fst (foldl visit ([], None) us) = delivered us"
    using foldl_visit_fst [of "([], None)" us] by (simp add: delivered_def)
  then show "ReadFrom (behind (length us) c) c = Ok r"
    using read_window_from [OF ok len v] by (simp add: r_def Let_def)
  then show "ReadChunks (Some (behind (length us) c)) c = Ok r"
    using read_window [OF ok len v q assms(3)] by simp
qed

lemma window_wait:
  assumes "window s [] c" "cstate c = StateActive"
  shows "ReadFrom (behind 0 c) c = Ok (Waiting (wpos c))" "ReadChunks (Some (behind 0 c)) c = Ok (Waiting (wpos c))"
proof -
  have ok: "ring_ok c" "LastError c = Some None" using assms(1) by (simp_all add: window_def coord_ok_def)
  show "ReadFrom (behind 0 c) c = Ok (Waiting (wpos c))" "ReadChunks (Some (behind 0 c)) c = Ok (Waiting (wpos c))"
    using assms(2) ReadChunks_at_writer [OF ok] by (simp_all add: behind_0 [OF ok(1)] ReadFrom_def must_wait_def)
qed

text \<open>A ring that has just been cleared, before its first chunk.\<close>

lemma window_fresh:
  assumes "coord_ok c" "writeSeq c = 0" "slots c = replicate n newChunkData" "1 < n"
  shows "window (- 1) [newChunkData] c"
proof -
  have "ring_view c = replicate n newChunkData" using assms(3) by (simp add: ring_view_def)
  moreover have "stored 0 newChunkData = newChunkData" by (simp add: stored_def newChunkData_def)
  moreover have "n - (n - 1) = 1" using assms(4) by linarith
  ultimately show ?thesis using assms by (simp add: window_def last_n_def)
qed

end
