(* ===== verification/Concurrency.thy ===== *)
theory Concurrency
  imports GoStrings
begin

text \<open>
  \<^verbatim>\<open>store/concurrency.go\<close>: how many connections are open per M3U index, against the limit of the
  index.  The two \<open>xsync\<close> maps are partial maps (\<open>Load\<close> is application, \<open>Store\<close> an update);
  \<open>Compute\<close> is applied atomically per key, stores what the callback returns unless it asks for a
  deletion, and passes nil for a missing key.  A counter is a pointer to an \<open>atomic.Int32\<close>, so
  an entry of \<open>count\<close> is itself an option: \<open>Some None\<close> is a stored nil pointer.
\<close>

record ConcurrencyManager =
  count :: "string \<rightharpoonup> int option"
  Invalid :: "string set"
  maxCache :: "string \<rightharpoonup> int"

definition NewConcurrencyManager :: ConcurrencyManager where
  "NewConcurrencyManager = \<lparr>count = Map.empty, Invalid = {}, maxCache = Map.empty\<rparr>"

definition getMaxConcurrency :: "environ \<Rightarrow> string \<Rightarrow> ConcurrencyManager \<Rightarrow> int \<times> ConcurrencyManager" where
  "getMaxConcurrency env m3uIndex cm =
     (case maxCache cm m3uIndex of
        Some m \<Rightarrow> (m, cm)
      | None \<Rightarrow>
          let (v, ok) = Atoi (Getenv env (''M3U_MAX_CONCURRENCY_'' @ m3uIndex));
              m = (if \<not> ok \<or> v < 1 then 1 else v)
          in (m, cm\<lparr>maxCache := (maxCache cm)(m3uIndex \<mapsto> m)\<rparr>))"

definition GetConcurrencyStatus ::
    "environ \<Rightarrow> string \<Rightarrow> ConcurrencyManager \<Rightarrow> ((int \<times> int \<times> int) \<times> ConcurrencyManager) outcome" where
  "GetConcurrencyStatus env m3uIndex cm =
     (let (m, cm') = getMaxConcurrency env m3uIndex cm in
      case count cm' m3uIndex of
        None \<Rightarrow> Ok ((0, m, int64 (m - 0)), cm')
      | Some None \<Rightarrow> Panic ''nil pointer dereference''
      | Some (Some c) \<Rightarrow> Ok ((c, m, int64 (m - c)), cm'))"

definition CheckConcurrency ::
    "environ \<Rightarrow> string \<Rightarrow> ConcurrencyManager \<Rightarrow> (bool \<times> ConcurrencyManager) outcome" where
  "CheckConcurrency env m3uIndex cm =
     bind_outcome (GetConcurrencyStatus env m3uIndex cm) (\<lambda>((c, m, p), cm'). Ok (c \<ge> m, cm'))"

definition ConcurrencyPriorityValue ::
    "environ \<Rightarrow> string \<Rightarrow> ConcurrencyManager \<Rightarrow> (int \<times> ConcurrencyManager) outcome" where
  "ConcurrencyPriorityValue env m3uIndex cm =
     bind_outcome (GetConcurrencyStatus env m3uIndex cm) (\<lambda>((c, m, p), cm'). Ok (p, cm'))"

text \<open>The callbacks of \<open>Compute\<close>: the old pointer (nil when the key is missing) to the new one.\<close>

definition update_count :: "bool \<Rightarrow> int option \<Rightarrow> int option" where
  "update_count incr old =
     (let c = (case old of None \<Rightarrow> 0 | Some c \<Rightarrow> c) in
      if incr then Some (int32 (c + 1))
      else if c > 0 then Some (int32 (c - 1)) else Some c)"

definition compute_count ::
    "string \<Rightarrow> (int option \<Rightarrow> int option) \<Rightarrow> ConcurrencyManager \<Rightarrow> ConcurrencyManager" where
  "compute_count k f cm =
     cm\<lparr>count := (count cm)(k \<mapsto> f (case count cm k of None \<Rightarrow> None | Some p \<Rightarrow> p))\<rparr>"

definition UpdateConcurrency :: "environ \<Rightarrow> string \<Rightarrow> bool \<Rightarrow> ConcurrencyManager \<Rightarrow> ConcurrencyManager" where
  "UpdateConcurrency env m3uIndex incr cm =
     snd (getMaxConcurrency env m3uIndex (compute_count m3uIndex (update_count incr) cm))"

definition Increment :: "string \<Rightarrow> ConcurrencyManager \<Rightarrow> ConcurrencyManager" where
  "Increment m3uIndex cm =
     compute_count m3uIndex (\<lambda>old. Some (int32 ((case old of None \<Rightarrow> 0 | Some c \<Rightarrow> c) + 1))) cm"

text \<open>
  \<open>Decrement\<close> returns \<open>(nil, false)\<close> for a missing counter: without a deletion, so the nil
  pointer is stored.  Its compare-and-swap loop is one atomic decrement.
\<close>

definition Decrement :: "string \<Rightarrow> ConcurrencyManager \<Rightarrow> ConcurrencyManager" where
  "Decrement m3uIndex cm =
     compute_count m3uIndex
       (\<lambda>old. case old of None \<Rightarrow> None
               | Some c \<Rightarrow> if c \<le> 0 then Some c else Some (int32 (c - 1))) cm"

definition GetCount :: "string \<Rightarrow> ConcurrencyManager \<Rightarrow> int outcome" where
  "GetCount m3uIndex cm =
     (case count cm m3uIndex of
        None \<Rightarrow> Ok 0
      | Some None \<Rightarrow> Panic ''nil pointer dereference''
      | Some (Some c) \<Rightarrow> Ok c)"

section \<open>Limits\<close>

text \<open>The limit the environment configures for an index; the cache never holds another one.\<close>

definition configured_max :: "environ \<Rightarrow> string \<Rightarrow> int" where
  "configured_max env k = fst (getMaxConcurrency env k NewConcurrencyManager)"

definition cache_ok :: "environ \<Rightarrow> ConcurrencyManager \<Rightarrow> bool" where
  "cache_ok env cm \<longleftrightarrow> (\<forall>k m. maxCache cm k = Some m \<longrightarrow> m = configured_max env k)"

lemma configured_max_pos: "1 \<le> configured_max env k"
  by (simp add: configured_max_def getMaxConcurrency_def NewConcurrencyManager_def
      split: prod.splits)

lemma getMax_value: "cache_ok env cm \<Longrightarrow> fst (getMaxConcurrency env k cm) = configured_max env k"
  by (auto simp: cache_ok_def configured_max_def getMaxConcurrency_def NewConcurrencyManager_def
      split: option.splits prod.splits)

lemma getMax_cache_ok: "cache_ok env cm \<Longrightarrow> cache_ok env (snd (getMaxConcurrency env k cm))"
  by (auto simp: cache_ok_def configured_max_def getMaxConcurrency_def NewConcurrencyManager_def
      split: option.splits prod.splits)

lemma getMax_count [simp]: "count (snd (getMaxConcurrency env k cm)) = count cm"
  by (auto simp: getMaxConcurrency_def Let_def split: option.splits prod.splits)

lemma getMax_Invalid [simp]: "Invalid (snd (getMaxConcurrency env k cm)) = Invalid cm"
  by (auto simp: getMaxConcurrency_def Let_def split: option.splits prod.splits)

lemma Update_Invalid [simp]: "Invalid (UpdateConcurrency env k b cm) = Invalid cm"
  by (simp add: UpdateConcurrency_def compute_count_def)

lemma compute_cache_ok [simp]: "cache_ok env (compute_count k f cm) = cache_ok env cm"
  by (simp add: cache_ok_def compute_count_def)

lemma Update_cache_ok: "cache_ok env cm \<Longrightarrow> cache_ok env (UpdateConcurrency env k b cm)"
  by (simp add: UpdateConcurrency_def getMax_cache_ok)

lemma New_cache_ok: "cache_ok env NewConcurrencyManager"
  by (simp add: cache_ok_def NewConcurrencyManager_def)

section \<open>Counts\<close>

text \<open>
  The abstract content of the manager: the number of open connections per index.  The
  counters are 32-bit; \<open>counted b\<close> says that every one of them exists as a number between 0
  and \<open>b\<close>.
\<close>

definition conn :: "ConcurrencyManager \<Rightarrow> string \<Rightarrow> nat" where
  "conn cm k = (case count cm k of Some (Some c) \<Rightarrow> nat c | _ \<Rightarrow> 0)"

definition counted :: "nat \<Rightarrow> ConcurrencyManager \<Rightarrow> bool" where
  "counted b cm \<longleftrightarrow> (\<forall>k p. count cm k = Some p \<longrightarrow> (\<exists>c. p = Some c \<and> 0 \<le> c \<and> c \<le> int b))"

lemma counted_New: "counted 0 NewConcurrencyManager"
  by (simp add: counted_def NewConcurrencyManager_def)

lemma conn_New: "conn NewConcurrencyManager = (\<lambda>_. 0)"
  by (simp add: conn_def NewConcurrencyManager_def fun_eq_iff)

lemma counted_mono: "counted b cm \<Longrightarrow> b \<le> b' \<Longrightarrow> counted b' cm"
  by (fastforce simp: counted_def)

lemma counted_lookup:
  assumes "counted b cm"
  shows "count cm k = None \<and> conn cm k = 0
    \<or> count cm k = Some (Some (int (conn cm k))) \<and> conn cm k \<le> b"
proof (cases "count cm k")
  case (Some p)
  with assms obtain c where "p = Some c" "0 \<le> c" "c \<le> int b"
    unfolding counted_def by meson
  with Some show ?thesis by (simp add: conn_def)
qed (simp add: conn_def)

lemma conn_counted_Some:
  assumes "counted b cm" "count cm k = Some p"
  shows "p = Some (int (conn cm k))" "conn cm k \<le> b"
  using counted_lookup [OF assms(1), of k] assms(2) by auto

lemma Acquire_count:
  assumes "counted b cm" "b < 2147483647"
  shows "count (UpdateConcurrency env k True cm) = (count cm)(k \<mapsto> Some (int (Suc (conn cm k))))"
  using counted_lookup [OF assms(1), of k] assms(2)
  by (auto simp: UpdateConcurrency_def compute_count_def update_count_def Let_def add.commute)

lemma Release_count:
  assumes "counted b cm" "b \<le> 2147483647"
  shows "count (UpdateConcurrency env k False cm) = (count cm)(k \<mapsto> Some (int (conn cm k - 1)))"
  using counted_lookup [OF assms(1), of k] assms(2)
  by (auto simp: UpdateConcurrency_def compute_count_def update_count_def Let_def of_nat_diff)

lemma conn_update: "count cm' = (count cm)(k \<mapsto> Some (int n)) \<Longrightarrow> conn cm' = (conn cm)(k := n)"
  by (auto simp: conn_def fun_eq_iff)

lemma counted_update:
  "counted b cm \<Longrightarrow> count cm' = (count cm)(k \<mapsto> Some (int n)) \<Longrightarrow> n \<le> b' \<Longrightarrow> b \<le> b' \<Longrightarrow> counted b' cm'"
  by (fastforce simp: counted_def split: if_splits)

lemma conn_le: "counted b cm \<Longrightarrow> conn cm k \<le> b"
  using counted_lookup [of b cm k] by auto

text \<open>
  What the writers rely on: an acquired connection can be released again, and nothing else
  changes.  \<open>room\<close> is the precondition of an acquisition, \<open>ok\<close> that of a release.
\<close>

locale connection_counter =
  fixes acquire :: "string \<Rightarrow> 's \<Rightarrow> 's"
    and release :: "string \<Rightarrow> 's \<Rightarrow> 's"
    and level :: "'s \<Rightarrow> string \<Rightarrow> nat"
    and room :: "'s \<Rightarrow> bool"
    and ok :: "'s \<Rightarrow> bool"
  assumes acquire_level: "room s \<Longrightarrow> level (acquire k s) = (level s)(k := Suc (level s k))"
    and acquire_ok: "room s \<Longrightarrow> ok (acquire k s)"
    and release_level: "ok s \<Longrightarrow> level (release k s) = (level s)(k := level s k - 1)"
    and release_ok: "ok s \<Longrightarrow> ok (release k s)"
begin

lemma bracket:
  assumes "room s"
    and "level (body (acquire k s)) = level (acquire k s)" "ok (body (acquire k s))"
  shows "level (release k (body (acquire k s))) = level s"
  using assms acquire_level [of s k] release_level [of "body (acquire k s)" k]
  by (simp add: fun_eq_iff)

lemma two_acquired:
  "room s \<Longrightarrow> room (acquire k s) \<Longrightarrow> level (acquire k (acquire k s)) k = level s k + 2"
  by (simp add: acquire_level)

end

interpretation conns: connection_counter
  "\<lambda>k. UpdateConcurrency env k True" "\<lambda>k. UpdateConcurrency env k False" conn
  "counted 2147483646" "counted 2147483647"
  for env
proof
  fix s k
  assume s: "counted 2147483646 s"
  have c: "count (UpdateConcurrency env k True s) = (count s)(k \<mapsto> Some (int (Suc (conn s k))))"
    by (rule Acquire_count [OF s]) simp
  show "conn (UpdateConcurrency env k True s) = (conn s)(k := Suc (conn s k))"
    by (rule conn_update [OF c])
  show "counted 2147483647 (UpdateConcurrency env k True s)"
    by (rule counted_update [OF s c]) (use conn_le [OF s, of k] in simp_all)
next
  fix s k
  assume s: "counted 2147483647 s"
  have c: "count (UpdateConcurrency env k False s) = (count s)(k \<mapsto> Some (int (conn s k - 1)))"
    by (rule Release_count [OF s]) simp
  show "conn (UpdateConcurrency env k False s) = (conn s)(k := conn s k - 1)"
    by (rule conn_update [OF c])
  show "counted 2147483647 (UpdateConcurrency env k False s)"
    by (rule counted_update [OF s c]) (use conn_le [OF s, of k] in simp_all)
qed

lemma acquire_release:
  "counted 2147483646 cm \<Longrightarrow>
    conn (UpdateConcurrency env k False (UpdateConcurrency env k True cm)) = conn cm"
  using conns.bracket [of cm "\<lambda>s. s" env k] conns.acquire_ok [of cm env k] by simp

section \<open>Runs\<close>

text \<open>
  Any interleaving of acquisitions, releases and limit checks by the connections of the
  program, one atomic \<open>Compute\<close> after the other.
\<close>

datatype cm_event = Acquire string | Release string | Check string

fun cm_step :: "environ \<Rightarrow> ConcurrencyManager \<Rightarrow> cm_event \<Rightarrow> ConcurrencyManager" where
  "cm_step env cm (Acquire k) = UpdateConcurrency env k True cm"
| "cm_step env cm (Release k) = UpdateConcurrency env k False cm"
| "cm_step env cm (Check k) = (case CheckConcurrency env k cm of Ok (_, cm') \<Rightarrow> cm' | Panic _ \<Rightarrow> cm)"

fun conn_step :: "(string \<Rightarrow> nat) \<Rightarrow> cm_event \<Rightarrow> (string \<Rightarrow> nat)" where
  "conn_step f (Acquire k) = f(k := Suc (f k))"
| "conn_step f (Release k) = f(k := f k - 1)"
| "conn_step f (Check k) = f"

lemma GetConcurrencyStatus_counted:
  assumes "counted b cm" "cache_ok env cm"
  shows "GetConcurrencyStatus env k cm =
    Ok ((int (conn cm k), configured_max env k, int64 (configured_max env k - int (conn cm k))),
        snd (getMaxConcurrency env k cm))"
  using counted_lookup [OF assms(1), of k] getMax_value [OF assms(2), of k]
  by (auto simp: GetConcurrencyStatus_def split_beta Let_def)

lemma CheckConcurrency_counted:
  "counted b cm \<Longrightarrow> cache_ok env cm \<Longrightarrow> CheckConcurrency env k cm =
    Ok (configured_max env k \<le> int (conn cm k), snd (getMaxConcurrency env k cm))"
  by (simp add: CheckConcurrency_def GetConcurrencyStatus_counted)

lemma ConcurrencyPriorityValue_counted:
  "counted b cm \<Longrightarrow> cache_ok env cm \<Longrightarrow> ConcurrencyPriorityValue env k cm =
    Ok (int64 (configured_max env k - int (conn cm k)), snd (getMaxConcurrency env k cm))"
  by (simp add: ConcurrencyPriorityValue_def GetConcurrencyStatus_counted)

lemma getMax_counted [simp]: "counted b (snd (getMaxConcurrency env k cm)) = counted b cm"
  by (simp add: counted_def)

lemma getMax_conn [simp]: "conn (snd (getMaxConcurrency env k cm)) = conn cm"
  by (simp add: conn_def fun_eq_iff)

lemma cm_step_refines:
  assumes "counted b cm" "cache_ok env cm" "b < 2147483647"
  shows "conn (cm_step env cm e) = conn_step (conn cm) e"
    "counted (Suc b) (cm_step env cm e)" "cache_ok env (cm_step env cm e)"
proof -
  have "conn (cm_step env cm e) = conn_step (conn cm) e \<and> counted (Suc b) (cm_step env cm e)
      \<and> cache_ok env (cm_step env cm e)"
  proof (cases e)
    case (Acquire k)
    note c = Acquire_count [OF assms(1,3), of env k]
    from Acquire show ?thesis
      using conn_update [OF c] counted_update [OF assms(1) c, of "Suc b"] conn_le [OF assms(1), of k]
        Update_cache_ok [OF assms(2)] by simp
  next
    case (Release k)
    have b: "b \<le> 2147483647" using assms(3) by simp
    note c = Release_count [OF assms(1) b, of env k]
    from Release show ?thesis
      using conn_update [OF c] counted_update [OF assms(1) c, of "Suc b"] conn_le [OF assms(1), of k]
        Update_cache_ok [OF assms(2)] by simp
  next
    case (Check k)
    then show ?thesis
      using CheckConcurrency_counted [OF assms(1,2)] getMax_cache_ok [OF assms(2)]
        counted_mono [OF assms(1), of "Suc b"] by simp
  qed
  then show "conn (cm_step env cm e) = conn_step (conn cm) e"
    "counted (Suc b) (cm_step env cm e)" "cache_ok env (cm_step env cm e)" by simp_all
qed

lemma cm_run_refines:
  "counted b cm \<Longrightarrow> cache_ok env cm \<Longrightarrow> b + length es < 2147483648 \<Longrightarrow>
    conn (foldl (cm_step env) cm es) = foldl conn_step (conn cm) es
    \<and> counted (b + length es) (foldl (cm_step env) cm es) \<and> cache_ok env (foldl (cm_step env) cm es)"
proof (induction es arbitrary: cm b)
  case (Cons e es)
  have "b < 2147483647" using Cons.prems(3) by simp
  note st = cm_step_refines [OF Cons.prems(1,2) this, of e]
  show ?case
    using Cons.IH [OF st(2,3)] Cons.prems(3) st(1) by simp
qed simp

text \<open>C15. Refinement: after any sequence of fewer than \<open>2 ^ 31\<close> acquisitions, releases and limit
  checks from a new manager, the 32-bit counters hold exactly the number of connections that a
  plain counter per index holds (a release of nothing is ignored), no counter is a nil pointer
  and none is negative, and every limit check compares that number with the limit the
  environment configures.\<close>

theorem concurrency_refines_counters:
  assumes "length es < 2147483648"
  shows "let cm = foldl (cm_step env) NewConcurrencyManager es; f = foldl conn_step (\<lambda>_. 0) es in
      GetCount k cm = Ok (int (f k))
      \<and> CheckConcurrency env k cm = Ok (configured_max env k \<le> int (f k), snd (getMaxConcurrency env k cm))"
proof -
  let ?cm = "foldl (cm_step env) NewConcurrencyManager es"
  have r: "conn ?cm = foldl conn_step (\<lambda>_. 0) es \<and> counted (length es) ?cm \<and> cache_ok env ?cm"
    using cm_run_refines [OF counted_New New_cache_ok, of es env] assms by (simp add: conn_New)
  then have "GetCount k ?cm = Ok (int (conn ?cm k))"
    using counted_lookup [of "length es" ?cm k] by (auto simp: GetCount_def)
  then show ?thesis
    using r CheckConcurrency_counted [of "length es" ?cm env k] by (simp add: Let_def)
qed

theorem concurrency_refines_counters_witness:
  "let cm = foldl (cm_step []) NewConcurrencyManager [Acquire ''1'', Release ''1'', Release ''1''];
       f = foldl conn_step (\<lambda>_. 0) [Acquire ''1'', Release ''1'', Release ''1''] in
   GetCount ''1'' cm = Ok (int (f ''1''))
   \<and> CheckConcurrency [] ''1'' cm = Ok (configured_max [] ''1'' \<le> int (f ''1''), snd (getMaxConcurrency [] ''1'' cm))"
  by (rule concurrency_refines_counters) simp

text \<open>The limit is checked and taken in two steps: when one connection is left, two requests
  that both check before either of their writers registers both pass, and the index then has
  one connection more than its limit.\<close>

theorem check_then_acquire_exceeds_limit:
  assumes "counted 2147483645 cm" "cache_ok env cm" "int (conn cm k) + 1 = configured_max env k"
  shows "\<exists>cm1 cm2. CheckConcurrency env k cm = Ok (False, cm1) \<and> CheckConcurrency env k cm1 = Ok (False, cm2)
    \<and> int (conn (UpdateConcurrency env k True (UpdateConcurrency env k True cm2)) k) = configured_max env k + 1"
proof (intro exI conjI)
  let ?cm1 = "snd (getMaxConcurrency env k cm)"
  let ?cm2 = "snd (getMaxConcurrency env k ?cm1)"
  show "CheckConcurrency env k cm = Ok (False, ?cm1)"
    using CheckConcurrency_counted [OF assms(1,2), of k] assms(3) by simp
  have c1: "counted 2147483645 ?cm1" "cache_ok env ?cm1"
    using assms(1) getMax_cache_ok [OF assms(2)] by simp_all
  show "CheckConcurrency env k ?cm1 = Ok (False, ?cm2)"
    using CheckConcurrency_counted [OF c1, of k] assms(3) by simp
  have r: "counted 2147483646 ?cm2"
    using counted_mono [OF assms(1), of 2147483646] by simp
  have "counted (Suc 2147483645) (UpdateConcurrency env k True ?cm2)"
    using cm_step_refines(2) [of 2147483645 ?cm2 env "Acquire k"] assms(1)
      getMax_cache_ok [OF c1(2)] by simp
  then have "counted 2147483646 (UpdateConcurrency env k True ?cm2)"
    by (rule counted_mono) simp
  from conns.two_acquired [OF r this]
  show "int (conn (UpdateConcurrency env k True (UpdateConcurrency env k True ?cm2)) k) = configured_max env k + 1"
    using assms(3) by simp
qed

theorem check_then_acquire_exceeds_limit_witness:
  "\<exists>cm1 cm2. CheckConcurrency [] ''1'' NewConcurrencyManager = Ok (False, cm1)
    \<and> CheckConcurrency [] ''1'' cm1 = Ok (False, cm2)
    \<and> int (conn (UpdateConcurrency [] ''1'' True (UpdateConcurrency [] ''1'' True cm2)) ''1'') = configured_max [] ''1'' + 1"
proof (rule check_then_acquire_exceeds_limit)
  show "counted 2147483645 NewConcurrencyManager"
    by (rule counted_mono [OF counted_New]) simp
  show "cache_ok [] NewConcurrencyManager" by (rule New_cache_ok)
  show "int (conn NewConcurrencyManager ''1'') + 1 = configured_max [] ''1''"
    by (simp add: conn_def configured_max_def getMaxConcurrency_def NewConcurrencyManager_def
        Getenv_def LookupEnv_def Atoi_def sign_split_def)
qed

text \<open>\<open>Decrement\<close> of an index without a counter stores a nil pointer, so the next read of that
  index panics; the other way of releasing, \<open>UpdateConcurrency\<close>, leaves a counter of 0.\<close>

theorem decrement_missing_panics:
  assumes "count cm k = None"
  shows "GetCount k (Decrement k cm) = Panic ''nil pointer dereference''
    \<and> CheckConcurrency env k (Decrement k cm) = Panic ''nil pointer dereference''
    \<and> GetCount k (UpdateConcurrency env k False cm) = Ok 0"
  using assms
  by (simp add: GetCount_def Decrement_def compute_count_def CheckConcurrency_def
      GetConcurrencyStatus_def UpdateConcurrency_def update_count_def split_beta Let_def)

theorem decrement_missing_panics_witness:
  "GetCount ''7'' (Decrement ''7'' NewConcurrencyManager) = Panic ''nil pointer dereference''
    \<and> CheckConcurrency [] ''7'' (Decrement ''7'' NewConcurrencyManager) = Panic ''nil pointer dereference''
    \<and> GetCount ''7'' (UpdateConcurrency [] ''7'' False NewConcurrencyManager) = Ok 0"
  by (rule decrement_missing_panics) (simp add: NewConcurrencyManager_def)

end
