(* ===== verification/StreamWriter.thy ===== *)
theory StreamWriter
  imports CoordinatorLife Concurrency
begin

text \<open>
  The writer of a stream: \<open>readAndWriteStream\<close> of \<^verbatim>\<open>proxy/stream/buffer/coordinator.go\<close>, the loop
  that moves the bytes of a response body into the ring, and \<open>StartMediaWriter\<close> of
  \<^verbatim>\<open>coordinator_media.go\<close>, which runs it with a connection counted in the concurrency manager.

  What the loop meets from outside is a script with one entry per iteration: what the clients
  do to the coordinator before the state test and during the read, whether the context is done,
  what the body returns, and what the clock shows.  A run whose script ends before the loop
  does is still running.
\<close>

section \<open>One iteration\<close>

record tick =
  before :: "coord_act list"
  ctx_err :: "go_error option"
  at_check :: int
  during :: "coord_act list"
  rd_data :: string
  rd_err :: "go_error option"
  at_read :: int
  at_write :: int
  at_end :: int
  ctx_left :: "int option"

record loop_state =
  lastSuccess :: int
  lastErr :: int
  zeroReads :: int
  readCount :: int
  backoff :: BackoffStrategy

definition data_chunk :: "string \<Rightarrow> int \<Rightarrow> ChunkData" where
  "data_chunk b t = newChunkData\<lparr>Buffer := Some b, Timestamp := t\<rparr>"

text \<open>The \<open>processChunk\<close> closure of both writers: it never returns an error.\<close>

definition processChunk :: "string \<Rightarrow> int \<Rightarrow> Coord \<Rightarrow> (go_error option \<times> Coord) outcome" where
  "processChunk b t c =
     bind_outcome (Write (Some (data_chunk b t)) c) (\<lambda>(_, _, c'). Ok (None, c'))"

datatype 'r loop_step = Continue (loop_of: loop_state) (coord_of: Coord) | Return 'r (loop_of: loop_state) (coord_of: Coord)

text \<open>
  An iteration after the state test.  The order of the tests is the order of the code: context,
  timeout, empty read, end of file with data, other errors, data.
\<close>

definition loop_body :: "int \<Rightarrow> tick \<Rightarrow> loop_state \<Rightarrow> Coord \<Rightarrow> go_error option loop_step outcome" where
  "loop_body timeout t s c =
     (case ctx_err t of
        Some e \<Rightarrow> Ok (Return (Some e) s c)
      | None \<Rightarrow>
          if shouldTimeout c (at_check t) (lastSuccess s) timeout
          then Ok (Return (Some (Errorf ''stream timeout: no new segments'')) s c)
          else
            let c1 = foldl coord_step c (during t); n = length (rd_data t);
                s0 = s\<lparr>readCount := int64 (readCount s + 1)\<rparr> in
            if n = 0 then
              let s1 = s0\<lparr>zeroReads := zeroReads s0 + 1\<rparr> in
              if zeroReads s1 > 10 then Ok (Return (Some EOF) s1 c1)
              else Ok (Continue s1 c1)
            else
              let s1 = s0\<lparr>lastSuccess := at_read t, zeroReads := 0\<rparr> in
              if rd_err t = Some EOF then
                bind_outcome (processChunk (rd_data t) (at_write t) c1) (\<lambda>(err, c2).
                  case err of Some e \<Rightarrow> Ok (Return (Some e) s1 c2) | None \<Rightarrow> Ok (Return (Some EOF) s1 c2))
              else case rd_err t of
                Some e \<Rightarrow>
                  if shouldRetry c1 timeout
                  then Ok (Continue (s1\<lparr>backoff := snd (Sleep (ctx_left t) (backoff s1)), lastErr := at_end t\<rparr>) c1)
                  else Ok (Return (Some e) s1 c1)
              | None \<Rightarrow>
                  bind_outcome (processChunk (rd_data t) (at_write t) c1) (\<lambda>(err, c2).
                    case err of
                      Some e \<Rightarrow> Ok (Return (Some e) s1 c2)
                    | None \<Rightarrow>
                        if at_end t - lastErr s1 \<ge> 1000000000
                        then Ok (Continue (s1\<lparr>backoff := Reset (backoff s1), lastErr := at_end t\<rparr>) c2)
                        else Ok (Continue s1 c2)))"

section \<open>The loop\<close>

fun write_loop :: "int \<Rightarrow> tick list \<Rightarrow> loop_state \<Rightarrow> Coord \<Rightarrow> go_error option loop_step outcome" where
  "write_loop timeout [] s c = Ok (Continue s c)"
| "write_loop timeout (t # ts) s c =
     (let c0 = foldl coord_step c (before t) in
      if cstate c0 \<noteq> StateActive then Ok (Return None s c0)
      else bind_outcome (loop_body timeout t s c0) (\<lambda>r.
        case r of Return e s' c' \<Rightarrow> Ok (Return e s' c') | Continue s' c' \<Rightarrow> write_loop timeout ts s' c'))"

definition start_state :: "int \<Rightarrow> Coord \<Rightarrow> loop_state" where
  "start_state now c =
     \<lparr>lastSuccess = now, lastErr = now, zeroReads = 0, readCount = 0,
      backoff = NewBackoffStrategy (InitialBackoff (config c))
        (int64 (int64 (TimeoutSeconds (config c) - 1) * 1000000000))\<rparr>"

definition readAndWriteStream :: "int \<Rightarrow> tick list \<Rightarrow> Coord \<Rightarrow> go_error option loop_step outcome" where
  "readAndWriteStream now ts c = write_loop (getTimeoutDuration c) ts (start_state now c) c"

section \<open>StartMediaWriter\<close>

text \<open>
  \<open>WStuck\<close>: a panic of \<open>Write\<close> leaves \<open>Mu\<close> locked, so the \<open>writeError\<close> of the deferred function
  that recovers from it waits for the lock forever; the release of the connection, deferred
  later, has run by then.  (Only the nil ring panics; what other goroutines did to the
  coordinator up to then is not kept in that branch.)
\<close>

datatype writer_end = WRunning | WDone | WStuck

definition started :: "LoadBalancerResult \<Rightarrow> Coord \<Rightarrow> Coord" where
  "started lb c = c\<lparr>LBResultOnWrite := Some lb,
     WriterRespHeader := Some (RespHeader (lbResponse lb)), respHeaderSet := True\<rparr>"

text \<open>The \<open>switch\<close> on the error of the loop; \<open>ctx_now\<close> is \<open>ctx.Err()\<close> at that moment.\<close>

definition report_error :: "go_error option \<Rightarrow> int \<Rightarrow> go_error \<Rightarrow> Coord \<Rightarrow> Coord outcome" where
  "report_error ctx_now now e c =
     (if Some e = ctx_now then writeError ctx_now StatusClientClosed now c
      else if equals_fresh_errorf e ''stream timeout: no new segments''
      then writeError None StatusServerError now c
      else if e = EOF then writeError (Some EOF) StatusEOF now c
      else writeError (Some e) StatusServerError now c)"

definition StartMediaWriter ::
    "environ \<Rightarrow> LoadBalancerResult \<Rightarrow> int \<Rightarrow> tick list \<Rightarrow> go_error option \<Rightarrow> int
      \<Rightarrow> ConcurrencyManager \<Rightarrow> Coord \<Rightarrow> writer_end \<times> ConcurrencyManager \<times> Coord" where
  "StartMediaWriter env lb now ts ctx_now t_end cm c =
     (let c0 = c\<lparr>LBResultOnWrite := Some lb, WriterRespHeader := None, respHeaderSet := False\<rparr>;
          cm1 = UpdateConcurrency env (lbIndex lb) True cm;
          c1 = c0\<lparr>WriterRespHeader := Some (RespHeader (lbResponse lb)), respHeaderSet := True\<rparr>;
          released = UpdateConcurrency env (lbIndex lb) False cm1
      in case readAndWriteStream now ts c1 of
           Panic m \<Rightarrow> (WStuck, released, c1\<lparr>LBResultOnWrite := None\<rparr>)
         | Ok (Continue s c2) \<Rightarrow> (WRunning, cm1, c2)
         | Ok (Return None s c2) \<Rightarrow> (WDone, released, c2\<lparr>LBResultOnWrite := None\<rparr>)
         | Ok (Return (Some e) s c2) \<Rightarrow>
             (case report_error ctx_now t_end e c2 of
                Ok c3 \<Rightarrow> (WDone, released, c3\<lparr>LBResultOnWrite := None\<rparr>)
              | Panic m \<Rightarrow> (WStuck, released, c2\<lparr>LBResultOnWrite := None\<rparr>)))"

section \<open>The loop keeps the coordinator well formed\<close>

lemma processChunk_ok:
  "ring_ok c \<Longrightarrow> processChunk b t c = Ok (None, after_write (data_chunk b t) c)"
  by (cases "cstate c = StateActive")
    (simp_all add: processChunk_def Write_active Write_inactive after_write_inactive)

lemma coord_ok_after_write: "coord_ok c \<Longrightarrow> coord_ok (after_write ch c)"
  using lifecycle.inv_step [of c "AWrite ch"] by simp

lemma coord_ok_ring: "coord_ok c \<Longrightarrow> ring_ok c"
  by (simp add: coord_ok_def)

lemma loop_body_ok:
  assumes "coord_ok c"
  shows "\<exists>r. loop_body timeout t s c = Ok r \<and> coord_ok (coord_of r)"
proof -
  have ok: "coord_ok (foldl coord_step c (during t))" using assms by (rule lifecycle.inv_run)
  show ?thesis
    using assms ok coord_ok_after_write [OF ok]
    by (simp add: loop_body_def Let_def processChunk_ok [OF coord_ok_ring [OF ok]] split: option.split)
qed

lemma write_loop_ok: "coord_ok c \<Longrightarrow> \<exists>r. write_loop timeout ts s c = Ok r \<and> coord_ok (coord_of r)"
proof (induction ts arbitrary: s c)
  case (Cons t ts)
  let ?c = "foldl coord_step c (before t)"
  have ok: "coord_ok ?c" using Cons.prems by (rule lifecycle.inv_run)
  obtain r where "loop_body timeout t s ?c = Ok r" "coord_ok (coord_of r)"
    using loop_body_ok [OF ok] by blast
  then show ?case
    using ok Cons.IH by (cases r) (simp_all add: Let_def)
qed simp

lemma readAndWriteStream_ok: "coord_ok c \<Longrightarrow> \<exists>r. readAndWriteStream now ts c = Ok r \<and> coord_ok (coord_of r)"
  by (simp add: readAndWriteStream_def write_loop_ok)

lemma coord_ok_fields [simp]:
  "coord_ok (c\<lparr>LBResultOnWrite := l\<rparr>) = coord_ok c" "coord_ok (c\<lparr>WriterRespHeader := h\<rparr>) = coord_ok c"
  "coord_ok (c\<lparr>respHeaderSet := b\<rparr>) = coord_ok c"
  by (simp_all add: coord_ok_def ring_ok_def)

lemma report_error_ok:
  assumes "coord_ok c"
  obtains c' where "report_error ctx_now t e c = Ok c'" "coord_ok c'" "cstate c' = StateClosed"
proof -
  have "\<exists>c'. writeError e' st t c = Ok c' \<and> coord_ok c' \<and> cstate c' = StateClosed" for e' st
    using lifecycle.inv_step [OF assms, of "AWriteError e' st t"]
    by (simp add: writeError_eq [OF coord_ok_ring [OF assms]])
  then have "\<exists>c'. report_error ctx_now t e c = Ok c' \<and> coord_ok c' \<and> cstate c' = StateClosed"
    by (simp add: report_error_def)
  with that show ?thesis by blast
qed

text \<open>C21. Whatever the source, the clock and the clients do, the media writer does not panic, counts
  one connection on its index while it runs and gives it back when it ends: every count is then
  as it was before, and no writer result is left behind.\<close>

theorem media_writer_returns_connection:
  assumes "coord_ok c" "counted 2147483646 cm"
  shows "case StartMediaWriter env lb now ts ctx_now t_end cm c of (fin, cm', c') \<Rightarrow>
    coord_ok c' \<and> fin \<noteq> WStuck
    \<and> (fin = WRunning \<longrightarrow> conn cm' = (conn cm)(lbIndex lb := Suc (conn cm (lbIndex lb))))
    \<and> (fin = WDone \<longrightarrow> conn cm' = conn cm \<and> LBResultOnWrite c' = None)"
proof -
  let ?c1 = "started lb c" let ?k = "lbIndex lb"
  have ok1: "coord_ok ?c1" using assms(1) by (simp add: started_def)
  obtain r where r: "readAndWriteStream now ts ?c1 = Ok r" "coord_ok (coord_of r)"
    using readAndWriteStream_ok [OF ok1] by blast
  note acq = conns.acquire_level [OF assms(2), of env ?k]
  note rel = acquire_release [OF assms(2), of env ?k]
  show ?thesis
  proof (cases r)
    case (Continue s c2)
    then show ?thesis using r acq by (simp add: StartMediaWriter_def Let_def started_def)
  next
    case (Return e s c2)
    show ?thesis
    proof (cases e)
      case None
      then show ?thesis using r rel Return by (simp add: StartMediaWriter_def Let_def started_def)
    next
      case (Some e')
      have "coord_ok c2" using r(2) Return by simp
      then obtain c3 where "report_error ctx_now t_end e' c2 = Ok c3" "coord_ok c3" "cstate c3 = StateClosed"
        by (rule report_error_ok)
      then show ?thesis using r rel Return Some by (simp add: StartMediaWriter_def Let_def started_def)
    qed
  qed
qed

text \<open>A concrete response, connection count and script for the examples below.\<close>

definition sample_lb :: LoadBalancerResult where
  "sample_lb = \<lparr>lbResponse = \<lparr>StatusCode = 200, RespHeader = [(''Content-Type'', [''video/mp2t''])],
     RequestPath = Some ''/a.ts'', RequestURL = ''http://h/a.ts''\<rparr>, lbURL = ''http://h/a.ts'',
     lbIndex = ''1'', lbSubIndex = ''a''\<rparr>"

definition sample_tick :: "string \<Rightarrow> go_error option \<Rightarrow> int \<Rightarrow> tick" where
  "sample_tick d e t = \<lparr>before = [], ctx_err = None, at_check = t, during = [], rd_data = d, rd_err = e,
     at_read = t, at_write = t, at_end = t, ctx_left = None\<rparr>"

lemma sample_coord: "coord_ok (NewStreamCoordinator ''id'' sample_config)"
  by (rule coord_ok_New) (simp_all add: sample_config_def)

lemma sample_counted: "counted 2147483646 NewConcurrencyManager"
  by (rule counted_mono [OF counted_New]) simp

theorem media_writer_returns_connection_witness:
  "case StartMediaWriter [] sample_lb 0 [sample_tick ''ab'' None 1, sample_tick ''c'' (Some EOF) 2] None 3
      NewConcurrencyManager (NewStreamCoordinator ''id'' sample_config) of (fin, cm', c') \<Rightarrow>
    coord_ok c' \<and> fin \<noteq> WStuck
    \<and> (fin = WRunning \<longrightarrow> conn cm' = (conn NewConcurrencyManager)
        (lbIndex sample_lb := Suc (conn NewConcurrencyManager (lbIndex sample_lb))))
    \<and> (fin = WDone \<longrightarrow> conn cm' = conn NewConcurrencyManager \<and> LBResultOnWrite c' = None)"
  by (rule media_writer_returns_connection [OF sample_coord sample_counted])

section \<open>What the loop copies\<close>

definition tick_chunk :: "tick \<Rightarrow> ChunkData" where
  "tick_chunk t = data_chunk (rd_data t) (at_write t)"

definition copied :: "tick \<Rightarrow> bool" where
  "copied t \<longleftrightarrow> rd_data t \<noteq> [] \<and> (rd_err t = None \<or> rd_err t = Some EOF)"

lemma tick_chunk_no_error [simp]: "\<not> is_error (tick_chunk t)"
  by (simp add: tick_chunk_def data_chunk_def is_error_def newChunkData_def)

lemma loop_body_calm:
  assumes "ring_ok c" "during t = []"
  shows "\<exists>r. loop_body timeout t s c = Ok r
    \<and> ((\<exists>e. r = Return e s c)
      \<or> readCount (loop_of r) = int64 (readCount s + 1)
        \<and> coord_of r = (if copied t then after_write (tick_chunk t) c else c))"
  using assms
  by (cases "ctx_err t"; cases "rd_err t"; cases "rd_data t = []"; cases "rd_err t = Some EOF")
    (simp_all add: loop_body_def Let_def processChunk_ok copied_def tick_chunk_def)

lemma loop_copies:
  "live (length ts) c \<Longrightarrow> \<forall>t \<in> set ts. before t = [] \<and> during t = [] \<Longrightarrow> 0 \<le> readCount s \<Longrightarrow>
    readCount s + int (length ts) < 9223372036854775808 \<Longrightarrow>
    \<exists>r k. write_loop timeout ts s c = Ok r \<and> k \<le> length ts \<and> readCount (loop_of r) = readCount s + int k
      \<and> coord_of r = writes (map tick_chunk (filter copied (take k ts))) c
      \<and> ((\<exists>s' c'. r = Continue s' c') \<longrightarrow> k = length ts)"
proof (induction ts arbitrary: s c)
  case Nil
  then show ?case by simp
next
  case (Cons t ts)
  have act: "cstate c = StateActive" "ring_ok c" using Cons.prems(1) by (simp_all add: live_def)
  obtain r where r: "loop_body timeout t s c = Ok r"
    "(\<exists>e. r = Return e s c) \<or> readCount (loop_of r) = readCount s + 1
        \<and> coord_of r = (if copied t then after_write (tick_chunk t) c else c)"
    using loop_body_calm [OF act(2), of t timeout s] Cons.prems by auto
  have loop: "write_loop timeout (t # ts) s c = (case r of Return e s' c' \<Rightarrow> Ok (Return e s' c')
      | Continue s' c' \<Rightarrow> write_loop timeout ts s' c')"
    using Cons.prems(2) act r(1) by simp
  show ?case
  proof (cases r)
    case (Return e s' c')
    show ?thesis
    proof (cases "\<exists>e. r = Return e s c")
      case True
      with loop Return show ?thesis by (intro exI [of _ r] exI [of _ 0]) auto
    next
      case False
      with loop Return r(2) show ?thesis by (intro exI [of _ r] exI [of _ 1]) auto
    qed
  next
    case (Continue s1 c1)
    with r(2) have n: "readCount s1 = readCount s + 1"
      "c1 = (if copied t then after_write (tick_chunk t) c else c)" by auto
    have "live (length ts) c1"
      using n(2) live_after_write(1) [of "length ts" c "tick_chunk t"] Cons.prems(1)
        live_mono [of "length (t # ts)" c "length ts"] by simp
    from Cons.IH [OF this, of s1] obtain r' k where k: "write_loop timeout ts s1 c1 = Ok r'" "k \<le> length ts"
      "readCount (loop_of r') = readCount s1 + int k"
      "coord_of r' = writes (map tick_chunk (filter copied (take k ts))) c1"
      "(\<exists>s' c'. r' = Continue s' c') \<longrightarrow> k = length ts"
      using Cons.prems n(1) by auto
    with loop Continue n show ?thesis by (intro exI [of _ r'] exI [of _ "Suc k"]) auto
  qed
qed

text \<open>Left alone by the clients, the loop puts into the ring exactly the data of the reads it made
  that ended without an error or at the end of the body, in order and once; empty reads and
  reads that return data together with another error leave nothing.  One read is made per
  iteration, and as long as the loop goes on it has made all of them.\<close>

theorem writer_copies_successful_reads:
  assumes "live (length ts) c" "\<forall>t \<in> set ts. before t = [] \<and> during t = []"
  shows "\<exists>r. readAndWriteStream now ts c = Ok r
    \<and> (let reads = take (nat (readCount (loop_of r))) ts in
       coord_of r = writes (map tick_chunk (filter copied reads)) c
       \<and> ((\<exists>s' c'. r = Continue s' c') \<longrightarrow> reads = ts))"
proof -
  have "readCount (start_state now c) = 0" by (simp add: start_state_def)
  moreover from this have "readCount (start_state now c) + int (length ts) < 9223372036854775808"
    using assms(1) by (simp add: live_def)
  ultimately obtain r k where "write_loop (getTimeoutDuration c) ts (start_state now c) c = Ok r"
    "k \<le> length ts" "readCount (loop_of r) = int k"
    "coord_of r = writes (map tick_chunk (filter copied (take k ts))) c"
    "(\<exists>s' c'. r = Continue s' c') \<longrightarrow> k = length ts"
    using loop_copies [OF assms, of "start_state now c" "getTimeoutDuration c"] by auto
  then show ?thesis
    by (intro exI [of _ r]) (auto simp: readAndWriteStream_def Let_def)
qed

theorem writer_copies_successful_reads_witness:
  "let c = NewStreamCoordinator ''id'' sample_config;
       ts = [sample_tick ''ab'' None 1, sample_tick ''x'' (Some (Errorf ''reset'')) 2, sample_tick ''c'' (Some EOF) 3] in
   \<exists>r. readAndWriteStream 0 ts c = Ok r
    \<and> (let reads = take (nat (readCount (loop_of r))) ts in
       coord_of r = writes (map tick_chunk (filter copied reads)) c
       \<and> ((\<exists>s' c'. r = Continue s' c') \<longrightarrow> reads = ts))"
proof -
  let ?ts = "[sample_tick ''ab'' None 1, sample_tick ''x'' (Some (Errorf ''reset'')) 2, sample_tick ''c'' (Some EOF) 3]"
  have "live (length ?ts) (NewStreamCoordinator ''id'' sample_config)" by (rule live_sample) simp
  moreover have "\<forall>t \<in> set ?ts. before t = [] \<and> during t = []" by (simp add: sample_tick_def)
  ultimately show ?thesis unfolding Let_def by (rule writer_copies_successful_reads [unfolded Let_def])
qed

section \<open>From the body to the viewer\<close>

text \<open>No context is done and no read comes later than the timeout after the last successful one.\<close>

fun in_time :: "int \<Rightarrow> int \<Rightarrow> tick list \<Rightarrow> bool" where
  "in_time timeout prev [] = True"
| "in_time timeout prev (t # ts) =
     (ctx_err t = None \<and> at_check t - prev < timeout \<and> in_time timeout (at_read t) ts)"

text \<open>A body of non-empty reads, the last of which comes with the end of the file.\<close>

definition whole_body :: "tick list \<Rightarrow> bool" where
  "whole_body ts \<longleftrightarrow> ts \<noteq> [] \<and> (\<forall>t \<in> set ts. before t = [] \<and> during t = [] \<and> rd_data t \<noteq> [])
     \<and> (\<forall>t \<in> set (butlast ts). rd_err t = None) \<and> rd_err (last ts) = Some EOF"

lemma loop_until_EOF:
  "live (length ts) c \<Longrightarrow> whole_body ts \<Longrightarrow> in_time timeout (lastSuccess s) ts \<Longrightarrow>
    \<exists>s'. write_loop timeout ts s c = Ok (Return (Some EOF) s' (writes (map tick_chunk ts) c))"
proof (induction ts arbitrary: s c)
  case Nil
  then show ?case by (simp add: whole_body_def)
next
  case (Cons t ts)
  have c: "ring_ok c" "cstate c = StateActive" using Cons.prems(1) by (simp_all add: live_def)
  have t: "before t = []" "during t = []" "rd_data t \<noteq> []" "ctx_err t = None"
    "\<not> shouldTimeout c (at_check t) (lastSuccess s) timeout"
    using Cons.prems(2,3) by (simp_all add: whole_body_def shouldTimeout_def)
  show ?case
  proof (cases "ts = []")
    case True
    with Cons.prems(2) have "rd_err t = Some EOF" by (simp add: whole_body_def)
    with t c True show ?thesis
      by (simp add: loop_body_def Let_def processChunk_ok tick_chunk_def)
  next
    case False
    with Cons.prems(2) have e: "rd_err t = None" "whole_body ts" by (auto simp: whole_body_def)
    obtain s1 where s1: "loop_body timeout t s c = Ok (Continue s1 (after_write (tick_chunk t) c))"
      "lastSuccess s1 = at_read t"
      using t c e by (cases "at_end t - lastErr s \<ge> 1000000000") (simp_all add: loop_body_def Let_def processChunk_ok tick_chunk_def)
    have "live (length ts) (after_write (tick_chunk t) c)"
      using live_after_write(1) [of "length ts" c "tick_chunk t"] Cons.prems(1) by simp
    from Cons.IH [OF this e(2), of s1] Cons.prems(3) s1 t c show ?thesis by auto
  qed
qed

lemma ReadChunks_LBResult [simp]:
  "ReadChunks p (c\<lparr>LBResultOnWrite := l\<rparr>) = ReadChunks p c"
  by (simp add: ReadChunks_def ReadFrom_def start_position_def must_wait_def Let_def cong: option.case_cong if_cong)

lemma started_simps [simp]:
  "live m (started lb c) = live m c" "slots (started lb c) = slots c" "wpos (started lb c) = wpos c"
  "getTimeoutDuration (started lb c) = getTimeoutDuration c" "config (started lb c) = config c"
  by (simp_all add: started_def live_def ring_ok_def getTimeoutDuration_def)

lemma writer_whole_body:
  assumes "live (Suc (length ts)) c" "whole_body ts" "in_time (getTimeoutDuration c) now ts"
  shows "StartMediaWriter env lb now ts None t_end cm c =
    (WDone, UpdateConcurrency env (lbIndex lb) False (UpdateConcurrency env (lbIndex lb) True cm),
     (ended (map tick_chunk ts) (Some EOF) StatusEOF t_end (started lb c))\<lparr>LBResultOnWrite := None\<rparr>)"
proof -
  let ?c = "started lb c" let ?w = "writes (map tick_chunk ts) ?c"
  have l: "live (length ts) ?c" using assms(1) live_mono by simp
  obtain s' where loop: "readAndWriteStream now ts ?c = Ok (Return (Some EOF) s' ?w)"
    using loop_until_EOF [OF l assms(2), of "getTimeoutDuration c" "start_state now ?c"] assms(3)
    by (auto simp: readAndWriteStream_def start_state_def)
  have "live 0 ?w" using writes_live [of "map tick_chunk ts" 0 ?c] l by auto
  then have ok: "ring_ok ?w" by (simp add: live_def)
  have "report_error None t_end EOF ?w = Ok (ended (map tick_chunk ts) (Some EOF) StatusEOF t_end ?c)"
    by (simp add: report_error_def equals_fresh_errorf_def ended_def writeError_eq [OF ok])
  with loop show ?thesis by (simp add: StartMediaWriter_def Let_def started_def)
qed

lemma delivered_tick_chunks:
  "\<forall>t \<in> set ts. rd_data t \<noteq> [] \<Longrightarrow>
    concat (map (the \<circ> Buffer) (delivered (map tick_chunk ts))) = concat (map rd_data ts)"
proof (induction ts)
  case (Cons t ts)
  then have "has_data (tick_chunk t)" by (cases "rd_data t") (auto simp: has_data_def tick_chunk_def data_chunk_def)
  with Cons show ?case by (simp add: delivered_def data_copy_def tick_chunk_def data_chunk_def)
qed (simp add: delivered_def)

text \<open>
  The calls the media writer makes on the ring: one for each read it copied, and the one for the
  error its loop has ended with.
\<close>

definition media_end :: "go_error option \<Rightarrow> go_error \<Rightarrow> go_error option \<times> int" where
  "media_end ctx_now e =
     (if Some e = ctx_now then (ctx_now, StatusClientClosed)
      else if equals_fresh_errorf e ''stream timeout: no new segments'' then (None, StatusServerError)
      else if e = EOF then (Some EOF, StatusEOF)
      else (Some e, StatusServerError))"

definition media_calls :: "tick list \<Rightarrow> go_error option \<Rightarrow> go_error \<Rightarrow> int \<Rightarrow> coord_act list" where
  "media_calls reads ctx_now e now =
     map AWrite (map tick_chunk reads) @ [AWriteError (fst (media_end ctx_now e)) (snd (media_end ctx_now e)) now]"

definition copied_reads :: "tick list \<Rightarrow> loop_state \<Rightarrow> tick list" where
  "copied_reads ts s = filter copied (take (nat (readCount s)) ts)"

lemma media_end_is_error: "fst (media_end ctx_now e) \<noteq> None \<or> snd (media_end ctx_now e) \<noteq> 0"
  by (auto simp: media_end_def status_defs)

lemma media_end_EOF [simp]: "media_end None EOF = (Some EOF, StatusEOF)"
  by (simp add: media_end_def equals_fresh_errorf_def)

lemma foldl_writes: "foldl coord_step c (map AWrite ws) = writes ws c"
  by (induction ws arbitrary: c) simp_all

lemma media_calls_ended:
  "foldl coord_step c (media_calls reads ctx_now e now) =
    ended (map tick_chunk reads) (fst (media_end ctx_now e)) (snd (media_end ctx_now e)) now c"
  unfolding media_calls_def ended_def foldl_append foldl_writes by simp

text \<open>Left alone by the clients, the writer does to the coordinator what these calls do, in their
  order, and nothing else but to set and to forget what it serves.\<close>

lemma media_writer_calls:
  assumes "live (Suc (length ts)) c" "\<forall>t \<in> set ts. before t = [] \<and> during t = []"
    and "readAndWriteStream now ts (started lb c) = Ok (Return (Some e) s c2)"
  shows "StartMediaWriter env lb now ts ctx_now t_end cm c =
    (WDone, UpdateConcurrency env (lbIndex lb) False (UpdateConcurrency env (lbIndex lb) True cm),
     (foldl coord_step (started lb c) (media_calls (copied_reads ts s) ctx_now e t_end))\<lparr>LBResultOnWrite := None\<rparr>)"
    "length (copied_reads ts s) \<le> length ts"
proof -
  let ?c = "started lb c" let ?w = "map tick_chunk (copied_reads ts s)"
  have l: "live (length ts) ?c" using assms(1) live_mono by simp
  have "readCount (start_state now ?c) = 0" by (simp add: start_state_def)
  moreover from this have "readCount (start_state now ?c) + int (length ts) < 9223372036854775808"
    using l by (simp add: live_def)
  ultimately have c2: "c2 = writes ?w ?c"
    using loop_copies [OF l assms(2), of "start_state now ?c" "getTimeoutDuration ?c"] assms(3)
    by (auto simp: readAndWriteStream_def copied_reads_def)
  show len: "length (copied_reads ts s) \<le> length ts"
    unfolding copied_reads_def by (rule le_trans [OF length_filter_le]) simp
  then have "live (length ?w + 0) ?c" using l live_mono by simp
  then have "live 0 c2" using writes_live [of ?w 0 ?c] unfolding c2 by auto
  then have ok: "ring_ok c2" by (simp add: live_def)
  have "report_error ctx_now t_end e c2 =
      writeError (fst (media_end ctx_now e)) (snd (media_end ctx_now e)) t_end c2"
    by (simp add: report_error_def media_end_def)
  also have "\<dots> = Ok (foldl coord_step ?c (media_calls (copied_reads ts s) ctx_now e t_end))"
    using writeError_eq [OF ok] unfolding media_calls_ended ended_def c2 by simp
  finally show "StartMediaWriter env lb now ts ctx_now t_end cm c =
    (WDone, UpdateConcurrency env (lbIndex lb) False (UpdateConcurrency env (lbIndex lb) True cm),
     (foldl coord_step (started lb c) (media_calls (copied_reads ts s) ctx_now e t_end))\<lparr>LBResultOnWrite := None\<rparr>)"
    using assms(3) by (simp add: StartMediaWriter_def Let_def started_def)
qed

lemma filter_all_length: "length (filter P (take k xs)) = length xs \<Longrightarrow> filter P (take k xs) = xs"
proof -
  assume l: "length (filter P (take k xs)) = length xs"
  have "length (filter P (take k xs)) \<le> length (take k xs)" by (rule length_filter_le)
  then have "take k xs = xs" using l by simp
  with l show "filter P (take k xs) = xs" by (metis filter_True length_filter_less less_irrefl)
qed

text \<open>All reads of a whole body are copied.\<close>

lemma whole_body_reads:
  assumes "live (length ts) c" "whole_body ts" "in_time (getTimeoutDuration c) now ts"
  obtains s' where "readAndWriteStream now ts c = Ok (Return (Some EOF) s' (writes (map tick_chunk ts) c))"
    "copied_reads ts s' = ts"
proof -
  obtain s' where r: "write_loop (getTimeoutDuration c) ts (start_state now c) c
      = Ok (Return (Some EOF) s' (writes (map tick_chunk ts) c))"
    using loop_until_EOF [OF assms(1,2), of "getTimeoutDuration c" "start_state now c"] assms(3)
    by (auto simp: start_state_def)
  have calm: "\<forall>t \<in> set ts. before t = [] \<and> during t = []" using assms(2) by (simp add: whole_body_def)
  have z: "readCount (start_state now c) = 0" by (simp add: start_state_def)
  then have "readCount (start_state now c) + int (length ts) < 9223372036854775808"
    using assms(1) by (simp add: live_def)
  with loop_copies [OF assms(1) calm, of "start_state now c" "getTimeoutDuration c"] z r
  obtain k where k: "readCount s' = int k"
    "writes (map tick_chunk ts) c = writes (map tick_chunk (filter copied (take k ts))) c" by auto
  let ?us = "filter copied (take k ts)"
  have q: "writeSeq (writes (map tick_chunk us) c) = writeSeq c + int (length us)" if "length us \<le> length ts" for us
    using writes_live [of "map tick_chunk us" 0 c] live_mono [OF assms(1) that] by simp
  have le: "length ?us \<le> length ts" by (rule le_trans [OF length_filter_le]) simp
  have "length ?us = length ts" using q [OF le] q [of ts] k(2) by simp
  then have "copied_reads ts s' = ts" using k(1) filter_all_length by (simp add: copied_reads_def)
  with r show thesis by (intro that) (simp_all add: readAndWriteStream_def)
qed

section \<open>A source that fails without data\<close>

lemma loop_empty_reads:
  "ring_ok c \<Longrightarrow> cstate c = StateActive \<Longrightarrow>
    \<forall>t \<in> set ts. before t = [] \<and> during t = [] \<and> ctx_err t = None \<and> rd_data t = []
      \<and> at_check t - lastSuccess s < timeout \<Longrightarrow>
    0 \<le> zeroReads s \<Longrightarrow> zeroReads s + int (length ts) \<le> 11 \<Longrightarrow> ts \<noteq> [] \<Longrightarrow>
    \<exists>s'. write_loop timeout ts s c =
      Ok (if zeroReads s + int (length ts) = 11 then Return (Some EOF) s' c else Continue s' c)"
proof (induction ts arbitrary: s)
  case (Cons t ts)
  let ?s = "s\<lparr>readCount := int64 (readCount s + 1), zeroReads := zeroReads s + 1\<rparr>"
  have t: "before t = []" "during t = []" "ctx_err t = None" "rd_data t = []"
    "\<not> shouldTimeout c (at_check t) (lastSuccess s) timeout"
    using Cons.prems(3) by (simp_all add: shouldTimeout_def)
  have step: "loop_body timeout t s c = Ok (if zeroReads s + 1 > 10 then Return (Some EOF) ?s c else Continue ?s c)"
    using t by (simp add: loop_body_def)
  show ?case
  proof (cases "ts = []")
    case True
    with step t Cons.prems show ?thesis by auto
  next
    case False
    then have "1 \<le> length ts" by (cases ts) simp_all
    then have "\<not> zeroReads s + 1 > 10" using Cons.prems(5) by (simp only: length_Cons)
    moreover have "\<exists>s'. write_loop timeout ts ?s c =
        Ok (if zeroReads ?s + int (length ts) = 11 then Return (Some EOF) s' c else Continue s' c)"
      by (rule Cons.IH) (use Cons.prems False in simp_all)
    ultimately show ?thesis using step t Cons.prems(2) by (simp add: algebra_simps)
  qed
qed simp

text \<open>Eleven reads in a row without data end the stream as if the body had ended, whatever errors
  they came with: the test for an empty read precedes every test of the error.  Ten do not, and
  the clients of the eleven get an end of file and not the error.\<close>

theorem failing_source_reported_as_EOF:
  assumes "coord_ok c" "cstate c = StateActive" "length ts = 11"
    and "\<forall>t \<in> set ts. before t = [] \<and> during t = [] \<and> ctx_err t = None \<and> rd_data t = []
      \<and> at_check t - now < getTimeoutDuration c"
  shows "\<exists>cm' c'. StartMediaWriter env lb now ts None t_end cm c = (WDone, cm', c')
      \<and> cstate c' = StateClosed
      \<and> last (ring_view c') = stored (int64 (writeSeq c + 1)) (error_chunk (Some EOF) StatusEOF t_end)
    \<and> fst (StartMediaWriter env lb now (take 10 ts) None t_end cm c) = WRunning"
proof -
  let ?c = "started lb c" let ?ech = "error_chunk (Some EOF) StatusEOF t_end"
  have c: "ring_ok ?c" "cstate ?c = StateActive" "writeSeq ?c = writeSeq c"
    using assms(1,2) by (simp_all add: coord_ok_def started_def ring_ok_def)
  have all: "\<forall>t \<in> set us. before t = [] \<and> during t = [] \<and> ctx_err t = None \<and> rd_data t = []
      \<and> at_check t - lastSuccess (start_state now ?c) < getTimeoutDuration ?c" if "set us \<subseteq> set ts" for us
    using assms(4) that by (auto simp: start_state_def)
  have z: "zeroReads (start_state now ?c) = 0" by (simp add: start_state_def)
  note e = loop_empty_reads [OF c(1,2) all, unfolded z]
  have "ts \<noteq> []" using assms(3) by auto
  with e [of ts] assms(3) obtain s' where 1: "readAndWriteStream now ts ?c = Ok (Return (Some EOF) s' ?c)"
    by (auto simp: readAndWriteStream_def)
  have "set (take 10 ts) \<subseteq> set ts" "length (take 10 ts) = 10" "take 10 ts \<noteq> []"
    using assms(3) by (auto dest: in_set_takeD)
  with e [of "take 10 ts"] obtain s2 where 2: "readAndWriteStream now (take 10 ts) ?c = Ok (Continue s2 ?c)"
    by (auto simp: readAndWriteStream_def)
  have rep: "report_error None t_end EOF ?c = Ok ((after_write ?ech ?c)\<lparr>cstate := StateClosed\<rparr>)"
    by (simp add: report_error_def equals_fresh_errorf_def writeError_eq [OF c(1)])
  have "last (ring_view (after_write ?ech ?c)) = stored (int64 (writeSeq c + 1)) ?ech"
    by (simp add: ring_view_after_write [OF c(1,2)] c(3))
  then show ?thesis
    using 1 2 rep by (simp add: StartMediaWriter_def Let_def started_def ring_view_def)
qed

theorem failing_source_reported_as_EOF_witness:
  "let c = NewStreamCoordinator ''id'' sample_config;
       ts = replicate 11 (sample_tick [] (Some (Errorf ''connection reset'')) 1) in
   \<exists>cm' c'. StartMediaWriter [] sample_lb 0 ts None 3 NewConcurrencyManager c = (WDone, cm', c')
      \<and> cstate c' = StateClosed
      \<and> last (ring_view c') = stored (int64 (writeSeq c + 1)) (error_chunk (Some EOF) StatusEOF 3)
    \<and> fst (StartMediaWriter [] sample_lb 0 (take 10 ts) None 3 NewConcurrencyManager c) = WRunning"
  unfolding Let_def
  by (rule failing_source_reported_as_EOF [OF sample_coord])
    (simp_all add: sample_tick_def getTimeoutDuration_def NewStreamCoordinator_def sample_config_def)

end
