(* ===== verification/HLS.thy ===== *)
theory HLS
  imports StreamWriter
begin

text \<open>
  \<^verbatim>\<open>proxy/stream/buffer/coordinator_m3u8.go\<close>: the playlist parser and the HLS writer, which polls a
  playlist, streams its segments one after the other through \<open>readAndWriteStream\<close> and counts as
  one connection.  The URL functions of \<open>net/url\<close> are an argument (\<open>url_lib\<close>): every theorem holds
  for whatever they compute.  The floating-point target duration and the random jitter only set
  the polling interval, which is a value of the script.
\<close>

section \<open>Reading lines and numbers\<close>

text \<open>
  \<open>bufio.Scanner\<close>: the lines of a text without their line ends; a line of 65536 bytes or more
  stops the scan with an error.
\<close>

definition scan_lines :: "string \<Rightarrow> string list \<times> go_error option" where
  "scan_lines s = scan_tokens 65536 s"

text \<open>The \<open>%d\<close> of \<open>fmt.Sscanf\<close>: spaces, a sign, digits; nothing is stored on an error.\<close>

definition scan_int :: "string \<Rightarrow> int option" where
  "scan_int s =
     (let t = repeat_strip (length s) strip1 s;
          sg = take 1 (if t \<noteq> [] \<and> (hd t = CHR ''+'' \<or> hd t = CHR ''-'') then t else []);
          ds = takeWhile is_digit (drop (length sg) t)
      in case Atoi (sg @ ds) of (v, ok) \<Rightarrow> if ok then Some v else None)"

section \<open>Playlists\<close>

record PlaylistMetadata =
  MediaSequence :: int
  Version :: int
  IsEndlist :: bool
  Segments :: "string list"
  IsMaster :: bool

record url_lib =
  url_ok :: "string \<Rightarrow> bool"
  url_error :: "string \<Rightarrow> string"
  url_IsAbs :: "string \<Rightarrow> bool"
  url_String :: "string \<Rightarrow> string"
  url_Resolve :: "string \<Rightarrow> string \<Rightarrow> string"

definition segment_url :: "url_lib \<Rightarrow> string \<Rightarrow> string \<Rightarrow> string" where
  "segment_url U base line = (if url_IsAbs U line then url_String U line else url_Resolve U base line)"

text \<open>
  The cases of the \<open>switch\<close> in order; \<open>None\<close> is the early return on a master playlist.
\<close>

definition parse_line :: "url_lib \<Rightarrow> string \<Rightarrow> string \<Rightarrow> PlaylistMetadata \<Rightarrow> PlaylistMetadata option" where
  "parse_line U base line m =
     (if HasPrefix line ''#EXTM3U'' then Some m
      else if HasPrefix line ''#EXT-X-STREAM-INF'' then None
      else if HasPrefix line ''#EXT-X-VERSION:'' then
        Some (case scan_int (TrimPrefix line ''#EXT-X-VERSION:'') of
                None \<Rightarrow> m | Some v \<Rightarrow> m\<lparr>Version := v\<rparr>)
      else if HasPrefix line ''#EXT-X-TARGETDURATION:'' then Some m
      else if HasPrefix line ''#EXT-X-MEDIA-SEQUENCE:'' then
        Some (case scan_int (TrimPrefix line ''#EXT-X-MEDIA-SEQUENCE:'') of
                None \<Rightarrow> m | Some v \<Rightarrow> m\<lparr>MediaSequence := v\<rparr>)
      else if line = ''#EXT-X-ENDLIST'' then Some (m\<lparr>IsEndlist := True\<rparr>)
      else if \<not> HasPrefix line ''#'' \<and> line \<noteq> [] then
        (if url_ok U line then Some (m\<lparr>Segments := Segments m @ [segment_url U base line]\<rparr>) else Some m)
      else Some m)"

text \<open>The scan loop; its flag says that it returned from within.\<close>

fun parse_lines :: "url_lib \<Rightarrow> string \<Rightarrow> string list \<Rightarrow> PlaylistMetadata \<Rightarrow> bool \<times> PlaylistMetadata" where
  "parse_lines U base [] m = (False, m)"
| "parse_lines U base (l # ls) m =
     (case parse_line U base (TrimSpace l) m of
        None \<Rightarrow> (True, m\<lparr>IsMaster := True\<rparr>)
      | Some m' \<Rightarrow> parse_lines U base ls m')"

definition empty_metadata :: PlaylistMetadata where
  "empty_metadata = \<lparr>MediaSequence = 0, Version = 0, IsEndlist = False, Segments = [], IsMaster = False\<rparr>"

definition parsePlaylist :: "url_lib \<Rightarrow> string \<Rightarrow> string \<Rightarrow> go_error + PlaylistMetadata" where
  "parsePlaylist U mediaURL content =
     (if \<not> url_ok U mediaURL then Inl (Errorf (''failed to parse base URL: '' @ url_error U mediaURL))
      else let (ls, err) = scan_lines content; (stop, m) = parse_lines U mediaURL ls empty_metadata in
        if stop then Inr m else case err of Some e \<Rightarrow> Inl e | None \<Rightarrow> Inr m)"

section \<open>Segments\<close>

text \<open>
  One segment of the script: whether the context is done before it, and what the source answers at
  that moment to a request for a URL, with the script of the body.
\<close>

datatype fetch = FetchErr string | FetchNil | Fetched int header int "tick list"

record seg_script =
  seg_ctx :: "go_error option"
  seg_fetch :: "string \<Rightarrow> fetch"

datatype seg_end = SegRunning (seg_coord: Coord) | SegEnd "go_error option" (seg_coord: Coord)

definition first_header :: "header \<Rightarrow> Coord \<Rightarrow> Coord" where
  "first_header h c =
     (if m3uHeaderSet c then c
      else c\<lparr>m3uHeaderSet := True, WriterRespHeader := Some (header_Del h ''Content-Length''),
             respHeaderSet := True\<rparr>)"

definition streamSegment :: "fetch \<Rightarrow> string \<Rightarrow> Coord \<Rightarrow> seg_end outcome" where
  "streamSegment f segmentURL c =
     (case f of
        FetchErr msg \<Rightarrow> Ok (SegEnd (Some (Errorf (''error fetching segment stream: '' @ msg))) c)
      | FetchNil \<Rightarrow> Ok (SegEnd (Some (Errorf ''returned nil response from HTTP client'')) c)
      | Fetched code h now ts \<Rightarrow>
          if code \<noteq> 200 then
            Ok (SegEnd (Some (Errorf (''Non-200 status code received: '' @ Itoa code @ '' for '' @ segmentURL))) c)
          else
            let h1 = (if header_Get h ''Content-Type'' = [] then header_Set h ''Content-Type'' ''video/MP2T'' else h);
                c1 = first_header h1 c
            in bind_outcome (readAndWriteStream now ts c1) (\<lambda>r.
                 case r of Continue s c2 \<Rightarrow> Ok (SegRunning c2) | Return e s c2 \<Rightarrow> Ok (SegEnd e c2)))"

text \<open>A script that ends before the playlist does leaves the writer running.\<close>

fun processSegments :: "seg_script list \<Rightarrow> string list \<Rightarrow> Coord \<Rightarrow> seg_end outcome" where
  "processSegments scr [] c = Ok (SegEnd None c)"
| "processSegments [] (u # us) c = Ok (SegRunning c)"
| "processSegments (s # ss) (u # us) c =
     (case seg_ctx s of
        Some e \<Rightarrow> Ok (SegEnd (Some e) c)
      | None \<Rightarrow> bind_outcome (streamSegment (seg_fetch s u) u c) (\<lambda>r.
          case r of
            SegRunning c' \<Rightarrow> Ok (SegRunning c')
          | SegEnd err c' \<Rightarrow>
              if err \<noteq> None \<and> err \<noteq> Some EOF then Ok (SegEnd err c') else processSegments ss us c'))"

section \<open>StartHLSWriter\<close>

text \<open>
  The body of the playlist response: the response of the load balancer, read once, and from then
  on the buffer the writer has put in its place.
\<close>

datatype hls_body = Remote string "go_error option" | Copied string

record hls_state =
  hlsErr :: "go_error option"
  lastChangeTime :: int
  lastMediaSeq :: int
  pollInterval :: int
  hlsBody :: hls_body

record hls_tick =
  h_before :: "coord_act list"
  h_ctx :: "go_error option"
  h_now :: int
  h_interval :: int
  h_changed :: int
  h_segments :: "seg_script list"
  h_ctx_after :: "go_error option"
  h_end :: int

text \<open>
  How an iteration ends: the loop goes on, it is inside a segment, the writer returns after
  reporting an error, it returns silently, or it panics outside the lock (which the deferred
  function reports).
\<close>

datatype hls_step =
    HContinue hls_state (hls_coord: Coord)
  | HInside (hls_coord: Coord)
  | HReport "go_error option" int int (hls_coord: Coord)
  | HSilent (hls_coord: Coord)
  | HPanic int (hls_coord: Coord)

definition read_body :: "hls_body \<Rightarrow> go_error + string" where
  "read_body b = (case b of Remote s None \<Rightarrow> Inr s | Remote s (Some e) \<Rightarrow> Inl e | Copied s \<Rightarrow> Inr s)"

definition hls_poll :: "url_lib \<Rightarrow> Response \<Rightarrow> hls_tick \<Rightarrow> hls_state \<Rightarrow> Coord \<Rightarrow> hls_step outcome" where
  "hls_poll U resp t s c =
     (if h_now t - lastChangeTime s > int64 (int64 (TimeoutSeconds (config c) * 1000000000) + pollInterval s)
      then Ok (HReport (Some (Errorf ''stream timeout: no new segments'')) StatusEOF (h_end t) c)
      else case read_body (hlsBody s) of
        Inl e \<Rightarrow> Ok (HReport (Some e) StatusServerError (h_end t) c)
      | Inr text \<Rightarrow>
          let s1 = s\<lparr>hlsBody := Copied text\<rparr> in
          if RequestPath resp = None then Ok (HPanic (h_end t) c)
          else case parsePlaylist U (RequestURL resp) text of
            Inl e \<Rightarrow> Ok (HReport (Some e) StatusServerError (h_end t) c)
          | Inr m \<Rightarrow>
              let s2 = s1\<lparr>pollInterval := h_interval t\<rparr> in
              if IsMaster m then
                Ok (HReport (Some (Errorf ''master playlist not supported'')) StatusServerError (h_end t) c)
              else if IsEndlist m then
                bind_outcome (processSegments (h_segments t) (Segments m) c) (\<lambda>r.
                  case r of
                    SegRunning c' \<Rightarrow> Ok (HInside c')
                  | SegEnd err c' \<Rightarrow> Ok (HReport (Some EOF) StatusEOF (h_end t) c'))
              else if MediaSequence m > lastMediaSeq s2 then
                let s3 = s2\<lparr>lastChangeTime := h_changed t, lastMediaSeq := MediaSequence m\<rparr> in
                bind_outcome (processSegments (h_segments t) (Segments m) c) (\<lambda>r.
                  case r of
                    SegRunning c' \<Rightarrow> Ok (HInside c')
                  | SegEnd None c' \<Rightarrow> Ok (HContinue s3 c')
                  | SegEnd (Some e) c' \<Rightarrow>
                      if h_ctx_after t \<noteq> None then Ok (HReport (Some e) StatusServerError (h_end t) c')
                      else Ok (HContinue (s3\<lparr>hlsErr := Some e\<rparr>) c'))
              else Ok (HContinue s2 c))"

fun hls_loop :: "url_lib \<Rightarrow> Response \<Rightarrow> hls_tick list \<Rightarrow> hls_state \<Rightarrow> Coord \<Rightarrow> hls_step outcome" where
  "hls_loop U resp [] s c = Ok (HContinue s c)"
| "hls_loop U resp (t # ts) s c =
     (let c0 = foldl coord_step c (h_before t) in
      if cstate c0 \<noteq> StateActive then Ok (HSilent c0)
      else case h_ctx t of
        Some e \<Rightarrow>
          (if hlsErr s = None then Ok (HReport (Some e) StatusClientClosed (h_end t) c0) else Ok (HSilent c0))
      | None \<Rightarrow> bind_outcome (hls_poll U resp t s c0) (\<lambda>r.
          case r of HContinue s' c' \<Rightarrow> hls_loop U resp ts s' c' | _ \<Rightarrow> Ok r))"

definition hls_start :: "int \<Rightarrow> string \<Rightarrow> go_error option \<Rightarrow> hls_state" where
  "hls_start now text err = \<lparr>hlsErr = None, lastChangeTime = now, lastMediaSeq = - 1,
     pollInterval = 1000000000, hlsBody = Remote text err\<rparr>"

text \<open>
  The whole writer: \<open>text\<close> and \<open>err\<close> are what the body of the response gives.  As in
  \<open>StartMediaWriter\<close>, the connection is released first, then the result is forgotten, then a
  panic outside the lock is reported.
\<close>

definition StartHLSWriter ::
    "environ \<Rightarrow> url_lib \<Rightarrow> LoadBalancerResult \<Rightarrow> int \<Rightarrow> string \<Rightarrow> go_error option \<Rightarrow> hls_tick list
      \<Rightarrow> ConcurrencyManager \<Rightarrow> Coord \<Rightarrow> writer_end \<times> ConcurrencyManager \<times> Coord" where
  "StartHLSWriter env U lb now text err ts cm c =
     (let c1 = c\<lparr>LBResultOnWrite := Some lb, WriterRespHeader := None, respHeaderSet := False,
                 m3uHeaderSet := False\<rparr>;
          cm1 = UpdateConcurrency env (lbIndex lb) True cm;
          released = UpdateConcurrency env (lbIndex lb) False cm1
      in case hls_loop U (lbResponse lb) ts (hls_start now text err) c1 of
           Panic m \<Rightarrow> (WStuck, released, c1\<lparr>LBResultOnWrite := None\<rparr>)
         | Ok (HContinue s c2) \<Rightarrow> (WRunning, cm1, c2)
         | Ok (HInside c2) \<Rightarrow> (WRunning, cm1, c2)
         | Ok (HSilent c2) \<Rightarrow> (WDone, released, c2\<lparr>LBResultOnWrite := None\<rparr>)
         | Ok (HReport e st t c2) \<Rightarrow>
             (case writeError e st t c2 of
                Ok c3 \<Rightarrow> (WDone, released, c3\<lparr>LBResultOnWrite := None\<rparr>)
              | Panic m \<Rightarrow> (WStuck, released, c2\<lparr>LBResultOnWrite := None\<rparr>))
         | Ok (HPanic t c2) \<Rightarrow>
             (case writeError (Some (Errorf ''internal server error'')) StatusServerError t
                     (c2\<lparr>LBResultOnWrite := None\<rparr>) of
                Ok c3 \<Rightarrow> (WDone, released, c3)
              | Panic m \<Rightarrow> (WStuck, released, c2\<lparr>LBResultOnWrite := None\<rparr>)))"

section \<open>The writer keeps the coordinator and its connection\<close>

lemma coord_ok_first_header [simp]: "coord_ok (first_header h c) = coord_ok c"
  by (simp add: first_header_def coord_ok_def ring_ok_def)

lemma streamSegment_ok:
  assumes "coord_ok c"
  shows "\<exists>r. streamSegment f u c = Ok r \<and> coord_ok (seg_coord r)"
proof (cases f)
  case (Fetched code h now ts)
  obtain r where "readAndWriteStream now ts (first_header (if header_Get h ''Content-Type'' = []
      then header_Set h ''Content-Type'' ''video/MP2T'' else h) c) = Ok r" "coord_ok (coord_of r)"
    using readAndWriteStream_ok assms coord_ok_first_header by blast
  with assms Fetched show ?thesis by (cases r) (simp_all add: streamSegment_def Let_def)
qed (use assms in \<open>simp_all add: streamSegment_def\<close>)

lemma processSegments_ok:
  "coord_ok c \<Longrightarrow> \<exists>r. processSegments scr us c = Ok r \<and> coord_ok (seg_coord r)"
proof (induction scr us c rule: processSegments.induct)
  case (3 s ss u us c)
  obtain r where r: "streamSegment (seg_fetch s u) u c = Ok r" "coord_ok (seg_coord r)"
    using streamSegment_ok [OF "3.prems"] by blast
  show ?case
    using r 3 by (cases r) (auto split: option.split)
qed simp_all

lemma hls_poll_ok:
  assumes "coord_ok c"
  shows "\<exists>r. hls_poll U resp t s c = Ok r \<and> coord_ok (hls_coord r)"
proof (cases "read_body (hlsBody s)")
  case (Inr content)
  show ?thesis
  proof (cases "parsePlaylist U (RequestURL resp) content")
    case (Inr m)
    obtain r where r: "processSegments (h_segments t) (Segments m) c = Ok r" "coord_ok (seg_coord r)"
      using processSegments_ok [OF assms] by blast
    from r assms Inr \<open>read_body (hlsBody s) = Inr content\<close> show ?thesis
      by (cases r) (auto simp: hls_poll_def Let_def split: option.split)
  qed (use assms Inr in \<open>simp add: hls_poll_def Let_def\<close>)
qed (use assms in \<open>simp add: hls_poll_def\<close>)

lemma hls_loop_ok: "coord_ok c \<Longrightarrow> \<exists>r. hls_loop U resp ts s c = Ok r \<and> coord_ok (hls_coord r)"
proof (induction ts arbitrary: s c)
  case (Cons t ts)
  let ?c = "foldl coord_step c (h_before t)"
  have ok: "coord_ok ?c" using Cons.prems by (rule lifecycle.inv_run)
  obtain r where "hls_poll U resp t s ?c = Ok r" "coord_ok (hls_coord r)"
    using hls_poll_ok [OF ok] by blast
  with Cons.IH ok show ?case
    by (cases r) (simp_all add: Let_def split: option.split)
qed simp

lemma writeError_ok:
  assumes "coord_ok c"
  obtains c' where "writeError e st t c = Ok c'" "coord_ok c'" "LBResultOnWrite c' = LBResultOnWrite c"
proof -
  have "LBResultOnWrite (after_write ch c) = LBResultOnWrite c" for ch
    by (auto simp: after_write_def Write_def Let_def notifySubscribers_def split: outcome.splits)
  with that show thesis
    using lifecycle.inv_step [OF assms, of "AWriteError e st t"]
    by (simp add: writeError_eq [OF coord_ok_ring [OF assms]])
qed

text \<open>C22. The HLS writer too counts one connection while it runs and gives it back however it ends:
  end of the playlist, timeout, cancelled context, unreadable playlist, or a panic on a response
  without a request.\<close>

theorem hls_writer_returns_connection:
  assumes "coord_ok c" "counted 2147483646 cm"
  shows "case StartHLSWriter env U lb now text err ts cm c of (fin, cm', c') \<Rightarrow>
    coord_ok c' \<and> fin \<noteq> WStuck
    \<and> (fin = WRunning \<longrightarrow> conn cm' = (conn cm)(lbIndex lb := Suc (conn cm (lbIndex lb))))
    \<and> (fin = WDone \<longrightarrow> conn cm' = conn cm \<and> LBResultOnWrite c' = None)"
proof -
  let ?c1 = "c\<lparr>LBResultOnWrite := Some lb, WriterRespHeader := None, respHeaderSet := False, m3uHeaderSet := False\<rparr>"
  have ok1: "coord_ok ?c1" using assms(1) by (simp add: coord_ok_def ring_ok_def)
  obtain r where r: "hls_loop U (lbResponse lb) ts (hls_start now text err) ?c1 = Ok r" "coord_ok (hls_coord r)"
    using hls_loop_ok [OF ok1] by blast
  note acq = conns.acquire_level [OF assms(2), of env "lbIndex lb"]
  note rel = acquire_release [OF assms(2), of env "lbIndex lb"]
  show ?thesis
  proof (cases r)
    case (HReport e st t c2)
    have "coord_ok c2" using r(2) HReport by simp
    then obtain c3 where "writeError e st t c2 = Ok c3" "coord_ok c3" "LBResultOnWrite c3 = LBResultOnWrite c2"
      by (rule writeError_ok)
    with r rel HReport show ?thesis by (simp add: StartHLSWriter_def Let_def)
  next
    case (HPanic t c2)
    have "coord_ok (c2\<lparr>LBResultOnWrite := None\<rparr>)" using r(2) HPanic by simp
    then obtain c3 where "writeError (Some (Errorf ''internal server error'')) StatusServerError t
        (c2\<lparr>LBResultOnWrite := None\<rparr>) = Ok c3" "coord_ok c3"
      "LBResultOnWrite c3 = LBResultOnWrite (c2\<lparr>LBResultOnWrite := None\<rparr>)"
      by (rule writeError_ok)
    with r rel HPanic show ?thesis by (simp add: StartHLSWriter_def Let_def)
  qed (use r acq rel in \<open>simp_all add: StartHLSWriter_def Let_def\<close>)
qed

text \<open>A playlist of one segment, and a script that streams it.\<close>

definition sample_urls :: url_lib where
  "sample_urls = \<lparr>url_ok = (\<lambda>_. True), url_error = (\<lambda>_. []), url_IsAbs = (\<lambda>l. HasPrefix l ''http''),
     url_String = (\<lambda>l. l), url_Resolve = (\<lambda>b l. ''http://h/'' @ l)\<rparr>"

definition sample_playlist :: string where
  "sample_playlist = ''#EXTM3U'' @ [newline] @ ''a.ts'' @ [newline]"

definition sample_seg :: "string \<Rightarrow> seg_script" where
  "sample_seg d = \<lparr>seg_ctx = None, seg_fetch = (\<lambda>_. Fetched 200 [] 0 [sample_tick d (Some EOF) 1])\<rparr>"

definition sample_htick :: "int \<Rightarrow> seg_script list \<Rightarrow> hls_tick" where
  "sample_htick t segs = \<lparr>h_before = [], h_ctx = None, h_now = t, h_interval = 1000000000, h_changed = t,
     h_segments = segs, h_ctx_after = None, h_end = t\<rparr>"

lemma sample_lines: "scan_lines sample_playlist = ([''#EXTM3U'', ''a.ts''], None)"
  by (simp add: scan_lines_def scan_tokens_def raw_lines_def sample_playlist_def newline_def drop_CR_def)

lemma sample_trim: "TrimSpace ''#EXTM3U'' = ''#EXTM3U''" "TrimSpace ''a.ts'' = ''a.ts''"
  by (simp_all add: TrimSpace_visible visible_def)

lemma sample_playlist_parse:
  "parsePlaylist sample_urls u sample_playlist =
    Inr \<lparr>MediaSequence = 0, Version = 0, IsEndlist = False, Segments = [''http://h/a.ts''], IsMaster = False\<rparr>"
  by (simp add: parsePlaylist_def sample_lines sample_trim parse_line_def sample_urls_def HasPrefix_def
      empty_metadata_def segment_url_def)

theorem hls_writer_returns_connection_witness:
  "case StartHLSWriter [] sample_urls sample_lb 0 sample_playlist None [sample_htick 1 [sample_seg ''ab'']]
      NewConcurrencyManager (NewStreamCoordinator ''id'' sample_config) of (fin, cm', c') \<Rightarrow>
    coord_ok c' \<and> fin \<noteq> WStuck
    \<and> (fin = WRunning \<longrightarrow> conn cm' = (conn NewConcurrencyManager)
        (lbIndex sample_lb := Suc (conn NewConcurrencyManager (lbIndex sample_lb))))
    \<and> (fin = WDone \<longrightarrow> conn cm' = conn NewConcurrencyManager \<and> LBResultOnWrite c' = None)"
  by (rule hls_writer_returns_connection [OF sample_coord sample_counted])

section \<open>Parsing\<close>

definition is_segment :: "string \<Rightarrow> bool" where
  "is_segment l \<longleftrightarrow> \<not> HasPrefix l ''#'' \<and> l \<noteq> []"

lemma HasPrefix_hash: "HasPrefix l (CHR ''#'' # p) \<Longrightarrow> HasPrefix l ''#''"
  by (cases l) (auto simp: HasPrefix_def)

lemma parse_line_media:
  assumes "\<not> HasPrefix l ''#EXT-X-STREAM-INF''"
  shows "\<exists>m'. parse_line U base l m = Some m'
    \<and> Segments m' = Segments m @ (if is_segment l \<and> url_ok U l then [segment_url U base l] else [])
    \<and> IsEndlist m' = (IsEndlist m \<or> l = ''#EXT-X-ENDLIST'') \<and> IsMaster m' = IsMaster m"
proof (cases "l = ''#EXT-X-ENDLIST''")
  case True
  then show ?thesis by (simp add: parse_line_def is_segment_def HasPrefix_def)
next
  case False
  show ?thesis
  proof (cases "HasPrefix l ''#''")
    case True
    with assms False show ?thesis by (simp add: parse_line_def is_segment_def split: option.split)
  next
    case nohash: False
    then have "\<not> HasPrefix l (CHR ''#'' # p)" for p using HasPrefix_hash by blast
    with nohash False show ?thesis by (simp add: parse_line_def is_segment_def)
  qed
qed

lemma parse_lines_spec:
  "\<forall>l \<in> set ls. \<not> HasPrefix (TrimSpace l) ''#EXT-X-STREAM-INF'' \<Longrightarrow>
    \<exists>m'. parse_lines U base ls m = (False, m')
      \<and> Segments m' = Segments m
          @ map (segment_url U base) (filter (\<lambda>l. is_segment l \<and> url_ok U l) (map TrimSpace ls))
      \<and> IsEndlist m' = (IsEndlist m \<or> ''#EXT-X-ENDLIST'' \<in> set (map TrimSpace ls))
      \<and> IsMaster m' = IsMaster m"
proof (induction ls arbitrary: m)
  case (Cons l ls)
  then have "\<not> HasPrefix (TrimSpace l) ''#EXT-X-STREAM-INF''" by simp
  from parse_line_media [OF this] obtain m1 where m1: "parse_line U base (TrimSpace l) m = Some m1"
    "Segments m1 = Segments m @ (if is_segment (TrimSpace l) \<and> url_ok U (TrimSpace l)
       then [segment_url U base (TrimSpace l)] else [])"
    "IsEndlist m1 = (IsEndlist m \<or> TrimSpace l = ''#EXT-X-ENDLIST'')" "IsMaster m1 = IsMaster m"
    by blast
  have "\<forall>l \<in> set ls. \<not> HasPrefix (TrimSpace l) ''#EXT-X-STREAM-INF''" using Cons.prems by simp
  from Cons.IH [OF this, of m1] m1 show ?case by auto
qed simp

text \<open>C24. A media playlist is read as its specification says: the segments are the lines that are
  neither empty nor start with a hash (trimmed, those that are URLs), in order, each made
  absolute against the playlist's own URL; the end marker is found wherever it stands.\<close>

theorem playlist_segments_in_order:
  assumes "scan_lines content = (ls, None)" "url_ok U base"
    and "\<forall>l \<in> set ls. \<not> HasPrefix (TrimSpace l) ''#EXT-X-STREAM-INF''"
  shows "\<exists>m. parsePlaylist U base content = Inr m \<and> \<not> IsMaster m
    \<and> Segments m = map (segment_url U base) (filter (\<lambda>l. is_segment l \<and> url_ok U l) (map TrimSpace ls))
    \<and> (IsEndlist m \<longleftrightarrow> ''#EXT-X-ENDLIST'' \<in> set (map TrimSpace ls))"
  using parse_lines_spec [OF assms(3), of U base empty_metadata] assms(1,2)
  by (auto simp: parsePlaylist_def empty_metadata_def)

theorem playlist_segments_in_order_witness:
  "\<exists>m. parsePlaylist sample_urls ''http://h/p'' sample_playlist = Inr m \<and> \<not> IsMaster m
    \<and> Segments m = map (segment_url sample_urls ''http://h/p'')
        (filter (\<lambda>l. is_segment l \<and> url_ok sample_urls l) (map TrimSpace [''#EXTM3U'', ''a.ts'']))
    \<and> (IsEndlist m \<longleftrightarrow> ''#EXT-X-ENDLIST'' \<in> set (map TrimSpace [''#EXTM3U'', ''a.ts'']))"
proof (rule playlist_segments_in_order)
  show "scan_lines sample_playlist = ([''#EXTM3U'', ''a.ts''], None)" by (rule sample_lines)
  show "url_ok sample_urls ''http://h/p''" by (simp add: sample_urls_def)
  show "\<forall>l \<in> set [''#EXTM3U'', ''a.ts'']. \<not> HasPrefix (TrimSpace l) ''#EXT-X-STREAM-INF''"
    by (simp add: sample_trim HasPrefix_def)
qed

lemma is_digit_not_sign: "is_digit c \<Longrightarrow> c \<noteq> CHR ''+'' \<and> c \<noteq> CHR ''-''"
  by (auto simp: is_digit_def)

lemma strip_Itoa: "repeat_strip k strip1 (Itoa n) = Itoa n"
proof -
  have "Itoa n \<noteq> [] \<and> visible (hd (Itoa n))"
  proof (cases "n < 0")
    case True
    then show ?thesis by (simp add: Itoa_def visible_def)
  next
    case False
    then show ?thesis
      using nat_digits_hd_digit [of "nat n"] by (cases "nat_digits (nat n)") (auto simp: Itoa_def visible_digit)
  qed
  then show ?thesis by (simp add: repeat_strip_None strip1_visible)
qed

lemma scan_Itoa:
  assumes "- 9223372036854775808 \<le> n" "n \<le> 9223372036854775807"
  shows "scan_int (Itoa n) = Some n"
proof (cases "n < 0")
  case True
  then have "Itoa n = ''-'' @ nat_digits (nat (- n))" by (simp add: Itoa_def)
  then show ?thesis
    using Atoi_Itoa [OF assms] unfolding scan_int_def strip_Itoa Let_def by simp
next
  case False
  then have n: "Itoa n = nat_digits (nat n)" by (simp add: Itoa_def)
  then have "hd (Itoa n) \<noteq> CHR ''+'' \<and> hd (Itoa n) \<noteq> CHR ''-''"
    using nat_digits_hd_digit [of "nat n"] is_digit_not_sign
    by (cases "nat_digits (nat n)") auto
  then show ?thesis
    using Atoi_Itoa [OF assms] n unfolding scan_int_def strip_Itoa Let_def by simp
qed

text \<open>The media sequence number a server prints in its tag is the number the parser stores, over
  the whole range of \<open>int64\<close>; a tag without a number leaves the stored one alone.\<close>

theorem media_sequence_roundtrip:
  assumes "- 9223372036854775808 \<le> n" "n \<le> 9223372036854775807"
  shows "parse_line U base (''#EXT-X-MEDIA-SEQUENCE:'' @ Itoa n) m = Some (m\<lparr>MediaSequence := n\<rparr>)
    \<and> parse_line U base ''#EXT-X-MEDIA-SEQUENCE:'' m = Some m"
proof
  have e: "scan_int [] = None" by (simp add: scan_int_def Atoi_def sign_split_def)
  show "parse_line U base (''#EXT-X-MEDIA-SEQUENCE:'' @ Itoa n) m = Some (m\<lparr>MediaSequence := n\<rparr>)"
    using scan_Itoa [OF assms] by (simp add: parse_line_def HasPrefix_def TrimPrefix_def)
  show "parse_line U base ''#EXT-X-MEDIA-SEQUENCE:'' m = Some m"
    using e by (simp add: parse_line_def HasPrefix_def TrimPrefix_def)
qed

theorem media_sequence_roundtrip_witness:
  "parse_line sample_urls [] (''#EXT-X-MEDIA-SEQUENCE:'' @ Itoa 42) empty_metadata
      = Some (empty_metadata\<lparr>MediaSequence := 42\<rparr>)
    \<and> parse_line sample_urls [] ''#EXT-X-MEDIA-SEQUENCE:'' empty_metadata = Some empty_metadata"
  by (rule media_sequence_roundtrip) simp_all

section \<open>What the HLS writer streams\<close>

definition seg_ticks :: "fetch \<Rightarrow> tick list" where
  "seg_ticks f = (case f of Fetched code h now ts \<Rightarrow> ts | _ \<Rightarrow> [])"

definition seg_header :: "fetch \<Rightarrow> header" where
  "seg_header f = (case f of
     Fetched code h now ts \<Rightarrow>
       (if header_Get h ''Content-Type'' = [] then header_Set h ''Content-Type'' ''video/MP2T'' else h)
   | _ \<Rightarrow> [])"

text \<open>An answer that comes with status 200 and whose body is read in full and in time.\<close>

definition good_fetch :: "int \<Rightarrow> fetch \<Rightarrow> bool" where
  "good_fetch timeout f \<longleftrightarrow>
     (case f of Fetched code h now ts \<Rightarrow> code = 200 \<and> whole_body ts \<and> in_time timeout now ts | _ \<Rightarrow> False)"

text \<open>
  The source serves the URLs \<open>us\<close> one after the other: each request for the URL whose turn it is
  gives, in full and in time, what \<open>content\<close> says is stored under that URL.
\<close>

fun serves :: "int \<Rightarrow> (string \<Rightarrow> string) \<Rightarrow> seg_script list \<Rightarrow> string list \<Rightarrow> bool" where
  "serves timeout content segs [] \<longleftrightarrow> True"
| "serves timeout content [] (u # us) \<longleftrightarrow> False"
| "serves timeout content (s # segs) (u # us) \<longleftrightarrow>
     seg_ctx s = None \<and> good_fetch timeout (seg_fetch s u)
     \<and> concat (map rd_data (seg_ticks (seg_fetch s u))) = content u \<and> serves timeout content segs us"

fun seg_chunks :: "seg_script list \<Rightarrow> string list \<Rightarrow> ChunkData list" where
  "seg_chunks [] us = []"
| "seg_chunks (s # segs) [] = []"
| "seg_chunks (s # segs) (u # us) = map tick_chunk (seg_ticks (seg_fetch s u)) @ seg_chunks segs us"

definition chunk_text :: "ChunkData list \<Rightarrow> string" where
  "chunk_text ws = concat (map (\<lambda>ch. case Buffer ch of None \<Rightarrow> [] | Some b \<Rightarrow> b) ws)"

lemma seg_chunks_no_error: "\<forall>ch \<in> set (seg_chunks segs us). \<not> is_error ch"
  by (induction segs us rule: seg_chunks.induct) auto

lemma chunk_text_ticks: "chunk_text (map tick_chunk ts) = concat (map rd_data ts)"
  by (simp add: chunk_text_def tick_chunk_def data_chunk_def comp_def)

lemma served_text: "serves timeout content segs us \<Longrightarrow> chunk_text (seg_chunks segs us) = concat (map content us)"
proof (induction segs us rule: seg_chunks.induct)
  case (1 us)
  then show ?case by (cases us) (simp_all add: chunk_text_def)
next
  case (3 s segs u us)
  then show ?case
    using chunk_text_ticks [of "seg_ticks (seg_fetch s u)"] by (simp add: chunk_text_def)
qed (simp add: chunk_text_def)

lemma first_header_simps [simp]:
  "live m (first_header h c) = live m c" "getTimeoutDuration (first_header h c) = getTimeoutDuration c"
  "m3uHeaderSet (first_header h c)" "config (first_header h c) = config c"
  by (simp_all add: first_header_def live_def ring_ok_def getTimeoutDuration_def)

lemma first_header_set: "m3uHeaderSet c \<Longrightarrow> first_header h c = c"
  by (simp add: first_header_def)

lemma after_write_m3u [simp]: "m3uHeaderSet (after_write ch c) = m3uHeaderSet c"
  by (auto simp: after_write_def Write_def Let_def notifySubscribers_def split: outcome.splits)

lemma writes_m3u [simp]: "m3uHeaderSet (writes ws c) = m3uHeaderSet c"
  by (induction ws arbitrary: c) simp_all

lemma after_write_header [simp]: "WriterRespHeader (after_write ch c) = WriterRespHeader c"
  by (auto simp: after_write_def Write_def Let_def notifySubscribers_def split: outcome.splits)

lemma writes_header [simp]: "WriterRespHeader (writes ws c) = WriterRespHeader c"
  by (induction ws arbitrary: c) simp_all

lemma getTimeout_cong: "config c' = config c \<Longrightarrow> getTimeoutDuration c' = getTimeoutDuration c"
  by (simp add: getTimeoutDuration_def)

lemma streamSegment_good:
  assumes "good_fetch (getTimeoutDuration c) f" "live (length (seg_ticks f)) c"
  shows "streamSegment f u c =
    Ok (SegEnd (Some EOF) (writes (map tick_chunk (seg_ticks f)) (first_header (seg_header f) c)))"
proof -
  obtain h now ts where f: "f = Fetched 200 h now ts" "whole_body ts" "in_time (getTimeoutDuration c) now ts"
    using assms(1) by (auto simp: good_fetch_def split: fetch.splits)
  then have t: "seg_ticks f = ts" by (simp add: seg_ticks_def)
  let ?c = "first_header (seg_header f) c"
  obtain s' where "readAndWriteStream now ts ?c = Ok (Return (Some EOF) s' (writes (map tick_chunk ts) ?c))"
    using loop_until_EOF [of ts ?c "getTimeoutDuration c" "start_state now ?c"] assms(2) f t
    by (auto simp: readAndWriteStream_def start_state_def)
  then show ?thesis
    using f t by (simp add: streamSegment_def seg_header_def)
qed

lemma segment_step:
  assumes "live (length (seg_chunks (s # segs) (u # us))) c"
    and "serves (getTimeoutDuration c) content (s # segs) (u # us)"
    and "c' = writes (map tick_chunk (seg_ticks (seg_fetch s u))) (first_header (seg_header (seg_fetch s u)) c)"
  shows "processSegments (s # segs) (u # us) c = processSegments segs us c'"
    and "live (length (seg_chunks segs us)) c'" "getTimeoutDuration c' = getTimeoutDuration c" "m3uHeaderSet c'"
proof -
  let ?d = "first_header (seg_header (seg_fetch s u)) c" let ?ws = "map tick_chunk (seg_ticks (seg_fetch s u))"
  have l: "live (length (seg_ticks (seg_fetch s u)) + length (seg_chunks segs us)) c" using assms(1) by simp
  have l0: "live (length ?ws + length (seg_chunks segs us)) ?d" using l by simp
  have "\<forall>ch \<in> set ?ws. \<not> is_error ch" by simp
  from writes_live [OF l0 this] assms(3)
  show w: "live (length (seg_chunks segs us)) c'" and "m3uHeaderSet c'" "getTimeoutDuration c' = getTimeoutDuration c"
    using getTimeout_cong [of c' ?d] by simp_all
  have "streamSegment (seg_fetch s u) u c = Ok (SegEnd (Some EOF) c')"
    using streamSegment_good assms(2,3) live_mono [OF l] by simp
  then show "processSegments (s # segs) (u # us) c = processSegments segs us c'" using assms(2) by simp
qed

lemma segments_concatenated:
  "live (length (seg_chunks segs us)) c \<Longrightarrow> serves (getTimeoutDuration c) content segs us \<Longrightarrow> m3uHeaderSet c \<Longrightarrow>
    processSegments segs us c = Ok (SegEnd None (writes (seg_chunks segs us) c))"
proof (induction segs us arbitrary: c rule: seg_chunks.induct)
  case (3 s segs u us)
  let ?c = "writes (map tick_chunk (seg_ticks (seg_fetch s u))) (first_header (seg_header (seg_fetch s u)) c)"
  note st = segment_step [OF "3.prems"(1,2) refl]
  have "processSegments segs us ?c = Ok (SegEnd None (writes (seg_chunks segs us) ?c))"
    by (rule "3.IH") (use st "3.prems" in simp_all)
  with st "3.prems"(3) show ?case by (simp add: writes_append first_header_set)
next
  case (1 us)
  then show ?case by (cases us) simp_all
qed simp_all

text \<open>All segments of a list that is not empty: the first one sets the header.\<close>

lemma segments_streamed:
  assumes "live (length (seg_chunks segs us)) c" "serves (getTimeoutDuration c) content segs us" "us \<noteq> []"
  shows "processSegments segs us c = Ok (SegEnd None (writes (seg_chunks segs us)
    (first_header (seg_header (seg_fetch (hd segs) (hd us))) c)))"
proof -
  obtain s ss u vs where e: "segs = s # ss" "us = u # vs"
    using assms(2,3) by (cases segs; cases us) auto
  note st = segment_step [OF assms(1,2) [unfolded e] refl]
  have "processSegments ss vs (writes (map tick_chunk (seg_ticks (seg_fetch s u)))
      (first_header (seg_header (seg_fetch s u)) c)) = Ok (SegEnd None (writes (seg_chunks ss vs)
      (writes (map tick_chunk (seg_ticks (seg_fetch s u))) (first_header (seg_header (seg_fetch s u)) c))))"
    by (rule segments_concatenated [where content = content]) (use st assms(2) e in simp_all)
  with st show ?thesis by (simp add: e writes_append)
qed

lemma playlist_prefixes: "HasPrefix x ''#EXT-X-STREAM-INF'' \<Longrightarrow> \<not> HasPrefix x ''#EXTM3U''"
proof
  assume "HasPrefix x ''#EXT-X-STREAM-INF''" "HasPrefix x ''#EXTM3U''"
  then have "take 17 x = ''#EXT-X-STREAM-INF''" "take 7 x = ''#EXTM3U''"
    by (simp_all add: HasPrefix_def eval_nat_numeral)
  moreover have "take 7 (take 17 x) = take 7 x" by simp
  ultimately show False by simp
qed

lemma media_lines: "parse_lines U base ls m = (False, m') \<Longrightarrow> \<forall>l \<in> set ls. \<not> HasPrefix (TrimSpace l) ''#EXT-X-STREAM-INF''"
proof (induction ls arbitrary: m)
  case (Cons l ls)
  then obtain m1 where m1: "parse_line U base (TrimSpace l) m = Some m1" "parse_lines U base ls m1 = (False, m')"
    by (auto split: option.splits)
  have "\<not> HasPrefix (TrimSpace l) ''#EXT-X-STREAM-INF''"
    using m1(1) playlist_prefixes by (auto simp: parse_line_def)
  with Cons.IH [OF m1(2)] show ?case by simp
qed simp

lemma parse_lines_master: "parse_lines U base ls m = (True, m') \<Longrightarrow> IsMaster m'"
  by (induction ls arbitrary: m) (auto split: option.splits)

text \<open>The segments of a media playlist, from its lines.\<close>

definition playlist_urls :: "url_lib \<Rightarrow> string \<Rightarrow> string \<Rightarrow> string list" where
  "playlist_urls U base text = map (segment_url U base)
     (filter (\<lambda>l. is_segment l \<and> url_ok U l) (map TrimSpace (fst (scan_lines text))))"

lemma parsed_segments:
  assumes "parsePlaylist U base text = Inr m" "\<not> IsMaster m"
  shows "Segments m = playlist_urls U base text"
proof -
  obtain stop m1 where p: "parse_lines U base (fst (scan_lines text)) empty_metadata = (stop, m1)" by fastforce
  have s: "\<not> stop" "m1 = m"
    using assms p parse_lines_master [of U base "fst (scan_lines text)" empty_metadata m1]
    by (auto simp: parsePlaylist_def split: if_splits prod.splits option.splits)
  with p have "\<forall>l \<in> set (fst (scan_lines text)). \<not> HasPrefix (TrimSpace l) ''#EXT-X-STREAM-INF''"
    using media_lines [of U base _ empty_metadata m1] by simp
  from parse_lines_spec [OF this, of U base empty_metadata] p s show ?thesis
    by (auto simp: playlist_urls_def empty_metadata_def)
qed
text \<open>The coordinator when the writer streams its first segment: the fields the start of the writer sets
  and the header of that segment.\<close>

definition hls_started :: "LoadBalancerResult \<Rightarrow> header \<Rightarrow> Coord \<Rightarrow> Coord" where
  "hls_started lb h c = c\<lparr>LBResultOnWrite := Some lb, WriterRespHeader := Some (header_Del h ''Content-Length''),
     respHeaderSet := True, m3uHeaderSet := True\<rparr>"

lemma hls_started_simps [simp]:
  "live m (hls_started lb h c) = live m c" "ring_view (hls_started lb h c) = ring_view c"
  "slots (hls_started lb h c) = slots c" "writeSeq (hls_started lb h c) = writeSeq c"
  by (simp_all add: hls_started_def live_def ring_ok_def ring_view_def)

lemma hls_first_tick:
  assumes "parsePlaylist U (RequestURL resp) text = Inr m" "\<not> IsMaster m" "IsEndlist m \<or> 0 \<le> MediaSequence m"
    and "RequestPath resp \<noteq> None" "h_before t = []" "h_ctx t = None" "cstate c = StateActive"
    and "h_now t - now \<le> int64 (int64 (TimeoutSeconds (config c) * 1000000000) + 1000000000)"
    and "processSegments (h_segments t) (Segments m) c = Ok (SegEnd None c')"
  shows "\<exists>s. hls_loop U resp [t] (hls_start now text None) c =
    Ok (if IsEndlist m then HReport (Some EOF) StatusEOF (h_end t) c' else HContinue s c')"
  using assms by (cases "IsEndlist m") (simp_all add: hls_poll_def hls_start_def read_body_def)

text \<open>C23. The segments of a media playlist are streamed as one body in the order of its lines: when the
  server of the playlist answers the request for each segment's URL in full and in time, what the
  writer puts into the ring on the first poll is the text stored under the first URL, then that
  under the second and so on, under the header of the first segment with a default type and
  without its length; a playlist with the end marker then ends the stream with the end of file and
  gives the connection back, one without keeps the writer running.\<close>

theorem hls_streams_segments_in_order:
  assumes "parsePlaylist U (RequestURL (lbResponse lb)) text = Inr m" "\<not> IsMaster m" "IsEndlist m \<or> 0 \<le> MediaSequence m"
    and "us = playlist_urls U (RequestURL (lbResponse lb)) text" "us \<noteq> []"
    and "serves (getTimeoutDuration c) content (h_segments t) us" "live (Suc (length (seg_chunks (h_segments t) us))) c"
    and "RequestPath (lbResponse lb) \<noteq> None" "h_before t = []" "h_ctx t = None"
    and "h_now t - now \<le> int64 (int64 (TimeoutSeconds (config c) * 1000000000) + 1000000000)" "counted 2147483646 cm"
  shows "\<exists>cm' c' ws. StartHLSWriter env U lb now text None [t] cm c = (if IsEndlist m then WDone else WRunning, cm', c')
    \<and> chunk_text ws = concat (map content us) \<and> (\<forall>ch \<in> set ws. \<not> is_error ch)
    \<and> ring_view c' = last_n (length (slots c)) (ring_view c @ numbered (writeSeq c)
        (ws @ (if IsEndlist m then [error_chunk (Some EOF) StatusEOF (h_end t)] else [])))
    \<and> cstate c' = (if IsEndlist m then StateClosed else StateActive)
    \<and> conn cm' = (if IsEndlist m then conn cm else (conn cm)(lbIndex lb := Suc (conn cm (lbIndex lb))))
    \<and> WriterRespHeader c' =
        Some (header_Del (seg_header (seg_fetch (hd (h_segments t)) (hd us))) ''Content-Length'')"
proof -
  let ?c1 = "c\<lparr>LBResultOnWrite := Some lb, WriterRespHeader := None, respHeaderSet := False, m3uHeaderSet := False\<rparr>"
  let ?ws = "seg_chunks (h_segments t) us" let ?h = "seg_header (seg_fetch (hd (h_segments t)) (hd us))"
  let ?d = "hls_started lb ?h c" let ?e = "ended ?ws (Some EOF) StatusEOF (h_end t) ?d"
  have c1: "live k ?c1 = live k c" "getTimeoutDuration ?c1 = getTimeoutDuration c" for k
    by (simp_all add: live_def ring_ok_def getTimeoutDuration_def)
  have d: "first_header ?h ?c1 = ?d" by (simp add: first_header_def hls_started_def)
  have l: "live (length ?ws) c" using assms(7) live_mono by simp
  have "processSegments (h_segments t) us ?c1 = Ok (SegEnd None (writes ?ws ?d))"
    using segments_streamed [of "h_segments t" us ?c1 content] l assms(5,6) c1 d by simp
  then obtain s where loop: "hls_loop U (lbResponse lb) [t] (hls_start now text None) ?c1 =
      Ok (if IsEndlist m then HReport (Some EOF) StatusEOF (h_end t) (writes ?ws ?d) else HContinue s (writes ?ws ?d))"
    using hls_first_tick [OF assms(1-3,8-10), of ?c1 now] parsed_segments [OF assms(1,2)] assms(4,7,11)
    by (auto simp: live_def)
  have w: "live 0 (writes ?ws ?d)" "ring_view (writes ?ws ?d) =
      last_n (length (slots c)) (ring_view c @ numbered (writeSeq c) ?ws)"
    using writes_live [of ?ws 0 ?d, OF _ seg_chunks_no_error] l by simp_all
  have "ring_ok (writes ?ws ?d)" using w(1) by (simp add: live_def)
  then have err: "writeError (Some EOF) StatusEOF (h_end t) (writes ?ws ?d) = Ok ?e"
    by (simp add: ended_def writeError_eq)
  have e: "ring_view ?e = last_n (length (slots c)) (ring_view c @ numbered (writeSeq c)
      (?ws @ [error_chunk (Some EOF) StatusEOF (h_end t)]))" "cstate ?e = StateClosed"
    using ended_ring_view [of ?ws ?d] ended_facts(2) [of ?ws ?d] seg_chunks_no_error assms(7) by simp_all
  have h: "WriterRespHeader (writes ?ws ?d) = Some (header_Del ?h ''Content-Length'')" "WriterRespHeader ?e = WriterRespHeader (writes ?ws ?d)"
    using \<open>ring_ok (writes ?ws ?d)\<close> by (simp_all add: ended_def writeError_eq) (simp add: hls_started_def)
  let ?acq = "UpdateConcurrency env (lbIndex lb) True cm"
  have run: "StartHLSWriter env U lb now text None [t] cm c = (if IsEndlist m
      then (WDone, UpdateConcurrency env (lbIndex lb) False ?acq, ?e\<lparr>LBResultOnWrite := None\<rparr>)
      else (WRunning, ?acq, writes ?ws ?d))"
    using loop err by (simp add: StartHLSWriter_def Let_def)
  have "conn ?acq = (conn cm)(lbIndex lb := Suc (conn cm (lbIndex lb)))"
    using conns.acquire_level [OF assms(12), of env "lbIndex lb"] by simp
  then show ?thesis
    using run w e h served_text [OF assms(6)] seg_chunks_no_error acquire_release [OF assms(12), of env "lbIndex lb"]
    by (intro exI [of _ "if IsEndlist m then UpdateConcurrency env (lbIndex lb) False ?acq else ?acq"]
        exI [of _ "if IsEndlist m then ?e\<lparr>LBResultOnWrite := None\<rparr> else writes ?ws ?d"] exI [of _ ?ws])
      (auto simp: ring_view_def live_def)
qed

text \<open>A playlist of two segments with the end marker; under every URL the source stores that URL.\<close>

definition sample_vod :: string where
  "sample_vod = ''#EXTM3U'' @ [newline] @ ''a.ts'' @ [newline] @ ''b.ts'' @ [newline] @ ''#EXT-X-ENDLIST''"

definition echo_seg :: seg_script where
  "echo_seg = \<lparr>seg_ctx = None, seg_fetch = (\<lambda>u. Fetched 200 [] 0 [sample_tick u (Some EOF) 1])\<rparr>"

lemma sample_vod_lines: "scan_lines sample_vod = ([''#EXTM3U'', ''a.ts'', ''b.ts'', ''#EXT-X-ENDLIST''], None)"
  by (simp add: scan_lines_def scan_tokens_def raw_lines_def sample_vod_def newline_def drop_CR_def)

lemma sample_vod_trim: "TrimSpace ''b.ts'' = ''b.ts''" "TrimSpace ''#EXT-X-ENDLIST'' = ''#EXT-X-ENDLIST''"
  by (simp_all add: TrimSpace_visible visible_def)

lemma sample_vod_parse:
  "parsePlaylist sample_urls u sample_vod = Inr \<lparr>MediaSequence = 0, Version = 0, IsEndlist = True,
      Segments = [''http://h/a.ts'', ''http://h/b.ts''], IsMaster = False\<rparr>"
  "playlist_urls sample_urls u sample_vod = [''http://h/a.ts'', ''http://h/b.ts'']"
  by (simp_all add: parsePlaylist_def playlist_urls_def sample_vod_lines sample_trim sample_vod_trim parse_line_def
      sample_urls_def HasPrefix_def empty_metadata_def segment_url_def is_segment_def)

theorem hls_streams_segments_in_order_witness:
  "let c = NewStreamCoordinator ''id'' sample_config; t = sample_htick 1 [echo_seg, echo_seg];
       us = [''http://h/a.ts'', ''http://h/b.ts'']; m = \<lparr>MediaSequence = 0, Version = 0, IsEndlist = True,
      Segments = us, IsMaster = False\<rparr> in
   \<exists>cm' c' ws. StartHLSWriter [] sample_urls sample_lb 0 sample_vod None [t] NewConcurrencyManager c
      = (if IsEndlist m then WDone else WRunning, cm', c')
    \<and> chunk_text ws = concat (map (\<lambda>u. u) us) \<and> (\<forall>ch \<in> set ws. \<not> is_error ch)
    \<and> ring_view c' = last_n (length (slots c)) (ring_view c @ numbered (writeSeq c)
        (ws @ (if IsEndlist m then [error_chunk (Some EOF) StatusEOF (h_end t)] else [])))
    \<and> cstate c' = (if IsEndlist m then StateClosed else StateActive)
    \<and> conn cm' = (if IsEndlist m then conn NewConcurrencyManager else (conn NewConcurrencyManager)
        (lbIndex sample_lb := Suc (conn NewConcurrencyManager (lbIndex sample_lb))))
    \<and> WriterRespHeader c' =
        Some (header_Del (seg_header (seg_fetch (hd (h_segments t)) (hd us))) ''Content-Length'')"
  unfolding Let_def
proof (rule hls_streams_segments_in_order [OF sample_vod_parse(1)])
  let ?c = "NewStreamCoordinator ''id'' sample_config" let ?us = "[''http://h/a.ts'', ''http://h/b.ts'']"
  have tm: "getTimeoutDuration ?c = 3000000000"
    by (simp add: getTimeoutDuration_def NewStreamCoordinator_def sample_config_def)
  show "?us = playlist_urls sample_urls (RequestURL (lbResponse sample_lb)) sample_vod" by (simp add: sample_vod_parse)
  show "serves (getTimeoutDuration ?c) (\<lambda>u. u) (h_segments (sample_htick 1 [echo_seg, echo_seg])) ?us"
    unfolding tm by (simp add: sample_htick_def echo_seg_def good_fetch_def seg_ticks_def whole_body_def sample_tick_def)
  have "length (seg_chunks (h_segments (sample_htick 1 [echo_seg, echo_seg])) ?us) = 2"
    by (simp add: sample_htick_def echo_seg_def seg_ticks_def)
  then show "live (Suc (length (seg_chunks (h_segments (sample_htick 1 [echo_seg, echo_seg])) ?us))) ?c"
    using live_sample [of 3] by (simp add: numeral_eq_Suc)
  show "counted 2147483646 NewConcurrencyManager" by (rule sample_counted)
  show "h_now (sample_htick 1 [echo_seg, echo_seg]) - 0 \<le> int64 (int64 (TimeoutSeconds (config ?c) * 1000000000) + 1000000000)"
    by (simp add: sample_htick_def NewStreamCoordinator_def sample_config_def int64_id)
qed (simp_all add: sample_htick_def sample_lb_def)

section \<open>The playlist is never fetched again\<close>

lemma hls_idle:
  "parsePlaylist U (RequestURL resp) content = Inr m \<Longrightarrow> \<not> IsMaster m \<Longrightarrow> \<not> IsEndlist m \<Longrightarrow>
    RequestPath resp \<noteq> None \<Longrightarrow> hlsBody s = Copied content \<Longrightarrow> MediaSequence m \<le> lastMediaSeq s \<Longrightarrow>
    \<forall>t \<in> set ts. h_before t = [] \<and> h_ctx t = None \<Longrightarrow>
    \<exists>r. hls_loop U resp ts s c = Ok r \<and> hls_coord r = c
      \<and> ((\<exists>s'. r = HContinue s' c) \<or> r = HSilent c
        \<or> (\<exists>t \<in> set ts. r = HReport (Some (Errorf ''stream timeout: no new segments'')) StatusEOF (h_end t) c))"
proof (induction ts arbitrary: s)
  case (Cons t ts)
  have t: "h_before t = []" "h_ctx t = None" using Cons.prems(7) by simp_all
  show ?case
  proof (cases "cstate c = StateActive")
    case False
    with t show ?thesis by simp
  next
    case act: True
    show ?thesis
    proof (cases "h_now t - lastChangeTime s > int64 (int64 (TimeoutSeconds (config c) * 1000000000) + pollInterval s)")
      case True
      with t act show ?thesis by (simp add: hls_poll_def)
    next
      case False
      let ?s = "s\<lparr>hlsBody := Copied content, pollInterval := h_interval t\<rparr>"
      have poll: "hls_poll U resp t s c = Ok (HContinue ?s c)"
        using False Cons.prems(1-6) by (simp add: hls_poll_def read_body_def)
      have "\<exists>r. hls_loop U resp ts ?s c = Ok r \<and> hls_coord r = c
        \<and> ((\<exists>s'. r = HContinue s' c) \<or> r = HSilent c
          \<or> (\<exists>t \<in> set ts. r = HReport (Some (Errorf ''stream timeout: no new segments'')) StatusEOF (h_end t) c))"
        by (rule Cons.IH) (use Cons.prems in simp_all)
      with poll t act show ?thesis by auto
    qed
  qed
qed simp

lemma hls_poll_keeps:
  assumes "parsePlaylist U (RequestURL resp) content = Inr m" "\<not> IsMaster m" "\<not> IsEndlist m"
    and "RequestPath resp \<noteq> None" "read_body (hlsBody s) = Inr content"
    and "hls_poll U resp t s c = Ok (HContinue s1 c1)"
  shows "hlsBody s1 = Copied content \<and> MediaSequence m \<le> lastMediaSeq s1"
proof (cases "MediaSequence m > lastMediaSeq s")
  case False
  then show ?thesis using assms by (auto simp: hls_poll_def split: if_splits)
next
  case new: True
  show ?thesis
  proof (cases "processSegments (h_segments t) (Segments m) c")
    case (Ok r)
    with assms new show ?thesis
      by (cases r) (auto simp: hls_poll_def Let_def split: if_splits option.splits)
  next
    case (Panic msg)
    with assms new show ?thesis by (auto simp: hls_poll_def split: if_splits)
  qed
qed

text \<open>C34. The playlist is read from the network once: after the first poll of a live playlist, however
  often and however long the writer polls, it parses the copy it made, streams no further
  segment, and can only end the stream with the timeout of a source without new segments.\<close>

theorem live_playlist_read_once:
  assumes "parsePlaylist U (RequestURL resp) content = Inr m" "\<not> IsMaster m" "\<not> IsEndlist m"
    and "RequestPath resp \<noteq> None"
    and "h_before t = []" "h_ctx t = None" "cstate c = StateActive"
    and "hls_poll U resp t (hls_start now content None) c = Ok (HContinue s1 c1)"
    and "\<forall>t' \<in> set ts. h_before t' = [] \<and> h_ctx t' = None"
  shows "\<exists>r. hls_loop U resp (t # ts) (hls_start now content None) c = Ok r \<and> hls_coord r = c1
    \<and> ((\<exists>s'. r = HContinue s' c1) \<or> r = HSilent c1
      \<or> (\<exists>t' \<in> set ts. r = HReport (Some (Errorf ''stream timeout: no new segments'')) StatusEOF (h_end t') c1))"
proof -
  have "hlsBody s1 = Copied content \<and> MediaSequence m \<le> lastMediaSeq s1"
    by (rule hls_poll_keeps [OF assms(1-4) _ assms(8)]) (simp add: hls_start_def read_body_def)
  then show ?thesis
    using hls_idle [OF assms(1-4) _ _ assms(9), of s1 c1] assms(5-8) by simp
qed

theorem live_playlist_read_once_witness:
  "let c = NewStreamCoordinator ''id'' sample_config; t = sample_htick 1 [sample_seg ''ab''];
       c1 = writes [tick_chunk (sample_tick ''ab'' (Some EOF) 1)] (first_header (seg_header (seg_fetch (sample_seg ''ab'') ''http://h/a.ts'')) c);
       ts = [sample_htick 2 [], sample_htick 3 []] in
   \<exists>r. hls_loop sample_urls (lbResponse sample_lb) (t # ts) (hls_start 0 sample_playlist None) c = Ok r
    \<and> hls_coord r = c1
    \<and> ((\<exists>s'. r = HContinue s' c1) \<or> r = HSilent c1
      \<or> (\<exists>t' \<in> set ts. r = HReport (Some (Errorf ''stream timeout: no new segments'')) StatusEOF (h_end t') c1))"
  unfolding Let_def
proof (rule live_playlist_read_once [OF sample_playlist_parse])
  let ?c = "NewStreamCoordinator ''id'' sample_config" let ?s = "sample_seg ''ab''"
  let ?f = "seg_fetch ?s ''http://h/a.ts''"
  let ?d = "writes [tick_chunk (sample_tick ''ab'' (Some EOF) 1)] (first_header (seg_header ?f) ?c)"
  have tm: "getTimeoutDuration ?c = 3000000000" "TimeoutSeconds (config ?c) = 3"
    by (simp_all add: getTimeoutDuration_def NewStreamCoordinator_def sample_config_def)
  have g: "good_fetch (getTimeoutDuration ?c) ?f"
    unfolding tm by (simp add: good_fetch_def sample_seg_def whole_body_def sample_tick_def)
  have ticks: "seg_ticks ?f = [sample_tick ''ab'' (Some EOF) 1]" by (simp add: seg_ticks_def sample_seg_def)
  then have "live (length (seg_ticks ?f)) ?c" using live_sample [of 1] by simp
  from streamSegment_good [OF g this] ticks
  have "processSegments [?s] [''http://h/a.ts''] ?c = Ok (SegEnd None ?d)"
    by (simp add: sample_seg_def)
  then show "hls_poll sample_urls (lbResponse sample_lb) (sample_htick 1 [?s]) (hls_start 0 sample_playlist None) ?c
      = Ok (HContinue ((hls_start 0 sample_playlist None)
          \<lparr>lastChangeTime := 1, lastMediaSeq := 0, hlsBody := Copied sample_playlist\<rparr>) ?d)"
    using tm by (simp add: hls_poll_def hls_start_def read_body_def sample_playlist_parse sample_htick_def sample_lb_def)
qed (simp_all add: sample_lb_def sample_htick_def NewStreamCoordinator_def)

end
