(* ===== verification/StreamHandler.thy ===== *)
theory StreamHandler
  imports StreamClient HLS
begin

text \<open>
  \<^verbatim>\<open>proxy/stream/media_stream.go\<close>: how one client's request is served, either straight from the
  response (\<open>HandleDirectStream\<close>) or from the shared buffer (\<open>HandleStream\<close>), which starts the
  writer when none is active, follows the buffer and cleans up after the last client.  As for the
  writers, a loop runs over a script of what it meets; a script that ends leaves it running.
\<close>

record StreamResult =
  BytesWritten :: int
  ResError :: "go_error option"
  ResStatus :: int

definition safeConcatTypes :: "string list" where
  "safeConcatTypes = [''video/mp2t'', ''video/mpeg'', ''audio/aac'', ''audio/mpeg'']"

section \<open>HandleDirectStream\<close>

record direct_tick =
  d_cancelled :: bool
  d_data :: string
  d_err :: "go_error option"
  d_answer :: "nat \<times> go_error option"

fun direct_loop :: "string \<Rightarrow> direct_tick list \<Rightarrow> int \<Rightarrow> StreamClient
    \<Rightarrow> (StreamResult option \<times> int \<times> StreamClient) outcome" where
  "direct_loop addr [] n sc = Ok (None, n, sc)"
| "direct_loop addr (t # ts) n sc =
     (if d_cancelled t then
        Ok (Some \<lparr>BytesWritten = n, ResError = Some (Errorf (''context canceled for stream: '' @ addr)),
                  ResStatus = StatusClientClosed\<rparr>, n, sc)
      else
        let n' = int64 (n + int (length (d_data t))) in
        case d_err t of
          Some e \<Rightarrow>
            if e = EOF then
              Ok (Some \<lparr>BytesWritten = n', ResError = Some (Errorf (''EOF reached for stream: '' @ addr)),
                        ResStatus = StatusEOF\<rparr>, n', sc)
            else
              Ok (Some \<lparr>BytesWritten = n', ResError = Some (Errorf (''server error for stream: '' @ addr)),
                        ResStatus = StatusServerError\<rparr>, n', sc)
        | None \<Rightarrow>
            bind_outcome (Write_client (d_data t) (d_answer t) sc) (\<lambda>((m, err), sc').
              case err of
                Some e \<Rightarrow>
                  Ok (Some \<lparr>BytesWritten = n', ResError = Some (Errorf (''server error for stream: '' @ addr)),
                            ResStatus = StatusClientClosed\<rparr>, n', sc')
              | None \<Rightarrow> direct_loop addr ts n' sc'))"

definition HandleDirectStream :: "LoadBalancerResult \<Rightarrow> string \<Rightarrow> direct_tick list \<Rightarrow> StreamClient
    \<Rightarrow> (StreamResult option \<times> int \<times> StreamClient) outcome" where
  "HandleDirectStream lb addr ts sc =
     bind_outcome (WriteHeader (StatusCode (lbResponse lb))
         (sc\<lparr>ResponseHeaders := RespHeader (lbResponse lb)\<rparr>))
       (direct_loop addr ts 0)"

section \<open>HandleStream: start and cleanup\<close>

text \<open>
  The section under \<open>InitializationMu\<close>.  The flag says that this call starts the writer, with the
  context of the coordinator at that moment.
\<close>

definition start_writer :: "Coord \<Rightarrow> bool \<times> Coord" where
  "start_writer c =
     (if WriterActive c then (False, c)
      else
        let c1 = c\<lparr>WriterActive := True\<rparr>;
            c2 = (if WriterCtx c1 = None
                  then c1\<lparr>WriterCtx := Some (nextCtx c1), WriterCancel := Some (nextCtx c1), nextCtx := Suc (nextCtx c1)\<rparr>
                  else c1)
        in (True, ClearBuffer (c2\<lparr>LastError := Some None\<rparr>)))"

definition join :: "Coord \<Rightarrow> bool \<times> Coord" where
  "join c = (let (s, c') = start_writer c in (s, RegisterClient c'))"

text \<open>After the writer has returned: the URL it served, and the flag its deferred function resets.\<close>

definition writer_exit :: "LoadBalancerResult \<Rightarrow> Coord \<Rightarrow> Coord" where
  "writer_exit lb c = (SetActualURL (lbURL lb) c)\<lparr>WriterActive := False\<rparr>"

definition cleanup_client :: "Coord \<Rightarrow> Coord" where
  "cleanup_client c =
     (let c1 = UnregisterClient c in
      if ClientCount c1 \<noteq> 0 then c1
      else
        let c2 = (case WriterCancel c1 of
                    None \<Rightarrow> c1
                  | Some k \<Rightarrow> c1\<lparr>cancelled := k # cancelled c1, WriterCancel := None, WriterCtx := None\<rparr>);
            c3 = ClearBuffer (c2\<lparr>WriterCtx := None, LastError := Some None\<rparr>)
        in c3\<lparr>WriterChan := False\<rparr>)"

section \<open>HandleStream: the reader's loop\<close>

text \<open>
  Writing a list of chunks to the client.  For the \<open>i\<close>-th chunk the script has what the reader's
  context says, the header it finds when the headers are set, and what the write answers: an
  accepted count with an error, or (in \<open>safeWrite\<close>) a panic turned into an error.
\<close>

record chunk_io =
  io_ctx :: "go_error option"
  io_header :: "header option"
  io_answer :: "nat \<times> go_error option"

definition safeWrite :: "string \<Rightarrow> nat \<times> go_error option \<Rightarrow> StreamClient
    \<Rightarrow> (nat \<times> go_error option) \<times> StreamClient" where
  "safeWrite data answer sc =
     (case Write_client data answer sc of
        Ok r \<Rightarrow> r
      | Panic m \<Rightarrow> ((0, Some (Errorf (''write failed: '' @ m))), sc))"

definition incompatible :: "LoadBalancerResult \<Rightarrow> header \<Rightarrow> bool" where
  "incompatible lb h \<longleftrightarrow>
     ToLower (header_Get h ''Content-Type'') \<notin> set safeConcatTypes \<and> IsAnM3U8Media (lbResponse lb)"

fun deliver_chunks :: "LoadBalancerResult \<Rightarrow> (nat \<Rightarrow> chunk_io) \<Rightarrow> nat \<Rightarrow> ChunkData list \<Rightarrow> int \<Rightarrow> StreamClient
    \<Rightarrow> (StreamResult option \<times> int \<times> StreamClient)" where
  "deliver_chunks lb io i [] n sc = (None, n, sc)"
| "deliver_chunks lb io i (ch # chs) n sc =
     (case io_ctx (io i) of
        Some e \<Rightarrow> (Some \<lparr>BytesWritten = n, ResError = Some e, ResStatus = StatusClientClosed\<rparr>, n, sc)
      | None \<Rightarrow>
          (case Buffer ch of
             Some (b # bs) \<Rightarrow>
               if \<not> IsWritable sc then
                 (Some \<lparr>BytesWritten = n, ResError = Some (Errorf ''writer is nil''),
                        ResStatus = StatusServerError\<rparr>, n, sc)
               else
                 let h = (case io_header (io i) of None \<Rightarrow> [] | Some h \<Rightarrow> h) in
                 if incompatible lb h then
                   (Some \<lparr>BytesWritten = n,
                      ResError = Some (Errorf (header_Get h ''Content-Type''
                        @ '' cannot be safely concatenated and is not supported by this proxy'')),
                      ResStatus = StatusIncompatible\<rparr>, n, sc)
                 else
                   let ((m, err), sc') = safeWrite (b # bs) (io_answer (io i)) (sc\<lparr>ResponseHeaders := h\<rparr>) in
                   (case err of
                      Some e \<Rightarrow> (Some \<lparr>BytesWritten = n, ResError = Some e, ResStatus = StatusClientClosed\<rparr>, n, sc')
                    | None \<Rightarrow> deliver_chunks lb io (Suc i) chs (int64 (n + int m)) sc')
           | _ \<Rightarrow> deliver_chunks lb io (Suc i) chs n sc))"

text \<open>
  One turn of the reader: the other goroutines act, then the reader, unless it is inside the wait
  of \<open>ReadChunks\<close>, looks at its context and reads.  \<open>at\<close> is its position, \<open>inside\<close> that it waits.
\<close>

record reader_tick =
  r_acts :: "coord_act list"
  r_ctx :: "go_error option"
  r_io :: "nat \<Rightarrow> chunk_io"

record reader =
  rpos :: nat
  inside :: bool
  rbytes :: int
  rclient :: StreamClient

definition reader_turn :: "LoadBalancerResult \<Rightarrow> reader_tick \<Rightarrow> reader \<Rightarrow> Coord
    \<Rightarrow> (StreamResult option \<times> reader) outcome" where
  "reader_turn lb t r c =
     (if \<not> inside r \<and> r_ctx t \<noteq> None then
        Ok (Some \<lparr>BytesWritten = rbytes r, ResError = r_ctx t, ResStatus = StatusClientClosed\<rparr>, r)
      else
        bind_outcome (if inside r then ReadFrom (rpos r) c else ReadChunks (Some (rpos r)) c) (\<lambda>res.
          case res of
            Waiting p \<Rightarrow> Ok (None, r\<lparr>rpos := p, inside := True\<rparr>)
          | ReadRes chunks errc q \<Rightarrow>
              let (ended, n, sc) = deliver_chunks lb (r_io t) 0 chunks (rbytes r) (rclient r);
                  r' = r\<lparr>rpos := q, inside := False, rbytes := n, rclient := sc\<rparr>
              in case ended of
                   Some res \<Rightarrow> Ok (Some res, r')
                 | None \<Rightarrow>
                     (case errc of
                        Some e \<Rightarrow> Ok (Some \<lparr>BytesWritten = n, ResError = Error e, ResStatus = Status e\<rparr>, r')
                      | None \<Rightarrow> Ok (None, r'))))"

fun reader_loop :: "LoadBalancerResult \<Rightarrow> reader_tick list \<Rightarrow> reader \<Rightarrow> Coord
    \<Rightarrow> (StreamResult option \<times> reader \<times> Coord) outcome" where
  "reader_loop lb [] r c = Ok (None, r, c)"
| "reader_loop lb (t # ts) r c =
     (let c' = foldl coord_step c (r_acts t) in
      bind_outcome (reader_turn lb t r c') (\<lambda>(ended, r').
        case ended of Some res \<Rightarrow> Ok (Some res, r', c') | None \<Rightarrow> reader_loop lb ts r' c'))"

text \<open>
  The call: it joins, and after \<open>InitializationMu\<close> is released it takes the slot before the writer's
  as its start; what the others do between these two is \<open>acts\<close>.  It reads from there and cleans up
  when it returns.  The result says whether it started the writer, its result if it has returned, and the client.
  (On the nil ring, where \<open>Prev\<close> panics, the deferred cleanup is left out.)
\<close>

definition start_slot :: "Coord \<Rightarrow> nat" where
  "start_slot c = (wpos c + length (slots c) - 1) mod length (slots c)"

definition HandleStream :: "LoadBalancerResult \<Rightarrow> coord_act list \<Rightarrow> reader_tick list \<Rightarrow> StreamClient \<Rightarrow> Coord
    \<Rightarrow> (bool \<times> StreamResult option \<times> StreamClient \<times> Coord) outcome" where
  "HandleStream lb acts ts sc c =
     (let (s, c0) = join c; c1 = foldl coord_step c0 acts in
      if slots c1 = [] then Panic ''nil pointer dereference''
      else
        bind_outcome (reader_loop lb ts \<lparr>rpos = start_slot c1, inside = False, rbytes = 0, rclient = sc\<rparr> c1)
          (\<lambda>(ended, r, c2).
            case ended of
              None \<Rightarrow> Ok (s, None, rclient r, c2)
            | Some res \<Rightarrow> Ok (s, Some res, rclient r, cleanup_client c2)))"

section \<open>What a direct client gets\<close>

lemma direct_loop_copies:
  "IsWritable sc \<Longrightarrow> HeadersSent sc \<Longrightarrow> 0 \<le> n \<Longrightarrow>
    n + int (length (concat (map d_data (us @ [t])))) < 9223372036854775808 \<Longrightarrow>
    \<forall>u \<in> set us. \<not> d_cancelled u \<and> d_err u = None \<and> d_answer u = (length (d_data u), None) \<Longrightarrow>
    \<not> d_cancelled t \<Longrightarrow> d_err t = Some e \<Longrightarrow>
    \<exists>res sc'. direct_loop addr (us @ [t]) n sc
        = Ok (Some res, n + int (length (concat (map d_data (us @ [t])))), sc')
      \<and> BytesWritten res = n + int (length (concat (map d_data (us @ [t]))))
      \<and> ResStatus res = (if e = EOF then StatusEOF else StatusServerError)
      \<and> client_body sc' = client_body sc @ concat (map d_data us) \<and> client_status sc' = client_status sc"
proof (induction us arbitrary: n sc)
  case Nil
  then show ?case by (simp add: Let_def)
next
  case (Cons u us)
  have u: "\<not> d_cancelled u" "d_err u = None" "d_answer u = (length (d_data u), None)"
    using Cons.prems(5) by simp_all
  obtain sc1 where sc1: "Write_client (d_data u) (d_answer u) sc = Ok (d_answer u, sc1)" "IsWritable sc1"
    "HeadersSent sc1" "client_body sc1 = client_body sc @ take (fst (d_answer u)) (d_data u)"
    "client_status sc1 = client_status sc @ (if HeadersSent sc then [] else [200])"
    by (rule Write_client_ok [OF Cons.prems(1)])
  have n: "int64 (n + int (length (d_data u))) = n + int (length (d_data u))"
    using Cons.prems(3,4) by (intro int64_id) simp_all
  show ?case
    using Cons.IH [of sc1 "n + int (length (d_data u))"] Cons.prems u sc1 n
    by (simp add: algebra_simps)
qed

text \<open>A direct client gets the data of every read but the last one: what comes together with the
  end of the file (or with another error) is counted as written and dropped.  The response's own
  status is sent first, once.\<close>

theorem direct_stream_drops_final_data:
  assumes "IsWritable sc" "\<not> HeadersSent sc"
    and "int (length (concat (map d_data (us @ [t])))) < 9223372036854775808"
    and "\<forall>u \<in> set us. \<not> d_cancelled u \<and> d_err u = None \<and> d_answer u = (length (d_data u), None)"
    and "\<not> d_cancelled t" "d_err t = Some e"
  shows "\<exists>res n sc'. HandleDirectStream lb addr (us @ [t]) sc = Ok (Some res, n, sc')
    \<and> ResStatus res = (if e = EOF then StatusEOF else StatusServerError)
    \<and> BytesWritten res = int (length (concat (map d_data (us @ [t]))))
    \<and> client_body sc' = client_body sc @ concat (map d_data us)
    \<and> client_status sc' = client_status sc @ [StatusCode (lbResponse lb)]"
proof -
  let ?sc = "sc\<lparr>ResponseHeaders := RespHeader (lbResponse lb)\<rparr>"
  have w: "IsWritable ?sc" "HeadersSent ?sc = HeadersSent sc" "client_body ?sc = client_body sc"
    "client_status ?sc = client_status sc"
    using assms(1) by (simp_all add: IsWritable_def client_body_def client_status_def)
  obtain sc1 where sc1: "WriteHeader (StatusCode (lbResponse lb)) ?sc = Ok sc1" "IsWritable sc1" "HeadersSent sc1"
    "client_body sc1 = client_body ?sc"
    "client_status sc1 = client_status ?sc @ (if HeadersSent ?sc then [] else [StatusCode (lbResponse lb)])"
    by (rule WriteHeader_ok [OF w(1)])
  from direct_loop_copies [OF sc1(2,3), of 0 us t e addr] assms(3-6) sc1 w assms(2)
  show ?thesis by (auto simp: HandleDirectStream_def)
qed

definition sample_client :: StreamClient where
  "sample_client = NewStreamClient (Some \<lparr>wHeader = [], wStatus = [], wBody = []\<rparr>)"

lemma sample_client_facts:
  "IsWritable sample_client" "\<not> HeadersSent sample_client" "client_body sample_client = []"
  "client_status sample_client = []"
  by (simp_all add: sample_client_def NewStreamClient_def IsWritable_def client_body_def client_status_def)

definition sample_direct :: "string \<Rightarrow> go_error option \<Rightarrow> direct_tick" where
  "sample_direct d e = \<lparr>d_cancelled = False, d_data = d, d_err = e, d_answer = (length d, None)\<rparr>"

theorem direct_stream_drops_final_data_witness:
  "\<exists>res n sc'. HandleDirectStream sample_lb ''10.0.0.1'' ([sample_direct ''ab'' None] @ [sample_direct ''cd'' (Some EOF)])
      sample_client = Ok (Some res, n, sc')
    \<and> ResStatus res = (if EOF = EOF then StatusEOF else StatusServerError)
    \<and> BytesWritten res = int (length (concat (map d_data ([sample_direct ''ab'' None] @ [sample_direct ''cd'' (Some EOF)]))))
    \<and> client_body sc' = client_body sample_client @ concat (map d_data [sample_direct ''ab'' None])
    \<and> client_status sc' = client_status sample_client @ [StatusCode (lbResponse sample_lb)]"
  by (rule direct_stream_drops_final_data [OF sample_client_facts(1,2)]) (simp_all add: sample_direct_def)

section \<open>What a client of the shared buffer gets\<close>

text \<open>Nothing disturbs the delivery of these chunks.\<close>

definition smooth :: "LoadBalancerResult \<Rightarrow> (nat \<Rightarrow> chunk_io) \<Rightarrow> nat \<Rightarrow> ChunkData list \<Rightarrow> bool" where
  "smooth lb io i chs \<longleftrightarrow> (\<forall>j < length chs. io_ctx (io (i + j)) = None
     \<and> \<not> incompatible lb (case io_header (io (i + j)) of None \<Rightarrow> [] | Some h \<Rightarrow> h)
     \<and> io_answer (io (i + j)) = (length (the (Buffer (chs ! j))), None))"

lemma smooth_Cons:
  "smooth lb io i (ch # chs) \<Longrightarrow> io_ctx (io i) = None
     \<and> \<not> incompatible lb (case io_header (io i) of None \<Rightarrow> [] | Some h \<Rightarrow> h)
     \<and> io_answer (io i) = (length (the (Buffer ch)), None) \<and> smooth lb io (Suc i) chs"
  by (force simp: smooth_def)

definition chunk_bytes :: "ChunkData list \<Rightarrow> string" where
  "chunk_bytes chs = concat (map (the \<circ> Buffer) chs)"

lemma deliver_all:
  "smooth lb io i chs \<Longrightarrow> \<forall>ch \<in> set chs. has_data ch \<Longrightarrow> IsWritable sc \<Longrightarrow> 0 \<le> n \<Longrightarrow>
    n + int (length (chunk_bytes chs)) < 9223372036854775808 \<Longrightarrow>
    \<exists>sc'. deliver_chunks lb io i chs n sc = (None, n + int (length (chunk_bytes chs)), sc')
      \<and> IsWritable sc' \<and> client_body sc' = client_body sc @ chunk_bytes chs
      \<and> client_status sc' = client_status sc @ (if HeadersSent sc \<or> chs = [] then [] else [200])"
proof (induction chs arbitrary: i n sc)
  case Nil
  then show ?case by (simp add: chunk_bytes_def)
next
  case (Cons ch chs)
  obtain b bs where b: "Buffer ch = Some (b # bs)" using Cons.prems(2) by (auto simp: has_data_def)
  let ?h = "case io_header (io i) of None \<Rightarrow> [] | Some h \<Rightarrow> h" let ?sc = "sc\<lparr>ResponseHeaders := ?h\<rparr>"
  note io = smooth_Cons [OF Cons.prems(1)]
  have w: "IsWritable ?sc" "HeadersSent ?sc = HeadersSent sc" "client_body ?sc = client_body sc"
    "client_status ?sc = client_status sc"
    using Cons.prems(3) by (simp_all add: IsWritable_def client_body_def client_status_def)
  obtain s1 where s1: "Write_client (b # bs) (io_answer (io i)) ?sc = Ok (io_answer (io i), s1)"
    "IsWritable s1" "HeadersSent s1" "client_body s1 = client_body ?sc @ take (fst (io_answer (io i))) (b # bs)"
    "client_status s1 = client_status ?sc @ (if HeadersSent ?sc then [] else [200])"
    by (rule Write_client_ok [OF w(1)])
  have len: "chunk_bytes (ch # chs) = (b # bs) @ chunk_bytes chs" by (simp add: chunk_bytes_def b)
  let ?m = "n + int (length (b # bs))"
  have n: "int64 ?m = ?m" using Cons.prems(4,5) by (intro int64_id) (simp_all add: len)
  have "\<exists>sc'. deliver_chunks lb io (Suc i) chs ?m s1 = (None, ?m + int (length (chunk_bytes chs)), sc')
      \<and> IsWritable sc' \<and> client_body sc' = client_body s1 @ chunk_bytes chs
      \<and> client_status sc' = client_status s1 @ (if HeadersSent s1 \<or> chs = [] then [] else [200])"
    by (rule Cons.IH) (use io Cons.prems s1 in \<open>simp_all add: len\<close>)
  then show ?case
    using io b s1 w n Cons.prems(3) by (auto simp: safeWrite_def len)
qed

text \<open>
  A client that keeps up: its context is alive, it takes every chunk whole, and before each of its
  turns the others have made fewer calls than would take the writer a lap ahead of it.  \<open>us\<close> is
  what it has still to read.
\<close>

definition act_chunk :: "coord_act \<Rightarrow> ChunkData" where
  "act_chunk a = (case a of AWrite ch \<Rightarrow> ch | AWriteError e st t \<Rightarrow> error_chunk e st t | _ \<Rightarrow> newChunkData)"

fun keeps_up :: "LoadBalancerResult \<Rightarrow> nat \<Rightarrow> ChunkData list \<Rightarrow> reader_tick list \<Rightarrow> bool" where
  "keeps_up lb n us [] = True"
| "keeps_up lb n us (t # ts) =
     (r_ctx t = None \<and> length us + length (r_acts t) < n
      \<and> smooth lb (r_io t) 0 (delivered (us @ map act_chunk (r_acts t))) \<and> keeps_up lb n [] ts)"

lemma turn_reads:
  assumes "window s us c" "us \<noteq> [] \<or> cstate c = StateActive" "writeSeq c < 9223372036854775808"
    and "rpos r = behind (length us) c" "r_ctx t = None" "smooth lb (r_io t) 0 (delivered us)"
    and "IsWritable (rclient r)" "0 \<le> rbytes r"
    and "rbytes r + int (length (chunk_bytes (delivered us))) < 9223372036854775808"
  shows "\<exists>r'. reader_turn lb t r c = Ok (map_option (\<lambda>e. \<lparr>BytesWritten = rbytes r', ResError = Error e,
        ResStatus = Status e\<rparr>) (snd (foldl visit ([], None) us)), r')
    \<and> rpos r' = wpos c \<and> rbytes r' = rbytes r + int (length (chunk_bytes (delivered us)))
    \<and> IsWritable (rclient r') \<and> client_body (rclient r') = client_body (rclient r) @ chunk_bytes (delivered us)"
proof (cases "us = []")
  case True
  with assms(1) have w: "window s [] c" by simp
  show ?thesis
    using window_wait [OF w] assms(2,4,5,7) True by (simp add: reader_turn_def delivered_def chunk_bytes_def)
next
  case False
  have dat: "\<forall>ch \<in> set (delivered us). has_data ch"
    by (auto simp: delivered_def has_data_def data_copy_def)
  obtain sc' where "deliver_chunks lb (r_io t) 0 (delivered us) (rbytes r) (rclient r) =
      (None, rbytes r + int (length (chunk_bytes (delivered us))), sc')"
    "IsWritable sc'" "client_body sc' = client_body (rclient r) @ chunk_bytes (delivered us)"
    using deliver_all [OF assms(6) dat assms(7,8,9)] by blast
  with window_read [OF assms(1) False assms(3)] assms(4,5) show ?thesis
    by (cases "snd (foldl visit ([], None) us)") (simp_all add: reader_turn_def)
qed

lemma visit_error_chunk:
  "e \<noteq> None \<or> st \<noteq> 0 \<Longrightarrow> snd (foldl visit ([], None) (us @ [error_chunk e st t])) =
    Some \<lparr>Buffer = None, Error = e, Status = st, Timestamp = t, seq = 0\<rparr>"
  by (simp add: visit_snd) (simp add: error_chunk_def newChunkData_def)

lemma delivered_error_chunk [simp]: "delivered (us @ [error_chunk e st t]) = delivered us"
  by (simp add: delivered_def has_data_def error_chunk_def newChunkData_def)

lemma delivered_append: "delivered (us @ ws) = delivered us @ delivered ws"
  by (simp add: delivered_def)

lemma chunk_bytes_append: "chunk_bytes (us @ ws) = chunk_bytes us @ chunk_bytes ws"
  by (simp add: chunk_bytes_def)

lemma act_chunk_writes [simp]: "act_chunk \<circ> AWrite = id" "act_chunk (AWrite ch) = ch"
    "act_chunk (AWriteError e st t) = error_chunk e st t"
  by (simp_all add: act_chunk_def fun_eq_iff)

lemma join_facts:
  assumes "coord_ok c" "ClientCount c = 0" "\<not> WriterActive c"
  shows "fst (join c)" "ring_ok (snd (join c))" "cstate (snd (join c)) = StateActive"
    "LastError (snd (join c)) = Some None" "slots (snd (join c)) = replicate (length (slots c)) newChunkData"
    "wpos (snd (join c)) = wpos c" "writeSeq (snd (join c)) = writeSeq c" "ClientCount (snd (join c)) = 1"
    "WriterActive (snd (join c))" "WriterCtx (snd (join c)) \<noteq> None"
proof -
  define d where "d = (let c1 = c\<lparr>WriterActive := True\<rparr> in
      (if WriterCtx c1 = None
       then c1\<lparr>WriterCtx := Some (nextCtx c1), WriterCancel := Some (nextCtx c1), nextCtx := Suc (nextCtx c1)\<rparr>
       else c1)\<lparr>LastError := Some None\<rparr>)"
  have j: "join c = (True, RegisterClient (ClearBuffer d))"
    using assms(3) by (simp add: join_def start_writer_def d_def Let_def)
  have d: "ring_ok d" "ClientCount d = 0" "LastError d = Some None" "slots d = slots c" "wpos d = wpos c"
    "writeSeq d = writeSeq c" "WriterActive d" "WriterCtx d \<noteq> None"
    using assms by (auto simp: d_def Let_def coord_ok_def ring_ok_def)
  show "fst (join c)" "ring_ok (snd (join c))" "cstate (snd (join c)) = StateActive"
    "LastError (snd (join c)) = Some None" "slots (snd (join c)) = replicate (length (slots c)) newChunkData"
    "wpos (snd (join c)) = wpos c" "writeSeq (snd (join c)) = writeSeq c" "ClientCount (snd (join c)) = 1"
    using d ClearBuffer_slots [OF d(1)] by (simp_all add: j frame_simps)
  show "WriterActive (snd (join c))" "WriterCtx (snd (join c)) \<noteq> None"
    using d(7,8) by (auto simp: j RegisterClient_def ClearBuffer_def)
qed

lemma ClientCount_ended:
  assumes "ring_ok (writes ws c)"
  shows "ClientCount (ended ws e st t c) = ClientCount c"
proof -
  have "ClientCount (writes ws c) = ClientCount c"
    by (induction ws arbitrary: c) (simp_all add: ClientCount_after_write)
  then show ?thesis by (simp add: ended_def writeError_eq [OF assms] ClientCount_after_write)
qed

lemma cleanup_last:
  assumes "ring_ok c" "ClientCount c = 1"
  shows "ClientCount (cleanup_client c) = 0" "cstate (cleanup_client c) = StateDraining"
    "slots (cleanup_client c) = replicate (length (slots c)) newChunkData"
    "WriterCtx (cleanup_client c) = None" "WriterActive (cleanup_client c) = WriterActive c"
    "coord_ok (cleanup_client c)" "WriterCancel c = Some k \<Longrightarrow> k \<in> set (cancelled (cleanup_client c))"
proof -
  let ?u = "UnregisterClient c"
  have u: "ClientCount ?u = 0" "cstate ?u = StateDraining" "ring_ok ?u" "length (slots ?u) = length (slots c)"
    "WriterActive ?u = WriterActive c" "WriterCancel ?u = WriterCancel c"
    using assms ClearBuffer_slots [OF assms(1)] by (simp_all add: frame_simps)
      (simp_all add: UnregisterClient_def Let_def notifySubscribers_def ClearBuffer_def)
  define d where "d = (case WriterCancel ?u of None \<Rightarrow> ?u
      | Some k \<Rightarrow> ?u\<lparr>cancelled := k # cancelled ?u, WriterCancel := None, WriterCtx := None\<rparr>)
      \<lparr>WriterCtx := None, LastError := Some None\<rparr>"
  have d: "ClientCount d = 0" "cstate d = StateDraining" "ring_ok d" "slots d = slots ?u" "WriterCtx d = None"
    "LastError d = Some None" "WriterActive d = WriterActive c"
    "WriterCancel c = Some k \<Longrightarrow> k \<in> set (cancelled d)"
    using u by (auto simp: d_def ring_ok_def split: option.split)
  have e: "cleanup_client c = (ClearBuffer d)\<lparr>WriterChan := False\<rparr>"
    using u(1) by (simp add: cleanup_client_def Let_def d_def)
  have "ring_ok (ClearBuffer d)" using d(3) by simp
  then have "coord_ok ((ClearBuffer d)\<lparr>WriterChan := False\<rparr>)"
    using d(6) by (simp add: coord_ok_def ring_ok_def frame_simps)
  then show "ClientCount (cleanup_client c) = 0" "cstate (cleanup_client c) = StateDraining"
    "slots (cleanup_client c) = replicate (length (slots c)) newChunkData"
    "WriterCtx (cleanup_client c) = None" "WriterActive (cleanup_client c) = WriterActive c"
    "coord_ok (cleanup_client c)" "WriterCancel c = Some k \<Longrightarrow> k \<in> set (cancelled (cleanup_client c))"
    using d u(4) ClearBuffer_slots [OF d(3)] by (simp_all add: e frame_simps) (simp_all add: ClearBuffer_def)
qed

lemma split_calls:
  assumes "as @ bs = map AWrite ws @ [AWriteError e st t]"
  obtains "bs = []" "as = map AWrite ws @ [AWriteError e st t]"
    | us vs where "ws = us @ vs" "as = map AWrite us" "bs = map AWrite vs @ [AWriteError e st t]"
proof (cases bs rule: rev_cases)
  case Nil
  then show thesis using that(1) assms by simp
next
  case (snoc cs b)
  with assms have "map AWrite ws = as @ cs" "b = AWriteError e st t" by simp_all
  then show thesis using that(2) snoc by (auto simp: map_eq_append_conv)
qed

text \<open>The reader's loop to the end of the stream, for a client that keeps up.\<close>

lemma reader_gets_rest:
  "window s us c \<Longrightarrow> cstate c = StateActive \<Longrightarrow> rpos r = behind (length us) c \<Longrightarrow>
    keeps_up lb (length (slots c)) us rts \<Longrightarrow> concat (map r_acts rts) = map AWrite ws @ [AWriteError e st t] \<Longrightarrow>
    \<forall>ch \<in> set us \<union> set ws. \<not> is_error ch \<Longrightarrow> e \<noteq> None \<or> st \<noteq> 0 \<Longrightarrow>
    writeSeq c + int (Suc (length ws)) < 9223372036854775808 \<Longrightarrow> IsWritable (rclient r) \<Longrightarrow> 0 \<le> rbytes r \<Longrightarrow>
    rbytes r + int (length (chunk_bytes (delivered (us @ ws)))) < 9223372036854775808 \<Longrightarrow>
    \<exists>r'. reader_loop lb rts r c = Ok (Some \<lparr>BytesWritten = rbytes r + int (length (chunk_bytes (delivered (us @ ws)))),
        ResError = e, ResStatus = st\<rparr>, r', foldl coord_step c (map AWrite ws @ [AWriteError e st t]))
      \<and> client_body (rclient r') = client_body (rclient r) @ chunk_bytes (delivered (us @ ws))"
proof (induction rts arbitrary: s us c r ws)
  case (Cons a rts)
  have k: "r_ctx a = None" "length us + length (r_acts a) < length (slots c)"
    "smooth lb (r_io a) 0 (delivered (us @ map act_chunk (r_acts a)))" "keeps_up lb (length (slots c)) [] rts"
    using Cons.prems(4) by simp_all
  have "r_acts a @ concat (map r_acts rts) = map AWrite ws @ [AWriteError e st t]" using Cons.prems(5) by simp
  then show ?case
  proof (cases rule: split_calls)
    case 1
    let ?c = "writes ws c" let ?E = "coord_step ?c (AWriteError e st t)" let ?us = "us @ ws @ [error_chunk e st t]"
    have n: "length us + length ws < length (slots c)" "Suc (length us + length ws) < length (slots c)"
      using k(2) 1(2) by simp_all
    have w: "window s (us @ ws) ?c" "behind (length us + length ws) ?c = behind (length us) c"
      "cstate ?c = StateActive" "writeSeq ?c = writeSeq c + int (length ws)" "length (slots ?c) = length (slots c)"
      using window_writes [OF Cons.prems(1,2), of ws] Cons.prems(6,8) n(1) by auto
    have wx: "window s ?us ?E" "behind (length ?us) ?E = behind (length us) c"
      using window_error [OF w(1,3), of e st t] w Cons.prems(8) n(2) by (simp_all del: coord_step.simps)
    have acts: "foldl coord_step c (r_acts a) = ?E" unfolding 1(2) foldl_append foldl_writes by simp
    have sm: "smooth lb (r_io a) 0 (delivered ?us)"
      using k(3) unfolding 1(2) map_append by simp
    have del: "delivered ?us = delivered (us @ ws)" using delivered_error_chunk [of "us @ ws"] by simp
    have "writeSeq ?E < 9223372036854775808"
      using wx(1) w(1,4) Cons.prems(8) by (simp add: window_def)
    from turn_reads [OF wx(1) _ this _ k(1) sm Cons.prems(9,10)] Cons.prems(3,11) wx(2) obtain r' where
      "reader_turn lb a r ?E = Ok (map_option (\<lambda>e. \<lparr>BytesWritten = rbytes r', ResError = Error e, ResStatus = Status e\<rparr>)
        (snd (foldl visit ([], None) ?us)), r')"
      "rbytes r' = rbytes r + int (length (chunk_bytes (delivered (us @ ws))))"
      "client_body (rclient r') = client_body (rclient r) @ chunk_bytes (delivered (us @ ws))"
      unfolding del by auto
    moreover have "snd (foldl visit ([], None) ?us) =
        Some \<lparr>Buffer = None, Error = e, Status = st, Timestamp = t, seq = 0\<rparr>"
      using visit_error_chunk [OF Cons.prems(7), of "us @ ws"] by simp
    moreover have "foldl coord_step c (map AWrite ws @ [AWriteError e st t]) = ?E" using acts unfolding 1(2) .
    ultimately show ?thesis using acts by (simp del: coord_step.simps foldl_append)
  next
    case (2 vs ws')
    let ?c = "writes vs c" let ?us = "us @ vs"
    have n: "length us + length vs < length (slots c)" using k(2) 2(2) by simp
    have w: "window s ?us ?c" "behind (length us + length vs) ?c = behind (length us) c"
      "cstate ?c = StateActive" "writeSeq ?c = writeSeq c + int (length vs)" "length (slots ?c) = length (slots c)"
      using window_writes [OF Cons.prems(1,2), of vs] Cons.prems(6,8) n(1) 2(1) by auto
    have acts: "foldl coord_step c (r_acts a) = ?c" unfolding 2(2) foldl_writes ..
    have sm: "smooth lb (r_io a) 0 (delivered ?us)" using k(3) unfolding 2(2) by simp
    have q: "writeSeq ?c < 9223372036854775808" using w(4) Cons.prems(8) 2(1) by simp
    have len: "chunk_bytes (delivered (us @ ws)) = chunk_bytes (delivered ?us) @ chunk_bytes (delivered ws')"
      by (simp add: 2(1) delivered_append chunk_bytes_append)
    have "snd (foldl visit ([], None) ?us) = None"
      using foldl_visit_no_error [of ?us "([], None)"] Cons.prems(6) 2(1) by auto
    with turn_reads [OF w(1) _ q _ k(1) sm Cons.prems(9,10)] Cons.prems(3,11) w(2,3) len obtain r' where
      r': "reader_turn lb a r ?c = Ok (None, r')" "rpos r' = wpos ?c"
      "rbytes r' = rbytes r + int (length (chunk_bytes (delivered ?us)))" "IsWritable (rclient r')"
      "client_body (rclient r') = client_body (rclient r) @ chunk_bytes (delivered ?us)" by auto
    have "ring_ok ?c" using w(1) by (simp add: window_def coord_ok_def)
    then have "rpos r' = behind (length []) ?c" using r'(2) behind_0 by simp
    from Cons.IH [OF window_nil [OF w(1)] w(3) this _ 2(3)] k(4) Cons.prems(6-8,10,11) w(4,5) r'(3,4) len 2(1) obtain r2 where
      "reader_loop lb rts r' ?c = Ok (Some \<lparr>BytesWritten = rbytes r' + int (length (chunk_bytes (delivered ws'))),
        ResError = e, ResStatus = st\<rparr>, r2, foldl coord_step ?c (map AWrite ws' @ [AWriteError e st t]))"
      "client_body (rclient r2) = client_body (rclient r') @ chunk_bytes (delivered ws')" by auto
    moreover have "foldl coord_step c (map AWrite ws @ [AWriteError e st t]) =
        foldl coord_step ?c (map AWrite ws' @ [AWriteError e st t])"
      by (simp add: 2(1) foldl_writes del: coord_step.simps)
    ultimately show ?thesis using r' acts len by (simp del: coord_step.simps foldl_append)
  qed
qed simp

text \<open>For the witnesses: a body of five reads, for a ring of three slots.\<close>

definition sample_io :: "nat \<Rightarrow> chunk_io" where
  "sample_io i = \<lparr>io_ctx = None, io_header = None, io_answer = (1, None)\<rparr>"

definition five_reads :: "tick list" where
  "five_reads = [sample_tick ''a'' None 1, sample_tick ''b'' None 2, sample_tick ''c'' None 3,
     sample_tick ''d'' None 4, sample_tick ''e'' (Some EOF) 5]"

definition sample_turns :: "coord_act list list \<Rightarrow> reader_tick list" where
  "sample_turns ass = map (\<lambda>as. \<lparr>r_acts = as, r_ctx = None, r_io = sample_io\<rparr>) ass"

lemma sample_tick_simps [simp]:
  "before (sample_tick d e n) = []" "during (sample_tick d e n) = []" "ctx_err (sample_tick d e n) = None"
  "rd_data (sample_tick d e n) = d" "rd_err (sample_tick d e n) = e" "at_check (sample_tick d e n) = n"
  "at_read (sample_tick d e n) = n"
  by (simp_all add: sample_tick_def)

lemma tick_chunk_Buffer [simp]: "Buffer (tick_chunk t) = Some (rd_data t)"
  by (simp add: tick_chunk_def data_chunk_def)

text \<open>The sample's answers accept chunks of one byte.\<close>

lemma one_byte_smooth:
  assumes "\<not> IsAnM3U8Media (lbResponse lb)" "\<forall>ch \<in> set us. has_data ch \<longrightarrow> length (the (Buffer ch)) = 1"
  shows "smooth lb sample_io 0 (delivered us)"
  unfolding smooth_def
proof (intro allI impI)
  fix j
  assume "j < length (delivered us)"
  then have "delivered us ! j \<in> set (delivered us)" by simp
  then have "length (the (Buffer (delivered us ! j))) = 1"
    using assms(2) by (auto simp: delivered_def data_copy_def simp del: nth_mem)
  then show "io_ctx (sample_io (0 + j)) = None
     \<and> \<not> incompatible lb (case io_header (sample_io (0 + j)) of None \<Rightarrow> [] | Some h \<Rightarrow> h)
     \<and> io_answer (sample_io (0 + j)) = (length (the (Buffer (delivered us ! j))), None)"
    using assms(1) by (simp add: sample_io_def incompatible_def)
qed

lemma sample_no_playlist: "\<not> IsAnM3U8Media (lbResponse sample_lb)"
  by (simp add: IsAnM3U8Media_def sample_lb_def header_Get_def lower_char_def knownMimeTypes_def
      path_Ext_def after_last_def Let_def)

lemmas sample_smooth = one_byte_smooth [OF sample_no_playlist]

lemma has_data_samples [simp]:
  "has_data (tick_chunk (sample_tick [] e n)) = False" "\<not> has_data newChunkData" "\<not> has_data (error_chunk e st n)"
  by (simp_all add: has_data_def tick_chunk_def data_chunk_def newChunkData_def error_chunk_def)

text \<open>The whole way of a client that is the first of a new stream: it starts the writer, and whatever the
  writer has put into the buffer before it takes its start (\<open>acts\<close>) and puts there while it reads
  (\<open>rts\<close>), a client that keeps up gets the bytes of all the chunks in order and nothing else, but for
  those that were overtaken: of what was there when it took its start only the last chunk.  The
  call returns the error and the status with which the writer ends and the number of bytes, and its
  cleanup leaves no client, no context and an empty buffer.\<close>

theorem first_client_gets_whole_stream:
  assumes "coord_ok c" "ClientCount c = 0" "\<not> WriterActive c" "writeSeq c = 0" "1 < length (slots c)"
    and "acts @ concat (map r_acts rts) = map AWrite ws @ [AWriteError e st t]" "rts \<noteq> []"
    and "keeps_up lb (length (slots c)) [last (newChunkData # map act_chunk acts)] rts"
    and "\<forall>ch \<in> set ws. \<not> is_error ch" "e \<noteq> None \<or> st \<noteq> 0" "int (Suc (length ws)) < 9223372036854775808"
    and "IsWritable sc" "int (length (chunk_bytes (delivered ws))) < 9223372036854775808"
  defines "got \<equiv> chunk_bytes (delivered (drop (length acts - 1) ws))"
  shows "\<exists>sc' c'. HandleStream lb acts rts sc c
     = Ok (True, Some \<lparr>BytesWritten = int (length got), ResError = e, ResStatus = st\<rparr>, sc', c')
    \<and> client_body sc' = client_body sc @ got
    \<and> ClientCount c' = 0 \<and> WriterCtx c' = None \<and> slots c' = replicate (length (slots c)) newChunkData"
proof -
  define d where "d = snd (join c)"
  define F where "F = ended ws e st t d"
  define c1 where "c1 = foldl coord_step d acts"
  define r where "r = \<lparr>rpos = start_slot c1, inside = False, rbytes = 0, rclient = sc\<rparr>"
  note j = join_facts [OF assms(1-3), folded d_def]
  have len: "length (slots d) = length (slots c)" using j(5) by simp
  have l: "live (Suc (length ws)) d" using j assms(4,11) by (simp add: live_def)
  have okd: "coord_ok d" using j by (simp add: coord_ok_def)
  have all: "foldl coord_step c1 (concat (map r_acts rts)) = F"
    unfolding c1_def F_def ended_def foldl_append [symmetric] assms(6) unfolding foldl_append foldl_writes by simp
  have lw: "live (length ws + 0) d" using l live_mono by simp
  have okw: "ring_ok (writes ws d)" using writes_live [OF lw assms(9)] by (simp add: live_def)
  have F: "ring_ok F" "ClientCount F = 1" "length (slots F) = length (slots c)"
    using ended_facts(1,3) [OF l assms(9,10), of t] ClientCount_ended [OF okw] j(8) len
    by (simp_all add: F_def coord_ok_def)
  have r: "rpos r = behind (length [x]) c1" "rclient r = sc" "rbytes r = 0" for x
    by (simp_all add: r_def start_slot_def behind_def)
  have loop: "\<exists>r'. reader_loop lb rts r c1 = Ok (Some \<lparr>BytesWritten = int (length got), ResError = e, ResStatus = st\<rparr>, r', F)
      \<and> client_body (rclient r') = client_body sc @ got"
    using assms(6)
  proof (cases rule: split_calls)
    case 1
    let ?w = "writes ws d"
    have w: "live 1 ?w" "length (slots ?w) = length (slots d)" using writes_live [of ws 1 d] l assms(9) by auto
    then have a: "cstate ?w = StateActive" "writeSeq ?w + 1 < 9223372036854775808" by (simp_all add: live_def)
    have c1: "c1 = coord_step ?w (AWriteError e st t)" unfolding c1_def 1(2) foldl_append foldl_writes by simp
    have win: "window (writeSeq ?w) [error_chunk e st t] c1"
      using window_error(1) [OF window_here [OF w(1)] a, of e st t] w(2) len assms(5) unfolding c1 by simp
    obtain a' ts where rts: "rts = a' # ts" using assms(7) by (cases rts) auto
    then have acts: "r_acts a' = []" using 1(1) by simp
    have us: "last (newChunkData # map act_chunk acts) = error_chunk e st t" by (simp add: 1(2))
    have k: "r_ctx a' = None" "smooth lb (r_io a') 0 (delivered [error_chunk e st t])"
      using assms(8) acts unfolding us rts by simp_all
    have d0: "delivered [error_chunk e st t] = []" using delivered_error_chunk [of "[]"] by (simp add: delivered_def)
    have q: "writeSeq c1 < 9223372036854775808" using win a(2) by (simp add: window_def)
    have "got = []" by (simp add: got_def 1(2) delivered_def chunk_bytes_def)
    moreover have "c1 = F" using all 1(1) by simp
    ultimately show ?thesis
      using turn_reads [OF win _ q r(1) k] r(2,3) assms(12) d0 visit_error_chunk [OF assms(10), of "[]"] acts
      unfolding rts by (auto simp: chunk_bytes_def)
  next
    case (2 us vs)
    let ?x = "last (newChunkData # us)"
    have c1: "c1 = writes us d" unfolding c1_def 2(2) foldl_writes ..
    have lu: "live (length us + Suc (length vs)) d" using l unfolding 2(1) by simp
    have w: "live (Suc (length vs)) c1" "writeSeq c1 = writeSeq d + int (length us)" "length (slots c1) = length (slots d)"
      using writes_live [OF lu] assms(9) unfolding c1 2(1) by auto
    have "\<exists>s. window s [?x] c1"
    proof (cases us rule: rev_cases)
      case Nil
      with window_fresh [OF okd _ j(5) assms(5)] j(7) assms(4) show ?thesis unfolding c1 by auto
    next
      case (snoc us' x)
      have "live (length us' + Suc (Suc (length vs))) d" using lu snoc by simp
      then have w': "live (Suc (Suc (length vs))) (writes us' d)" "length (slots (writes us' d)) = length (slots d)"
        using writes_live [of us' "Suc (Suc (length vs))" d] assms(9) snoc unfolding 2(1) by auto
      have "window (writeSeq (writes us' d)) ([] @ [x]) (after_write x (writes us' d))"
        by (rule window_write(1) [OF window_here [OF w'(1)]]) (use w' len assms(5) in \<open>simp_all add: live_def\<close>)
      then show ?thesis using snoc unfolding c1 by (auto simp: writes_append)
    qed
    then obtain s where win: "window s [?x] c1" by blast
    have k: "keeps_up lb (length (slots c1)) [?x] rts"
      using assms(8) w(3) len unfolding 2(2) by simp
    have x: "\<not> is_error ?x" using assms(9) by (cases us rule: rev_cases) (simp_all add: 2(1) is_error_def newChunkData_def)
    have g: "chunk_bytes (delivered ([?x] @ vs)) = got"
      by (cases us rule: rev_cases) (simp_all add: got_def 2(1,2) delivered_def)
    have le: "length got \<le> length (chunk_bytes (delivered ws))"
    proof -
      have "ws = take (length acts - 1) ws @ drop (length acts - 1) ws" by simp
      then have "chunk_bytes (delivered ws) = chunk_bytes (delivered (take (length acts - 1) ws)) @ got"
        unfolding got_def by (metis delivered_append chunk_bytes_append)
      then show ?thesis by simp
    qed
    have act: "cstate c1 = StateActive" "writeSeq c1 + int (Suc (length vs)) < 9223372036854775808"
      using w(1) by (simp_all add: live_def)
    have vs: "\<forall>ch \<in> set [?x] \<union> set vs. \<not> is_error ch" using x assms(9) 2(1) by simp
    have "foldl coord_step c1 (map AWrite vs @ [AWriteError e st t]) = F" using all unfolding 2(3) .
    with reader_gets_rest [OF win act(1) r(1) k 2(3) vs assms(10) act(2)] r(2,3) assms(12,13) le
    show ?thesis unfolding g by auto
  qed
  have "slots c1 \<noteq> []"
  proof
    assume n: "slots c1 = []"
    have "coord_ok c1" unfolding c1_def by (rule lifecycle.inv_run [OF okd])
    with n show False by (simp add: coord_ok_def ring_ok_def)
  qed
  then show ?thesis
    using loop cleanup_last [OF F(1,2)] F(3) j(1)
    by (auto simp: HandleStream_def split_beta Let_def d_def [symmetric] c1_def [symmetric] r_def)
qed

text \<open>A client that takes its start when two of the five chunks of the body are in the ring: it gets the
  second and the rest.\<close>

theorem first_client_gets_whole_stream_witness:
  "let c = NewStreamCoordinator ''id'' sample_config;
       calls = media_calls five_reads None EOF 6;
       rts = sample_turns [take 1 (drop 2 calls), [], take 1 (drop 3 calls), drop 4 calls] in
   \<exists>sc' c'. HandleStream sample_lb (take 2 calls) rts sample_client c
     = Ok (True, Some \<lparr>BytesWritten = 4, ResError = Some EOF, ResStatus = StatusEOF\<rparr>, sc', c')
    \<and> client_body sc' = ''bcde''
    \<and> ClientCount c' = 0 \<and> WriterCtx c' = None \<and> slots c' = replicate 3 newChunkData"
proof -
  let ?c = "NewStreamCoordinator ''id'' sample_config"
  let ?calls = "media_calls five_reads None EOF 6" let ?ws = "map tick_chunk five_reads"
  let ?rts = "sample_turns [take 1 (drop 2 ?calls), [], take 1 (drop 3 ?calls), drop 4 ?calls]"
  have n: "ClientCount ?c = 0" "\<not> WriterActive ?c" "writeSeq ?c = 0" "1 < length (slots ?c)" "length (slots ?c) = 3"
    by (simp_all add: NewStreamCoordinator_def sample_config_def)
  have calls: "take 2 ?calls @ concat (map r_acts ?rts) = map AWrite ?ws @ [AWriteError (Some EOF) StatusEOF 6]"
    "?rts \<noteq> []" by (simp_all add: media_calls_def five_reads_def sample_turns_def)
  have k: "keeps_up sample_lb (length (slots ?c)) [last (newChunkData # map act_chunk (take 2 ?calls))] ?rts"
    unfolding n(5) by (auto simp: media_calls_def five_reads_def sample_turns_def intro!: sample_smooth)
  have b: "chunk_bytes (delivered ?ws) = ''abcde''" "chunk_bytes (delivered (drop (length (take 2 ?calls) - 1) ?ws)) = ''bcde''"
    by (simp_all add: delivered_def five_reads_def has_data_def chunk_bytes_def data_copy_def media_calls_def)
  have "\<forall>ch \<in> set ?ws. \<not> is_error ch" "int (Suc (length ?ws)) < 9223372036854775808"
    "int (length (chunk_bytes (delivered ?ws))) < 9223372036854775808" unfolding b by (simp_all add: five_reads_def)
  from first_client_gets_whole_stream [OF sample_coord n(1-4) calls k this(1) _ this(2) sample_client_facts(1) this(3),
      unfolded b n(5) sample_client_facts(3)]
  show ?thesis unfolding Let_def n(5) by simp
qed

text \<open>C10. End to end: a body of any length is moved by the media writer into the ring, wrapped around
  as often as it takes, and from there by the loop of \<open>HandleStream\<close> to a client that stood at the
  writer's slot when the writer began and keeps up.  However the calls of the writer and the turns
  of the client are interleaved, the client's reply gets every byte of the body, once and in order;
  its loop ends with the end of file; the stream is closed and the connection given back.\<close>

theorem viewer_gets_whole_body:
  assumes "live (Suc (length ts)) c" "whole_body ts" "in_time (getTimeoutDuration c) now ts" "counted 2147483646 cm"
    and "rpos r = wpos c" "IsWritable (rclient r)" "0 \<le> rbytes r"
    and "rbytes r + int (length (concat (map rd_data ts))) < 9223372036854775808"
    and "concat (map r_acts rts) = media_calls ts None EOF t_end" "keeps_up lbv (length (slots c)) [] rts"
  shows "\<exists>cm' c' r'. StartMediaWriter env lb now ts None t_end cm c = (WDone, cm', c'\<lparr>LBResultOnWrite := None\<rparr>)
    \<and> conn cm' = conn cm \<and> cstate c' = StateClosed
    \<and> reader_loop lbv rts r (started lb c) = Ok (Some \<lparr>BytesWritten = rbytes r + int (length (concat (map rd_data ts))),
        ResError = Some EOF, ResStatus = StatusEOF\<rparr>, r', c')
    \<and> client_body (rclient r') = client_body (rclient r) @ concat (map rd_data ts)"
proof -
  let ?c = "started lb c" let ?ws = "map tick_chunk ts" let ?e = "ended ?ws (Some EOF) StatusEOF t_end ?c"
  have l: "live (Suc (length ?ws)) ?c" using assms(1) by simp
  have q: "writeSeq ?c + int (Suc (length ?ws)) < 9223372036854775808" "cstate ?c = StateActive"
    using l by (simp_all add: live_def)
  have w: "window (writeSeq ?c) [] ?c" using l by (rule window_here)
  have "ring_ok c" using assms(1) by (simp add: live_def)
  then have p: "rpos r = behind (length []) ?c" using behind_0 [of c] assms(5) by (simp add: behind_def)
  have "\<forall>t \<in> set ts. rd_data t \<noteq> []" using assms(2) by (simp add: whole_body_def)
  then have b: "chunk_bytes (delivered ([] @ ?ws)) = concat (map rd_data ts)"
    using delivered_tick_chunks by (simp add: chunk_bytes_def)
  have calls: "concat (map r_acts rts) = map AWrite ?ws @ [AWriteError (Some EOF) StatusEOF t_end]"
    using assms(9) by (simp add: media_calls_def)
  have fin: "foldl coord_step ?c (map AWrite ?ws @ [AWriteError (Some EOF) StatusEOF t_end]) = ?e"
    unfolding ended_def foldl_append foldl_writes by simp
  have k: "keeps_up lbv (length (slots ?c)) [] rts" using assms(10) by simp
  have "\<exists>r'. reader_loop lbv rts r ?c = Ok (Some \<lparr>BytesWritten = rbytes r + int (length (concat (map rd_data ts))),
        ResError = Some EOF, ResStatus = StatusEOF\<rparr>, r', ?e)
      \<and> client_body (rclient r') = client_body (rclient r) @ concat (map rd_data ts)"
    using reader_gets_rest [OF w q(2) p k calls _ _ q(1) assms(6,7)] assms(8) unfolding b fin by auto
  moreover have "cstate ?e = StateClosed" by (rule ended_facts(2) [OF l]) simp_all
  moreover have "StartMediaWriter env lb now ts None t_end cm c =
      (WDone, UpdateConcurrency env (lbIndex lb) False (UpdateConcurrency env (lbIndex lb) True cm),
       ?e\<lparr>LBResultOnWrite := None\<rparr>)"
    by (rule writer_whole_body [OF assms(1-3)])
  ultimately show ?thesis using acquire_release [OF assms(4), of env "lbIndex lb"] by blast
qed

theorem viewer_gets_whole_body_witness:
  "let c = NewStreamCoordinator ''id'' sample_config;
       calls = media_calls five_reads None EOF 6;
       rts = sample_turns [take 1 calls, drop 1 (take 3 calls), [], drop 3 (take 5 calls), drop 5 calls];
       r = \<lparr>rpos = 0, inside = False, rbytes = 0, rclient = sample_client\<rparr> in
   \<exists>cm' c' r'. StartMediaWriter [] sample_lb 0 five_reads None 6 NewConcurrencyManager c = (WDone, cm', c'\<lparr>LBResultOnWrite := None\<rparr>)
    \<and> conn cm' = conn NewConcurrencyManager \<and> cstate c' = StateClosed
    \<and> reader_loop sample_lb rts r (started sample_lb c) = Ok (Some \<lparr>BytesWritten = rbytes r + int (length (concat (map rd_data five_reads))),
        ResError = Some EOF, ResStatus = StatusEOF\<rparr>, r', c')
    \<and> client_body (rclient r') = client_body (rclient r) @ concat (map rd_data five_reads)"
  unfolding Let_def
proof (rule viewer_gets_whole_body [OF _ _ _ sample_counted])
  let ?c = "NewStreamCoordinator ''id'' sample_config"
  show "live (Suc (length five_reads)) ?c" by (rule live_sample) (simp add: five_reads_def)
  show "whole_body five_reads" by (simp add: whole_body_def five_reads_def)
  show "in_time (getTimeoutDuration ?c) 0 five_reads"
    by (simp add: five_reads_def getTimeoutDuration_def NewStreamCoordinator_def sample_config_def)
  show "IsWritable (rclient \<lparr>rpos = 0, inside = False, rbytes = 0, rclient = sample_client\<rparr>)"
    using sample_client_facts(1) by simp
qed (auto simp: five_reads_def sample_turns_def media_calls_def NewStreamCoordinator_def sample_config_def
    intro!: sample_smooth)

section \<open>Clients that leave and clients that come\<close>

text \<open>A client that waits for data is served nothing and is not released by its own
  cancellation: as long as nothing is written it stays in \<open>ReadChunks\<close>, whatever its context says.\<close>

theorem waiting_client_ignores_cancellation:
  assumes "inside r" "rpos r = wpos c" "cstate c = StateActive" "\<forall>t \<in> set ts. r_acts t = []"
  shows "reader_loop lb ts r c = Ok (None, r, c)"
  using assms(4)
proof (induction ts)
  case (Cons t ts)
  have "reader_turn lb t r c = Ok (None, r)"
    using assms(1-3) by (simp add: reader_turn_def ReadFrom_def must_wait_def)
  with Cons show ?case by simp
qed simp

theorem waiting_client_ignores_cancellation_witness:
  "let c = NewStreamCoordinator ''id'' sample_config;
       r = \<lparr>rpos = 0, inside = True, rbytes = 0, rclient = sample_client\<rparr>;
       ts = replicate 5 \<lparr>r_acts = [], r_ctx = Some Canceled, r_io = sample_io\<rparr> in
   reader_loop sample_lb ts r c = Ok (None, r, c)"
  unfolding Let_def
  by (rule waiting_client_ignores_cancellation) (simp_all add: NewStreamCoordinator_def)

text \<open>The restart window: a client that joins after the last one has cleaned up and before the old
  writer has noticed that its context is cancelled starts no writer of its own; the stream is
  active again, the old writer then ends it with the cancellation, and that is what the new
  client reads, with the status of a client that has gone.\<close>

theorem client_in_restart_window_is_cancelled:
  assumes "coord_ok c" "ClientCount c = 1" "WriterActive c" "WriterCancel c = Some k"
    and "1 < length (slots c)" "0 \<le> writeSeq c" "writeSeq c + 1 < 9223372036854775808"
    and "before t = []" "ctx_err t = Some Canceled"
  shows "let (started_writer, d) = join (cleanup_client c) in
    \<not> started_writer \<and> cstate d = StateActive \<and> k \<in> set (cancelled d)
    \<and> write_loop timeout (t # ts) s d = Ok (Return (Some Canceled) s d)
    \<and> (\<exists>d'. report_error (Some Canceled) now Canceled d = Ok d'
        \<and> ReadChunks (Some (wpos d)) d' = Ok (ReadRes []
            (Some \<lparr>Buffer = None, Error = Some Canceled, Status = StatusClientClosed, Timestamp = now, seq = 0\<rparr>)
            (wpos d')))"
proof -
  let ?l = "cleanup_client c"
  have ok: "ring_ok c" using assms(1) by (simp add: coord_ok_def)
  note cl = cleanup_last [OF ok assms(2)]
  have sq: "writeSeq ?l = writeSeq c"
    by (auto simp: cleanup_client_def Let_def frame_simps split: option.split)
  have j: "join ?l = (False, RegisterClient ?l)" using cl(5) assms(3) by (simp add: join_def start_writer_def)
  define d where "d = RegisterClient ?l"
  have d: "ring_ok d" "cstate d = StateActive" "LastError d = Some None" "length (slots d) = length (slots c)"
    "k \<in> set (cancelled d)"
    using cl(1,3,6,7) assms(4) by (simp_all add: d_def frame_simps coord_ok_def) (simp add: RegisterClient_def)
  have l: "live (Suc (length [])) d" using d assms(6,7) by (simp add: live_def d_def frame_simps sq)
  have "report_error (Some Canceled) now Canceled d = Ok (ended [] (Some Canceled) StatusClientClosed now d)"
    by (simp add: report_error_def ended_def writeError_eq [OF d(1)])
  moreover have "ReadChunks (Some (wpos d)) (ended [] (Some Canceled) StatusClientClosed now d) =
      Ok (ReadRes [] (Some \<lparr>Buffer = None, Error = Some Canceled, Status = StatusClientClosed, Timestamp = now, seq = 0\<rparr>)
        (wpos (ended [] (Some Canceled) StatusClientClosed now d)))"
    using error_reaches_waiting_reader [OF l, of "Some Canceled" StatusClientClosed now] d(4) assms(5)
    by (simp add: delivered_def)
  moreover have "write_loop timeout (t # ts) s d = Ok (Return (Some Canceled) s d)"
    using assms(8,9) d(2) by (simp add: loop_body_def)
  ultimately show ?thesis using j d by (simp add: d_def)
qed

theorem client_in_restart_window_is_cancelled_witness:
  "let c = snd (join (NewStreamCoordinator ''id'' sample_config));
       t = (sample_tick [] None 0)\<lparr>ctx_err := Some Canceled\<rparr>; s = start_state 0 c in
   let (started_writer, d) = join (cleanup_client c) in
    \<not> started_writer \<and> cstate d = StateActive \<and> 0 \<in> set (cancelled d)
    \<and> write_loop 3 (t # []) s d = Ok (Return (Some Canceled) s d)
    \<and> (\<exists>d'. report_error (Some Canceled) 7 Canceled d = Ok d'
        \<and> ReadChunks (Some (wpos d)) d' = Ok (ReadRes []
            (Some \<lparr>Buffer = None, Error = Some Canceled, Status = StatusClientClosed, Timestamp = 7, seq = 0\<rparr>)
            (wpos d')))"
proof -
  let ?n = "NewStreamCoordinator ''id'' sample_config" let ?c = "snd (join ?n)"
  let ?t = "(sample_tick [] None 0)\<lparr>ctx_err := Some Canceled\<rparr>"
  have n: "ClientCount ?n = 0" "\<not> WriterActive ?n" "length (slots ?n) = 3" "writeSeq ?n = 0"
    by (simp_all add: NewStreamCoordinator_def sample_config_def)
  note j = join_facts [OF sample_coord n(1,2)]
  have 1: "coord_ok ?c" "1 < length (slots ?c)" "0 \<le> writeSeq ?c" "writeSeq ?c + 1 < 9223372036854775808"
    using j n by (simp_all add: coord_ok_def)
  have 2: "WriterCancel ?c = Some 0"
    by (simp add: join_def start_writer_def RegisterClient_def ClearBuffer_def NewStreamCoordinator_def Let_def)
  have 3: "before ?t = []" "ctx_err ?t = Some Canceled" by (simp_all add: sample_tick_def)
  show ?thesis unfolding Let_def
    by (rule client_in_restart_window_is_cancelled [unfolded Let_def, OF 1(1) j(8,9) 2 1(2-4) 3])
qed

end
