(* ===== verification/Registry.thy ===== *)
theory Registry
  imports StreamHandler
begin

text \<open>
  \<^verbatim>\<open>proxy/stream/buffer/registry.go\<close>: the coordinators by stream.  The \<open>xsync.MapOf\<close> of pointers is
  two maps: the entries (key to address, in the order in which \<open>Range\<close> visits them) and a store of
  coordinators by address, because one coordinator is shared by the registry and its clients.
  Addresses are handed out in order.  Each call of a map operation is atomic; the functions
  below run the operations of one call without another call in between, except \<open>get_or_create\<close>,
  whose lookup and store are also given apart.
\<close>

record Registry =
  entries :: "(string \<times> nat) list"
  heap :: "nat \<Rightarrow> Coord option"
  next_addr :: nat
  reg_config :: StreamConfig
  closed_done :: bool

definition NewStreamRegistry :: "StreamConfig \<Rightarrow> Registry" where
  "NewStreamRegistry cfg =
     \<lparr>entries = [], heap = Map.empty, next_addr = 0, reg_config = cfg, closed_done = False\<rparr>"

definition heap_upd :: "nat \<Rightarrow> (Coord \<Rightarrow> Coord) \<Rightarrow> Registry \<Rightarrow> Registry" where
  "heap_upd a f r = r\<lparr>heap := (heap r)(a := map_option f (heap r a))\<rparr>"

text \<open>\<open>Range\<close> with the callback that stops at the first coordinator of a URL.\<close>

fun find_url :: "(nat \<Rightarrow> Coord option) \<Rightarrow> string \<Rightarrow> (string \<times> nat) list \<Rightarrow> nat option" where
  "find_url h url [] = None"
| "find_url h url ((k, a) # es) =
     (case h a of
        Some c \<Rightarrow> if GetActualURL c = url then Some a else find_url h url es
      | None \<Rightarrow> find_url h url es)"

definition GetCoordinatorByActualURL :: "string \<Rightarrow> Registry \<Rightarrow> nat option" where
  "GetCoordinatorByActualURL url r = (if url = [] then None else find_url (heap r) url (entries r))"

definition set_url :: "string \<Rightarrow> nat \<Rightarrow> Registry \<Rightarrow> Registry" where
  "set_url url a r = (if url \<noteq> [] then heap_upd a (SetActualURL url) r else r)"

text \<open>
  The call up to the failed lookup by key (\<open>Inl\<close> is an early return), and the rest of it: build a
  coordinator, give it the URL, \<open>LoadOrStore\<close>.
\<close>

definition lookup_coordinator :: "string \<Rightarrow> string \<Rightarrow> Registry \<Rightarrow> (nat + unit) \<times> Registry" where
  "lookup_coordinator sid url r =
     (case (if url \<noteq> [] then find_url (heap r) url (entries r) else None) of
        Some a \<Rightarrow> (Inl a, r)
      | None \<Rightarrow>
          (case map_of (entries r) sid of
             Some a \<Rightarrow> (Inl a, set_url url a r)
           | None \<Rightarrow> (Inr (), r)))"

definition create_coordinator :: "string \<Rightarrow> string \<Rightarrow> Registry \<Rightarrow> nat \<times> Registry" where
  "create_coordinator sid url r =
     (let a = next_addr r;
          r1 = r\<lparr>heap := (heap r)(a \<mapsto> NewStreamCoordinator sid (reg_config r)), next_addr := Suc a\<rparr>;
          r2 = set_url url a r1
      in case map_of (entries r2) sid of
           Some b \<Rightarrow> (b, set_url url b r2)
         | None \<Rightarrow> (a, r2\<lparr>entries := entries r2 @ [(sid, a)]\<rparr>))"

definition GetOrCreateCoordinator :: "string \<Rightarrow> string \<Rightarrow> Registry \<Rightarrow> nat \<times> Registry" where
  "GetOrCreateCoordinator sid url r =
     (case lookup_coordinator sid url r of
        (Inl a, r') \<Rightarrow> (a, r')
      | (Inr _, r') \<Rightarrow> create_coordinator sid url r')"

definition RemoveCoordinator :: "string \<Rightarrow> Registry \<Rightarrow> Registry" where
  "RemoveCoordinator k r = r\<lparr>entries := AList.delete k (entries r)\<rparr>"

text \<open>\<open>cleanup\<close>: a \<open>Range\<close> over the entries present when it starts.\<close>

definition cleanup_entry :: "Registry \<Rightarrow> string \<times> nat \<Rightarrow> Registry" where
  "cleanup_entry r e =
     (case heap r (snd e) of
        Some c \<Rightarrow> if ClientCount c = 0 then RemoveCoordinator (fst e) r else r
      | None \<Rightarrow> r)"

definition cleanup :: "Registry \<Rightarrow> Registry" where
  "cleanup r = foldl cleanup_entry r (entries r)"

text \<open>
  The goroutine that cleans up, over the events it waits for: the closing of \<open>done\<close>, or a tick of its
  ticker, before which other goroutines have changed the registry.  The first component tells
  whether it has returned.
\<close>

datatype cleanup_event = Stop | Tick "Registry \<Rightarrow> Registry"

fun runCleanup :: "cleanup_event list \<Rightarrow> Registry \<Rightarrow> bool \<times> Registry" where
  "runCleanup [] r = (False, r)"
| "runCleanup (Stop # es) r = (True, r)"
| "runCleanup (Tick world # es) r = runCleanup es (cleanup (world r))"

definition Shutdown :: "Registry \<Rightarrow> Registry outcome" where
  "Shutdown r = (if closed_done r then Panic ''close of closed channel''
     else Ok (r\<lparr>closed_done := True, entries := []\<rparr>))"

section \<open>Well-formed registries\<close>

definition reg_ok :: "Registry \<Rightarrow> bool" where
  "reg_ok r \<longleftrightarrow> distinct (map fst (entries r)) \<and> distinct (map snd (entries r))
     \<and> (\<forall>e \<in> set (entries r). snd e < next_addr r)
     \<and> (\<forall>a < next_addr r. heap r a \<noteq> None)"

lemma reg_ok_New: "reg_ok (NewStreamRegistry cfg)"
  by (simp add: reg_ok_def NewStreamRegistry_def)

lemma heap_upd_simps [simp]:
  "entries (heap_upd a f r) = entries r" "next_addr (heap_upd a f r) = next_addr r"
  "reg_config (heap_upd a f r) = reg_config r" "reg_ok (heap_upd a f r) = reg_ok r"
  by (auto simp: heap_upd_def reg_ok_def)

lemma set_url_simps [simp]:
  "entries (set_url u a r) = entries r" "next_addr (set_url u a r) = next_addr r"
  "reg_config (set_url u a r) = reg_config r" "reg_ok (set_url u a r) = reg_ok r"
  by (simp_all add: set_url_def)

lemma find_url_Some:
  "find_url h url es = Some a \<Longrightarrow> \<exists>k c. (k, a) \<in> set es \<and> h a = Some c \<and> GetActualURL c = url"
  by (induction es) (auto split: option.splits if_splits)

lemma find_url_None:
  "find_url h url es = None \<Longrightarrow> (k, a) \<in> set es \<Longrightarrow> h a = Some c \<Longrightarrow> GetActualURL c \<noteq> url"
  by (induction es) (auto split: option.splits if_splits)

lemma lookup_ok: "reg_ok r \<Longrightarrow> reg_ok (snd (lookup_coordinator sid url r))"
  by (simp add: lookup_coordinator_def split: option.split)

lemma create_ok:
  assumes "reg_ok r"
  shows "reg_ok (snd (create_coordinator sid url r))"
proof -
  let ?a = "next_addr r"
  let ?r = "r\<lparr>heap := (heap r)(?a \<mapsto> NewStreamCoordinator sid (reg_config r)), next_addr := Suc ?a\<rparr>"
  have 1: "reg_ok ?r" using assms by (auto simp: reg_ok_def less_Suc_eq)
  show ?thesis
  proof (cases "map_of (entries r) sid")
    case None
    then have "sid \<notin> fst ` set (entries r)" by (simp add: map_of_eq_None_iff)
    moreover have "?a \<notin> snd ` set (entries r)" using assms by (auto simp: reg_ok_def)
    moreover have "\<forall>b < Suc ?a. heap (set_url url ?a ?r) b \<noteq> None"
      using 1 set_url_simps(4) [of url ?a ?r] by (simp only: reg_ok_def) simp
    ultimately show ?thesis
      using None 1 by (auto simp: create_coordinator_def Let_def reg_ok_def less_SucI)
  qed (use 1 in \<open>simp add: create_coordinator_def Let_def\<close>)
qed

lemma GetOrCreate_ok: "reg_ok r \<Longrightarrow> reg_ok (snd (GetOrCreateCoordinator sid url r))"
  using lookup_ok [of r sid url] create_ok [of "snd (lookup_coordinator sid url r)" sid url]
  by (auto simp: GetOrCreateCoordinator_def split: prod.splits sum.splits)

section \<open>What the handlers rely on\<close>

text \<open>
  A registry hands out one object per key: a request creates the object of an absent key and
  never moves the one of a present key.
\<close>

locale keyed_registry =
  fixes get :: "'k \<Rightarrow> 'u \<Rightarrow> 'r \<Rightarrow> 'a \<times> 'r"
    and plain :: "'u"
    and key :: "'r \<Rightarrow> 'k \<Rightarrow> 'a option"
    and ok :: "'r \<Rightarrow> bool"
  assumes get_ok: "ok r \<Longrightarrow> ok (snd (get k u r))"
    and get_keeps: "ok r \<Longrightarrow> key r k = Some a \<Longrightarrow> key (snd (get k' u r)) k = Some a"
    and get_key: "ok r \<Longrightarrow> key (snd (get k plain r)) k = Some (fst (get k plain r))"
begin

definition serve :: "'r \<Rightarrow> ('k \<times> 'u) list \<Rightarrow> 'r" where
  "serve r reqs = foldl (\<lambda>r (k, u). snd (get k u r)) r reqs"

lemma serve_keeps: "ok r \<Longrightarrow> key r k = Some a \<Longrightarrow> ok (serve r reqs) \<and> key (serve r reqs) k = Some a"
  unfolding serve_def by (induction reqs arbitrary: r) (auto simp: get_ok get_keeps)

lemma same_object:
  assumes "ok r"
  shows "fst (get k plain (serve (snd (get k plain r)) reqs)) = fst (get k plain r)"
proof -
  let ?r = "serve (snd (get k plain r)) reqs"
  have "ok ?r \<and> key ?r k = Some (fst (get k plain r))"
    using serve_keeps [OF get_ok [OF assms] get_key [OF assms]] .
  then show ?thesis
    using get_key [of ?r k] get_keeps [of ?r k "fst (get k plain r)" k plain] by simp
qed

end

definition reg_key :: "Registry \<Rightarrow> string \<Rightarrow> nat option" where
  "reg_key r k = map_of (entries r) k"

lemma create_key:
  "reg_key (snd (create_coordinator sid url r)) k =
    (if k = sid then Some (fst (create_coordinator sid url r)) else reg_key r k)"
  by (auto simp: create_coordinator_def reg_key_def Let_def map_add_def split: option.splits)

lemma lookup_key [simp]: "reg_key (snd (lookup_coordinator sid url r)) k = reg_key r k"
  by (simp add: lookup_coordinator_def reg_key_def split: option.split)

lemma lookup_pair_key: "lookup_coordinator sid url r = (x, r') \<Longrightarrow> reg_key r' k = reg_key r k"
  using lookup_key [of sid url r k] by simp

lemma lookup_Inr: "lookup_coordinator sid url r = (Inr x, r') \<Longrightarrow> r' = r \<and> reg_key r sid = None"
  by (auto simp: lookup_coordinator_def reg_key_def split: option.splits)

interpretation streams: keyed_registry GetOrCreateCoordinator "[]" reg_key reg_ok
proof
  show "reg_ok (snd (GetOrCreateCoordinator k u r))" if "reg_ok r" for k u r
    by (rule GetOrCreate_ok [OF that])
  show "reg_key (snd (GetOrCreateCoordinator k' u r)) k = Some a"
    if "reg_ok r" "reg_key r k = Some a" for r k a k' u
    using that
    by (auto simp: GetOrCreateCoordinator_def create_key lookup_pair_key
        split: prod.splits sum.splits dest: lookup_Inr)
  show "reg_key (snd (GetOrCreateCoordinator k [] r)) k = Some (fst (GetOrCreateCoordinator k [] r))"
    if "reg_ok r" for r k
    using create_key [of k "[]" r k]
    by (auto simp: GetOrCreateCoordinator_def lookup_coordinator_def reg_key_def set_url_def
        split: option.splits)
qed

text \<open>Two requests that both find no coordinator for a stream and then both build one end up with
  the same one: the second \<open>LoadOrStore\<close> returns what the first has stored.\<close>

theorem concurrent_creators_agree:
  assumes "lookup_coordinator sid url r = (Inr (), r)" "lookup_coordinator sid url' r = (Inr (), r)"
  shows "let (a, r1) = create_coordinator sid url r; (b, r2) = create_coordinator sid url' r1 in
    a = b \<and> reg_key r2 sid = Some a"
proof -
  have k: "reg_key (snd (create_coordinator sid url r)) sid = Some (fst (create_coordinator sid url r))"
    by (simp add: create_key)
  have "fst (create_coordinator sid url' r1) = a" if "reg_key r1 sid = Some a" for r1 a
    using that by (simp add: create_coordinator_def reg_key_def Let_def)
  from this [OF k] create_key [of sid url' "snd (create_coordinator sid url r)" sid] show ?thesis
    by (simp add: split_beta Let_def)
qed

theorem concurrent_creators_agree_witness:
  "let r = NewStreamRegistry sample_config in
   let (a, r1) = create_coordinator ''s'' [] r; (b, r2) = create_coordinator ''s'' ''http://h/s'' r1 in
    a = b \<and> reg_key r2 ''s'' = Some a"
proof -
  have "lookup_coordinator ''s'' u (NewStreamRegistry sample_config) = (Inr (), NewStreamRegistry sample_config)" for u
    by (simp add: lookup_coordinator_def NewStreamRegistry_def)
  from concurrent_creators_agree [OF this this] show ?thesis unfolding Let_def .
qed

section \<open>Cleanup\<close>

definition idle :: "Registry \<Rightarrow> string \<times> nat \<Rightarrow> bool" where
  "idle r e \<longleftrightarrow> (case heap r (snd e) of Some c \<Rightarrow> ClientCount c = 0 | None \<Rightarrow> False)"

lemma cleanup_loop:
  "foldl cleanup_entry r es = r\<lparr>entries := filter (\<lambda>e. fst e \<notin> fst ` {e \<in> set es. idle r e}) (entries r)\<rparr>"
proof (induction es arbitrary: r)
  case Nil
  then show ?case by simp
next
  case (Cons e es)
  let ?r = "cleanup_entry r e"
  have e: "?r = r\<lparr>entries := (if idle r e then AList.delete (fst e) (entries r) else entries r)\<rparr>"
    by (simp add: cleanup_entry_def RemoveCoordinator_def idle_def split: option.split)
  have i: "idle ?r = idle r" by (simp add: fun_eq_iff idle_def e)
  have f: "filter (\<lambda>x. fst x \<notin> fst ` {x \<in> set es. idle r x}) (entries ?r)
      = filter (\<lambda>x. fst x \<notin> fst ` {x \<in> set (e # es). idle r x}) (entries r)"
    by (auto simp: e AList.delete_eq filter_filter split_beta intro!: filter_cong)
  have "foldl cleanup_entry r (e # es)
      = ?r\<lparr>entries := filter (\<lambda>x. fst x \<notin> fst ` {x \<in> set es. idle r x}) (entries ?r)\<rparr>"
    unfolding foldl_Cons Cons.IH i ..
  also have "\<dots> = r\<lparr>entries := filter (\<lambda>x. fst x \<notin> fst ` {x \<in> set (e # es). idle r x}) (entries r)\<rparr>"
    unfolding f by (simp add: e)
  finally show ?case .
qed

lemma cleanup_eq:
  assumes "reg_ok r"
  shows "cleanup r = r\<lparr>entries := filter (\<lambda>e. \<not> idle r e) (entries r)\<rparr>"
proof -
  have "fst e \<in> fst ` {e \<in> set (entries r). idle r e} \<longleftrightarrow> idle r e" if "e \<in> set (entries r)" for e
    using assms that by (auto simp: reg_ok_def distinct_map inj_on_def)
  then have "filter (\<lambda>e. fst e \<notin> fst ` {e \<in> set (entries r). idle r e}) (entries r)
      = filter (\<lambda>e. \<not> idle r e) (entries r)"
    by (intro filter_cong) auto
  then show ?thesis by (simp only: cleanup_def cleanup_loop)
qed

lemma GetOrCreate_absent:
  "reg_key r sid = None \<Longrightarrow> GetOrCreateCoordinator sid [] r =
    (next_addr r, r\<lparr>entries := entries r @ [(sid, next_addr r)],
      heap := (heap r)(next_addr r \<mapsto> NewStreamCoordinator sid (reg_config r)), next_addr := Suc (next_addr r)\<rparr>)"
  by (simp add: GetOrCreateCoordinator_def lookup_coordinator_def create_coordinator_def
      reg_key_def set_url_def Let_def)

text \<open>A cleanup removes exactly the entries whose coordinator has no client at that moment, keeps
  the others in their order, and touches no coordinator.\<close>

theorem cleanup_removes_exactly_idle:
  assumes "reg_ok r"
  shows "cleanup r = r\<lparr>entries := filter (\<lambda>e. \<not> idle r e) (entries r)\<rparr>"
  using assms by (rule cleanup_eq)

theorem cleanup_removes_exactly_idle_witness:
  "let r = snd (GetOrCreateCoordinator ''a'' [] (NewStreamRegistry sample_config)) in
   cleanup r = r\<lparr>entries := filter (\<lambda>e. \<not> idle r e) (entries r)\<rparr>"
  unfolding Let_def by (rule cleanup_removes_exactly_idle [OF GetOrCreate_ok [OF reg_ok_New]])

section \<open>One coordinator for all requests\<close>

text \<open>
  What happens to a registry: a request asks for a coordinator, the cleanup runs, or a client or a
  writer calls an operation of a coordinator.  Nothing else removes an entry: only \<open>cleanup\<close> calls
  \<open>RemoveCoordinator\<close>.
\<close>

datatype reg_event = Request string string | Cleanup | Use nat "Coord \<Rightarrow> Coord"

fun reg_move :: "reg_event \<Rightarrow> Registry \<Rightarrow> Registry" where
  "reg_move (Request k u) r = snd (GetOrCreateCoordinator k u r)"
| "reg_move Cleanup r = cleanup r"
| "reg_move (Use a f) r = heap_upd a f r"

text \<open>An event that leaves the entry of \<open>k\<close>: any but a cleanup that finds its coordinator without a client.\<close>

definition spares :: "string \<Rightarrow> Registry \<Rightarrow> reg_event \<Rightarrow> bool" where
  "spares k r e = (case e of
     Cleanup \<Rightarrow> (case reg_key r k of Some a \<Rightarrow> \<not> idle r (k, a) | None \<Rightarrow> True)
   | _ \<Rightarrow> True)"

fun all_spare :: "('e \<Rightarrow> 'r \<Rightarrow> 'r) \<Rightarrow> ('r \<Rightarrow> 'e \<Rightarrow> bool) \<Rightarrow> 'e list \<Rightarrow> 'r \<Rightarrow> bool" where
  "all_spare mv sp [] r \<longleftrightarrow> True"
| "all_spare mv sp (e # es) r \<longleftrightarrow> sp r e \<and> all_spare mv sp es (mv e r)"

text \<open>A registry of objects with events that may remove one; those that spare it keep it.\<close>

locale collected_registry = keyed_registry get plain key ok
  for get :: "'k \<Rightarrow> 'u \<Rightarrow> 'r \<Rightarrow> 'a \<times> 'r" and plain :: "'u" and key :: "'r \<Rightarrow> 'k \<Rightarrow> 'a option" and ok :: "'r \<Rightarrow> bool" +
  fixes mv :: "'e \<Rightarrow> 'r \<Rightarrow> 'r" and sp :: "'k \<Rightarrow> 'r \<Rightarrow> 'e \<Rightarrow> bool"
  assumes mv_ok: "ok r \<Longrightarrow> ok (mv e r)"
    and mv_keeps: "ok r \<Longrightarrow> key r k = Some a \<Longrightarrow> sp k r e \<Longrightarrow> key (mv e r) k = Some a"
begin

lemma run_keeps:
  "ok r \<Longrightarrow> key r k = Some a \<Longrightarrow> all_spare mv (sp k) es r \<Longrightarrow>
    ok (foldl (\<lambda>r e. mv e r) r es) \<and> key (foldl (\<lambda>r e. mv e r) r es) k = Some a"
  by (induction es arbitrary: r) (auto simp: mv_ok mv_keeps)

lemma run_same_object:
  assumes "ok r" "all_spare mv (sp k) es (snd (get k plain r))"
  shows "let r' = foldl (\<lambda>r e. mv e r) (snd (get k plain r)) es in
    ok r' \<and> key r' k = Some (fst (get k plain r)) \<and> fst (get k plain r') = fst (get k plain r)"
proof -
  let ?r = "foldl (\<lambda>r e. mv e r) (snd (get k plain r)) es"
  have r: "ok ?r" "key ?r k = Some (fst (get k plain r))"
    using run_keeps [OF get_ok [OF assms(1)] get_key [OF assms(1)] assms(2)] by blast+
  then have "fst (get k plain ?r) = fst (get k plain r)"
    using get_key [of ?r k] get_keeps [of ?r k "fst (get k plain r)" k plain] by simp
  with r show ?thesis by (simp add: Let_def)
qed

end

lemma cleanup_ok: "reg_ok r \<Longrightarrow> reg_ok (cleanup r)"
  by (auto simp: cleanup_eq reg_ok_def distinct_map_filter)

lemma cleanup_key:
  assumes "reg_ok r" "reg_key r k = Some a"
  shows "reg_key (cleanup r) k = (if idle r (k, a) then None else Some a)"
proof -
  have d: "distinct (map fst (entries r))" "(k, a) \<in> set (entries r)"
    using assms(1) map_of_SomeD [OF assms(2) [unfolded reg_key_def]] by (simp_all add: reg_ok_def)
  have u: "b = a" if "(k, b) \<in> set (entries r)" for b
    by (rule eq_key_imp_eq_value [OF d(1) that d(2)])
  let ?es = "filter (\<lambda>e. \<not> idle r e) (entries r)"
  have f: "distinct (map fst ?es)" using d(1) by (simp add: distinct_map_filter)
  have c: "reg_key (cleanup r) k = map_of ?es k" by (simp add: reg_key_def cleanup_eq [OF assms(1)])
  show ?thesis
  proof (cases "idle r (k, a)")
    case True
    with u have "k \<notin> fst ` set ?es" by auto
    with True c show ?thesis by (simp add: map_of_eq_None_iff)
  next
    case False
    with d(2) have "(k, a) \<in> set ?es" by simp
    with f False c show ?thesis by simp
  qed
qed

interpretation collected: collected_registry GetOrCreateCoordinator "[]" reg_key reg_ok reg_move spares
proof unfold_locales
  show "reg_ok (reg_move e r)" if "reg_ok r" for e r
    using that by (cases e) (simp_all add: GetOrCreate_ok cleanup_ok)
  show "reg_key (reg_move e r) k = Some a" if "reg_ok r" "reg_key r k = Some a" "spares k r e" for e r k a
  proof (cases e)
    case (Request k' u)
    then show ?thesis using streams.get_keeps [OF that(1,2)] by simp
  next
    case Cleanup
    then show ?thesis using cleanup_key [OF that(1,2)] that(2,3) by (simp add: spares_def)
  next
    case (Use b f)
    then show ?thesis using that(2) by (simp add: reg_key_def)
  qed
qed

text \<open>C29. All clients of a stream meet at one coordinator exactly until a cleanup finds it without a client:
  after a request for a stream, whatever happens to the registry - requests for this and other
  streams, with and without the URL of their source, joins and leaves, cleanups - the next request
  for it gets the same coordinator as long as every cleanup has found a client in it; and a cleanup
  that finds none makes the next request get another one.\<close>

theorem clients_share_coordinator:
  assumes "reg_ok r" "GetOrCreateCoordinator sid [] r = (a, r0)" "all_spare reg_move (spares sid) es r0"
    and "r1 = foldl (\<lambda>r e. reg_move e r) r0 es"
  shows "fst (GetOrCreateCoordinator sid [] r1) = a
    \<and> (idle r1 (sid, a) \<longrightarrow> fst (GetOrCreateCoordinator sid [] (reg_move Cleanup r1)) \<noteq> a)"
proof -
  have r1: "reg_ok r1" "reg_key r1 sid = Some a" "fst (GetOrCreateCoordinator sid [] r1) = a"
    using collected.run_same_object [OF assms(1), of sid es] assms(2,3,4) by (simp_all add: Let_def)
  have "fst (GetOrCreateCoordinator sid [] (cleanup r1)) \<noteq> a" if "idle r1 (sid, a)"
  proof -
    have "reg_key (cleanup r1) sid = None" using cleanup_key [OF r1(1,2)] that by simp
    then have "fst (GetOrCreateCoordinator sid [] (cleanup r1)) = next_addr r1"
      using GetOrCreate_absent cleanup_eq [OF r1(1)] by simp
    moreover have "a < next_addr r1"
      using r1(1) map_of_SomeD [OF r1(2) [unfolded reg_key_def]] by (auto simp: reg_ok_def)
    ultimately show ?thesis by simp
  qed
  with r1(3) show ?thesis by simp
qed

theorem clients_share_coordinator_witness:
  "let es = [Use 0 RegisterClient, Request ''b'' ''http://h/b'', Cleanup, Request ''a'' [], Use 0 UnregisterClient];
       (a, r0) = GetOrCreateCoordinator ''a'' [] (NewStreamRegistry sample_config);
       r1 = foldl (\<lambda>r e. reg_move e r) r0 es in
   a = 0 \<and> idle r1 (''a'', a) \<and> fst (GetOrCreateCoordinator ''a'' [] r1) = a
    \<and> fst (GetOrCreateCoordinator ''a'' [] (reg_move Cleanup r1)) \<noteq> a"
proof -
  let ?es = "[Use 0 RegisterClient, Request ''b'' ''http://h/b'', Cleanup, Request ''a'' [], Use 0 UnregisterClient]"
  have "reg_key (NewStreamRegistry sample_config) ''a'' = None" by (simp add: reg_key_def NewStreamRegistry_def)
  note g = GetOrCreate_absent [OF this]
  let ?r0 = "snd (GetOrCreateCoordinator ''a'' [] (NewStreamRegistry sample_config))"
  let ?r1 = "foldl (\<lambda>r e. reg_move e r) ?r0 ?es"
  note evs = NewStreamRegistry_def reg_key_def idle_def heap_upd_def RegisterClient_def UnregisterClient_def
    NewStreamCoordinator_def GetOrCreateCoordinator_def lookup_coordinator_def create_coordinator_def
    set_url_def cleanup_def cleanup_entry_def RemoveCoordinator_def GetActualURL_def SetActualURL_def Let_def
  have sp: "all_spare reg_move (spares ''a'') ?es ?r0"
    unfolding g by (simp add: spares_def evs)
  have i: "idle ?r1 (''a'', 0)" unfolding g by (simp add: evs notifySubscribers_def ClearBuffer_def)
  have e: "GetOrCreateCoordinator ''a'' [] (NewStreamRegistry sample_config) = (0, ?r0)"
    unfolding g by (simp add: NewStreamRegistry_def)
  show ?thesis
    using clients_share_coordinator [OF reg_ok_New e sp refl] i
    by (subst e) (simp only: Let_def prod.case simp_thms)
qed

text \<open>A stream with a well-formed registry and a client.\<close>

definition watched :: "string \<Rightarrow> nat \<Rightarrow> Registry \<Rightarrow> bool" where
  "watched k a r \<longleftrightarrow> reg_ok r \<and> (k, a) \<in> set (entries r) \<and> \<not> idle r (k, a)"

lemma cleanup_watched: "watched k a r \<Longrightarrow> watched k a (cleanup r)"
  by (auto simp: watched_def cleanup_eq reg_ok_def idle_def distinct_map_filter split: option.splits)

text \<open>C30. As long as every tick of the cleanup finds a client in the coordinator of a stream, the stream keeps
  that coordinator, however many ticks pass and whatever else happens to the registry.\<close>

theorem watched_stream_survives_cleanup:
  assumes "watched k a r" "\<forall>world. Tick world \<in> set es \<longrightarrow> (\<forall>r. watched k a r \<longrightarrow> watched k a (world r))"
  shows "watched k a (snd (runCleanup es r))"
  using assms
proof (induction es arbitrary: r)
  case (Cons e es)
  show ?case
  proof (cases e)
    case (Tick world)
    then have "watched k a (world r)" using Cons.prems by auto
    from Cons.IH [OF cleanup_watched [OF this]] Cons.prems(2) Tick show ?thesis by auto
  qed (use Cons.prems(1) in simp)
qed simp

theorem watched_stream_survives_cleanup_witness:
  "let (a, r) = GetOrCreateCoordinator ''a'' [] (NewStreamRegistry sample_config); r1 = heap_upd a RegisterClient r in
   watched ''a'' a (snd (runCleanup [Tick (\<lambda>r. r), Tick (\<lambda>r. r), Stop] r1))"
proof -
  have "reg_key (NewStreamRegistry sample_config) ''a'' = None" by (simp add: reg_key_def NewStreamRegistry_def)
  note g = GetOrCreate_absent [OF this]
  let ?r = "heap_upd 0 RegisterClient (snd (GetOrCreateCoordinator ''a'' [] (NewStreamRegistry sample_config)))"
  have "watched ''a'' 0 ?r"
    unfolding g by (simp add: watched_def reg_ok_def NewStreamRegistry_def idle_def heap_upd_def RegisterClient_def NewStreamCoordinator_def)
  from watched_stream_survives_cleanup [OF this, of "[Tick (\<lambda>r. r), Tick (\<lambda>r. r), Stop]"] show ?thesis
    unfolding g by (simp add: NewStreamRegistry_def)
qed

text \<open>A request holds its coordinator before it registers as a client: a cleanup in between removes
  the coordinator from the registry, the client then joins one that no other request can find,
  and the next request for the same stream builds a second coordinator, with a writer of its own.\<close>

theorem cleanup_orphans_joining_client:
  assumes "reg_ok r" "reg_key r sid = None"
  shows "let (a, r1) = GetOrCreateCoordinator sid [] r; r2 = cleanup r1;
      r3 = heap_upd a (\<lambda>c. snd (join c)) r2; (b, r4) = GetOrCreateCoordinator sid [] r3 in
    a \<noteq> b \<and> reg_key r4 sid = Some b
    \<and> (\<exists>c. heap r4 a = Some c \<and> ClientCount c = 1 \<and> WriterActive c)"
proof -
  let ?a = "next_addr r" let ?n = "NewStreamCoordinator sid (reg_config r)"
  define s where "s = r\<lparr>entries := entries r @ [(sid, ?a)], heap := (heap r)(?a \<mapsto> ?n), next_addr := Suc ?a\<rparr>"
  define u where "u = heap_upd ?a (\<lambda>c. snd (join c)) (cleanup s)"
  have g: "GetOrCreateCoordinator sid [] r = (?a, s)" unfolding s_def by (rule GetOrCreate_absent [OF assms(2)])
  have ok: "reg_ok s" using GetOrCreate_ok [OF assms(1), of sid "[]"] g by simp
  have "idle s (sid, ?a)" by (simp add: idle_def s_def NewStreamCoordinator_def)
  moreover have "sid \<notin> fst ` set (entries r)" using assms(2) by (simp add: reg_key_def map_of_eq_None_iff)
  moreover have "entries s = entries r @ [(sid, ?a)]" by (simp add: s_def)
  ultimately have k: "reg_key u sid = None"
    by (auto simp: u_def cleanup_eq [OF ok] reg_key_def map_of_eq_None_iff)
  have j: "ClientCount (snd (join ?n)) = 1" "WriterActive (snd (join ?n))"
    by (simp_all add: join_def start_writer_def RegisterClient_def ClearBuffer_def NewStreamCoordinator_def Let_def)
  have h: "heap u ?a = Some (snd (join ?n))" "next_addr u = Suc ?a"
    by (simp_all add: u_def cleanup_eq [OF ok] heap_upd_def) (simp_all add: s_def)
  have "GetOrCreateCoordinator sid [] u = (Suc ?a, u\<lparr>entries := entries u @ [(sid, Suc ?a)],
      heap := (heap u)(Suc ?a \<mapsto> NewStreamCoordinator sid (reg_config u)), next_addr := Suc (Suc ?a)\<rparr>)"
    using GetOrCreate_absent [OF k] h(2) by simp
  then show ?thesis
    using g k h(1) j by (simp add: u_def reg_key_def Let_def map_add_def)
qed

theorem cleanup_orphans_joining_client_witness:
  "let (a, r1) = GetOrCreateCoordinator ''s'' [] (NewStreamRegistry sample_config); r2 = cleanup r1;
      r3 = heap_upd a (\<lambda>c. snd (join c)) r2; (b, r4) = GetOrCreateCoordinator ''s'' [] r3 in
    a \<noteq> b \<and> reg_key r4 ''s'' = Some b
    \<and> (\<exists>c. heap r4 a = Some c \<and> ClientCount c = 1 \<and> WriterActive c)"
  by (rule cleanup_orphans_joining_client [OF reg_ok_New]) (simp add: reg_key_def NewStreamRegistry_def)

end
