(* ===== verification/Wakeup.thy ===== *)
theory Wakeup
  imports SharedLog
begin

text \<open>
  \<open>ReadChunks\<close> and \<open>Write\<close> of \<^verbatim>\<open>proxy/stream/buffer/coordinator.go\<close> at the grain of their locks: the
  reader tests under the read lock, releases it, subscribes, waits for the channel it got; the
  writer changes the ring under the write lock, releases it, and notifies under a second lock.
  Between these sections the other side may run.
\<close>

datatype rphase = RTest nat | RUnlocked nat | RWaiting nat nat | RDone "read_result outcome"

datatype wphase = WIdle | WNotify

type_synonym rw_state = "Coord \<times> rphase \<times> wphase"

text \<open>The locked section of a successful \<open>Write\<close>: all of it but the notification.\<close>

definition write_locked :: "ChunkData \<Rightarrow> Coord \<Rightarrow> Coord" where
  "write_locked ch c =
     (let n = int64 (writeSeq c + 1); cur = stored n ch;
          c1 = c\<lparr>slots := (slots c)[wpos c := cur], writeSeq := n,
                 wpos := (wpos c + 1) mod length (slots c)\<rparr>
      in if is_error cur
         then c1\<lparr>LastError := (if LastError c1 = None then Some (Some (wpos c)) else LastError c1),
                 cstate := StateDraining\<rparr>
         else c1)"

lemma write_in_two_sections:
  "ring_ok c \<Longrightarrow> cstate c = StateActive \<Longrightarrow> after_write ch c = notifySubscribers (write_locked ch c)"
  by (simp add: after_write_def Write_def ring_ok_def write_locked_def Let_def)

text \<open>
  The last rule is the store that ends \<open>writeError\<close>, after its \<open>Write\<close>, without a notification.
\<close>

inductive rw_step :: "rw_state \<Rightarrow> rw_state \<Rightarrow> bool" where
  test_wait: "must_wait p c \<Longrightarrow> rw_step (c, RTest p, w) (c, RUnlocked p, w)"
| test_read: "\<not> must_wait p c \<Longrightarrow> rw_step (c, RTest p, w) (c, RDone (ReadFrom p c), w)"
| subscribes: "rw_step (c, RUnlocked p, w) (c, RWaiting p (subscribe c), w)"
| woken: "g < broadcast c \<Longrightarrow> rw_step (c, RWaiting p g, w) (c, RTest p, w)"
| writes_chunk: "cstate c = StateActive \<Longrightarrow> rw_step (c, r, WIdle) (write_locked ch c, r, WNotify)"
| write_refused: "cstate c \<noteq> StateActive \<Longrightarrow> rw_step (c, r, WIdle) (c, r, WIdle)"
| notifies: "rw_step (c, r, WNotify) (notifySubscribers c, r, WIdle)"
| closes: "rw_step (c, r, WIdle) (c\<lparr>cstate := StateClosed\<rparr>, r, WIdle)"

inductive_cases waiting_stepE: "rw_step (c, RWaiting p g, WIdle) s"

code_pred rw_step .

definition stuck :: "rw_state \<Rightarrow> bool" where
  "stuck s \<longleftrightarrow> (case s of (c, RWaiting p g, WIdle) \<Rightarrow> g = broadcast c \<and> cstate c \<noteq> StateActive | _ \<Rightarrow> False)"

lemma stuck_step: "rw_step s s' \<Longrightarrow> stuck s \<Longrightarrow> stuck s'"
  by (cases s) (auto simp: stuck_def split: rphase.splits wphase.splits elim!: waiting_stepE)

lemma stuck_forever: "rw_step\<^sup>*\<^sup>* s s' \<Longrightarrow> stuck s \<Longrightarrow> stuck s'"
  by (induction rule: rtranclp_induct) (auto intro: stuck_step)

text \<open>C36. A lost wake-up: a reader that has caught up can release the lock, miss the whole write of the
  chunk that ends the stream, notification included, and only then subscribe.  It then waits for
  a notification that nobody will send: from that state on, whatever the writer does, the reader
  never leaves \<open>ReadChunks\<close>, although the error it waits for is in the ring and a read from its
  position would return it.\<close>

theorem final_error_wakeup_can_be_lost:
  assumes "ring_ok c" "cstate c = StateActive" "LastError c = Some None" "1 < length (slots c)"
    and "Error ch \<noteq> None" "Buffer ch = Some []"
  shows "\<exists>c' g. rw_step\<^sup>*\<^sup>* (c, RTest (wpos c), WIdle) (c', RWaiting (wpos c) g, WIdle)
    \<and> (\<forall>s. rw_step\<^sup>*\<^sup>* (c', RWaiting (wpos c) g, WIdle) s \<longrightarrow> fst (snd s) = RWaiting (wpos c) g)
    \<and> ReadFrom (wpos c) c' = Ok (ReadRes [] (Some (ch\<lparr>Buffer := None, seq := 0\<rparr>)) (wpos c'))"
proof (intro exI conjI allI impI)
  let ?d = "notifySubscribers (write_locked ch c)" let ?p = "wpos c"
  have d: "?d = after_write ch c" using write_in_two_sections [OF assms(1,2)] by simp
  have err: "is_error ch" using assms(5) by (simp add: is_error_def)
  note f = after_write_fields [OF assms(1,2), of ch, folded d]
  have mw: "must_wait ?p c" using assms(2) by (simp add: must_wait_def)
  have 1: "rw_step (c, RTest ?p, WIdle) (c, RUnlocked ?p, WIdle)" by (rule test_wait [OF mw])
  have 2: "rw_step (c, RUnlocked ?p, WIdle) (write_locked ch c, RUnlocked ?p, WNotify)"
    by (rule writes_chunk [OF assms(2)])
  have 3: "rw_step (write_locked ch c, RUnlocked ?p, WNotify) (?d, RUnlocked ?p, WIdle)" by (rule notifies)
  have 4: "rw_step (?d, RUnlocked ?p, WIdle) (?d, RWaiting ?p (broadcast ?d), WIdle)"
    using subscribes [of ?d ?p WIdle] by (simp only: subscribe_def)
  show "rw_step\<^sup>*\<^sup>* (c, RTest ?p, WIdle) (?d, RWaiting ?p (broadcast ?d), WIdle)"
    using 1 2 3 4 by (meson converse_rtranclp_into_rtranclp rtranclp.rtrancl_refl)
  have st: "stuck (?d, RWaiting ?p (broadcast ?d), WIdle)" using f(4) err by (simp add: stuck_def)
  show "fst (snd s) = RWaiting ?p (broadcast ?d)" if r: "rw_step\<^sup>*\<^sup>* (?d, RWaiting ?p (broadcast ?d), WIdle) s" for s
  proof -
    have "stuck s \<and> fst (snd s) = RWaiting ?p (broadcast ?d)" using r st
    proof (induction rule: rtranclp_induct)
      case (step y z)
      then obtain c1 where "y = (c1, RWaiting ?p (broadcast ?d), WIdle)" "broadcast ?d = broadcast c1"
        by (cases y) (auto simp: stuck_def split: wphase.splits)
      with step stuck_step [of y z] show ?case by (auto elim!: waiting_stepE simp: stuck_def)
    qed simp
    then show ?thesis by blast
  qed
  have n: "wpos c < length (slots c)" using assms(1) by (simp add: ring_ok_def)
  have dok: "ring_ok ?d" "LastError ?d = Some None" using assms(1,3) f(8) unfolding d by simp_all
  have b: "behind 1 ?d = ?p"
    using behind_after_writes [of ?p "length (slots c)" ?d 1] n f(1,2) assms(4) by simp
  have "last_n 1 (ring_view ?d) = [stored (int64 (writeSeq c + 1)) ch]"
    using ring_view_after_write [OF assms(1,2), of ch] by (simp add: d last_n_snoc)
  then have "ReadFrom (behind 1 ?d) ?d = (let r = visit ([], None) ch in Ok (ReadRes (fst r) (snd r) (wpos ?d)))"
    using ReadFrom_behind [OF dok(1) _ _ dok(2), of 1] f(1) assms(4) by simp
  moreover have "visit ([], None) ch = ([], Some (ch\<lparr>Buffer := None, seq := 0\<rparr>))"
    using assms(6) err by (simp add: visit_def)
  ultimately show "ReadFrom ?p ?d = Ok (ReadRes [] (Some (ch\<lparr>Buffer := None, seq := 0\<rparr>)) (wpos ?d))"
    unfolding b by (simp add: Let_def)
qed

theorem final_error_wakeup_can_be_lost_witness:
  "let c = NewStreamCoordinator ''id'' sample_config; ch = newChunkData\<lparr>Error := Some EOF\<rparr> in
   \<exists>c' g. rw_step\<^sup>*\<^sup>* (c, RTest (wpos c), WIdle) (c', RWaiting (wpos c) g, WIdle)
    \<and> (\<forall>s. rw_step\<^sup>*\<^sup>* (c', RWaiting (wpos c) g, WIdle) s \<longrightarrow> fst (snd s) = RWaiting (wpos c) g)
    \<and> ReadFrom (wpos c) c' = Ok (ReadRes [] (Some (ch\<lparr>Buffer := None, seq := 0\<rparr>)) (wpos c'))"
  unfolding Let_def
  by (rule final_error_wakeup_can_be_lost)
    (auto simp: NewStreamCoordinator_def sample_config_def newChunkData_def ring_ok_def)

end
