(* ===== verification/Viewers.thy ===== *)
theory Viewers
  imports StreamHandler
begin

text \<open>
  The viewers of one stream, \<open>HandleStream\<close> called by many at once: every viewer enters under
  \<open>InitializationMu\<close> (\<open>join\<close>), watches, and leaves through \<open>cleanup\<close>; the goroutine of the writer
  starts, writes and ends on its own.  \<open>join\<close> is one step: nobody else enters while the mutex is
  held, but a viewer who leaves does not take it, so that in the code his steps can also fall between
  the loads and stores of that section; those interleavings are left out.  Here \<open>cleanup\<close> is cut where another goroutine can come
  between: the decrement of \<open>ClientCount\<close>, the rest of \<open>UnregisterClient\<close>, the test of the count,
  the section under \<open>WriterCtxMu\<close>, and the clearing after it.  Whole runs are lists of events.
\<close>

section \<open>Leaving in steps\<close>

datatype phase = Watching | Draining | Checking | Stopping | Clearing | Gone

definition leave_count :: "Coord \<Rightarrow> Coord" where
  "leave_count c = c\<lparr>ClientCount := int32 (ClientCount c - 1)\<rparr>"

definition leave_drain :: "Coord \<Rightarrow> Coord" where
  "leave_drain c = notifySubscribers (ClearBuffer
     (c\<lparr>cstate := StateDraining, WriterChan := True, WriterRespHeader := None\<rparr>))"

definition stop_writer :: "Coord \<Rightarrow> Coord" where
  "stop_writer c = (case WriterCancel c of
       None \<Rightarrow> c
     | Some k \<Rightarrow> c\<lparr>cancelled := k # cancelled c, WriterCancel := None, WriterCtx := None\<rparr>)\<lparr>WriterCtx := None\<rparr>"

definition clear_after :: "Coord \<Rightarrow> Coord" where
  "clear_after c = (ClearBuffer (c\<lparr>LastError := Some None\<rparr>))\<lparr>WriterChan := False\<rparr>"

fun leave_step :: "phase \<times> Coord \<Rightarrow> phase \<times> Coord" where
  "leave_step (Watching, c) =
     (let c' = leave_count c in (if ClientCount c' = 0 then Draining else Checking, c'))"
| "leave_step (Draining, c) = (Checking, leave_drain c)"
| "leave_step (Checking, c) = (if ClientCount c = 0 then Stopping else Gone, c)"
| "leave_step (Stopping, c) = (Clearing, stop_writer c)"
| "leave_step (Clearing, c) = (Gone, clear_after c)"
| "leave_step (Gone, c) = (Gone, c)"

text \<open>Undisturbed, the five steps are \<open>cleanup\<close>.\<close>

lemma leave_undisturbed: "(leave_step ^^ 5) (Watching, c) = (Gone, cleanup_client c)"
proof (cases "int32 (ClientCount c - 1) = 0")
  case True
  have "ClientCount (leave_drain x) = ClientCount x" for x
    by (simp add: leave_drain_def notifySubscribers_def frame_simps)
  with True show ?thesis
    by (simp add: eval_nat_numeral leave_count_def cleanup_client_def Let_def UnregisterClient_def
        stop_writer_def clear_after_def leave_drain_def notifySubscribers_def frame_simps split: option.split)
next
  case False
  then show ?thesis
    by (simp add: eval_nat_numeral leave_count_def cleanup_client_def Let_def UnregisterClient_def)
qed

section \<open>The viewers and the writer\<close>

text \<open>
  A writer's goroutine reads the field \<open>WriterCtx\<close> when it begins, so between its start and that
  moment it has no context yet; the field may be nil by then.
\<close>

datatype writer = Starting | Running "nat option"

record hall =
  hub :: Coord
  viewers :: "phase list"
  writers :: "writer list"

definition opened :: "Coord \<Rightarrow> hall" where
  "opened c = \<lparr>hub = c, viewers = [], writers = []\<rparr>"

definition watching :: "hall \<Rightarrow> nat" where
  "watching h = length (filter ((=) Watching) (viewers h))"

datatype hall_event =
    Enter
  | Leave nat
  | WriterBegins
  | Produce ChunkData
  | Fail "go_error option" int int
  | WriterEnds LoadBalancerResult

fun hall_step :: "hall \<Rightarrow> hall_event \<Rightarrow> hall" where
  "hall_step h Enter =
     (let (s, c) = join (hub h) in
      \<lparr>hub = c, viewers = viewers h @ [Watching], writers = (if s then writers h @ [Starting] else writers h)\<rparr>)"
| "hall_step h (Leave i) =
     (if i < length (viewers h) then
        (case leave_step (viewers h ! i, hub h) of (p, c) \<Rightarrow> h\<lparr>hub := c, viewers := (viewers h)[i := p]\<rparr>)
      else h)"
| "hall_step h WriterBegins =
     h\<lparr>writers := map (\<lambda>w. if w = Starting then Running (WriterCtx (hub h)) else w) (writers h)\<rparr>"
| "hall_step h (Produce ch) =
     (if \<exists>w \<in> set (writers h). w \<noteq> Starting then h\<lparr>hub := coord_step (hub h) (AWrite ch)\<rparr> else h)"
| "hall_step h (Fail e st t) =
     (if \<exists>w \<in> set (writers h). w \<noteq> Starting then h\<lparr>hub := coord_step (hub h) (AWriteError e st t)\<rparr> else h)"
| "hall_step h (WriterEnds lb) =
     (case writers h of
        Running k # ws \<Rightarrow> h\<lparr>hub := writer_exit lb (hub h), writers := ws\<rparr>
      | _ \<Rightarrow> h)"

section \<open>One writer, and as many clients as are counted\<close>

definition ctx_ok :: "Coord \<Rightarrow> bool" where
  "ctx_ok c \<longleftrightarrow> WriterCtx c = WriterCancel c \<and> (\<forall>k \<in> set (cancelled c). k < nextCtx c)
     \<and> (\<forall>k. WriterCtx c = Some k \<longrightarrow> k < nextCtx c \<and> k \<notin> set (cancelled c))"

definition hall_ok :: "hall \<Rightarrow> bool" where
  "hall_ok h \<longleftrightarrow> coord_ok (hub h) \<and> ctx_ok (hub h)
     \<and> (if WriterActive (hub h) then \<exists>w. writers h = [w] else writers h = [])
     \<and> ClientCount (hub h) = int32 (int (watching h))"

lemma ctx_ok_cong:
  "WriterCtx c' = WriterCtx c \<Longrightarrow> WriterCancel c' = WriterCancel c \<Longrightarrow> cancelled c' = cancelled c
    \<Longrightarrow> nextCtx c' = nextCtx c \<Longrightarrow> ctx_ok c' = ctx_ok c"
  by (simp add: ctx_ok_def)

named_theorems ctx_simps

lemma ctx_after_write [ctx_simps]:
  "WriterCtx (after_write ch c) = WriterCtx c" "WriterCancel (after_write ch c) = WriterCancel c"
  "cancelled (after_write ch c) = cancelled c" "nextCtx (after_write ch c) = nextCtx c"
  "WriterActive (after_write ch c) = WriterActive c"
  by (auto simp: after_write_def Write_def Let_def notifySubscribers_def split: outcome.splits)

lemma ctx_calls [ctx_simps]:
  "WriterCtx (ClearBuffer c) = WriterCtx c" "WriterCancel (ClearBuffer c) = WriterCancel c"
  "cancelled (ClearBuffer c) = cancelled c" "nextCtx (ClearBuffer c) = nextCtx c"
  "WriterActive (ClearBuffer c) = WriterActive c"
  "WriterCtx (RegisterClient c) = WriterCtx c" "WriterCancel (RegisterClient c) = WriterCancel c"
  "cancelled (RegisterClient c) = cancelled c" "nextCtx (RegisterClient c) = nextCtx c"
  "WriterActive (RegisterClient c) = WriterActive c"
  "WriterCtx (SetActualURL u c) = WriterCtx c" "WriterCancel (SetActualURL u c) = WriterCancel c"
  "cancelled (SetActualURL u c) = cancelled c" "nextCtx (SetActualURL u c) = nextCtx c"
  "WriterCtx (notifySubscribers c) = WriterCtx c" "WriterCancel (notifySubscribers c) = WriterCancel c"
  "cancelled (notifySubscribers c) = cancelled c" "nextCtx (notifySubscribers c) = nextCtx c"
  "WriterActive (notifySubscribers c) = WriterActive c"
  by (simp_all add: ClearBuffer_def RegisterClient_def SetActualURL_def notifySubscribers_def)

lemma start_writer_ok:
  assumes "coord_ok c" "ctx_ok c"
  shows "coord_ok (snd (start_writer c))" "ctx_ok (snd (start_writer c))"
    "WriterActive (snd (start_writer c))" "fst (start_writer c) \<longleftrightarrow> \<not> WriterActive c"
    "ClientCount (snd (start_writer c)) = ClientCount c" "WriterCtx (snd (start_writer c)) \<noteq> None \<or> WriterActive c"
    "cstate (snd (start_writer c)) = cstate c"
proof -
  define d where "d = (let c1 = c\<lparr>WriterActive := True\<rparr> in
      (if WriterCtx c1 = None
       then c1\<lparr>WriterCtx := Some (nextCtx c1), WriterCancel := Some (nextCtx c1), nextCtx := Suc (nextCtx c1)\<rparr>
       else c1)\<lparr>LastError := Some None\<rparr>)"
  have j: "\<not> WriterActive c \<Longrightarrow> start_writer c = (True, ClearBuffer d)"
    by (simp add: start_writer_def d_def Let_def)
  have a: "WriterActive c \<Longrightarrow> start_writer c = (False, c)" by (simp add: start_writer_def)
  have "ring_ok d" using assms(1) by (auto simp: d_def Let_def coord_ok_def ring_ok_def)
  then have d: "coord_ok (ClearBuffer d)" by (simp add: coord_ok_def frame_simps) (simp add: d_def Let_def)
  have x: "ctx_ok d" "WriterActive d" "ClientCount d = ClientCount c" "WriterCtx d \<noteq> None" "cstate d = cstate c"
    using assms(2) by (auto simp: d_def Let_def ctx_ok_def)
  then have "ctx_ok (ClearBuffer d)" using ctx_ok_cong [of "ClearBuffer d" d] by (simp add: ctx_simps)
  with d x a j assms show "coord_ok (snd (start_writer c))" "ctx_ok (snd (start_writer c))"
    "WriterActive (snd (start_writer c))" "fst (start_writer c) \<longleftrightarrow> \<not> WriterActive c"
    "ClientCount (snd (start_writer c)) = ClientCount c" "WriterCtx (snd (start_writer c)) \<noteq> None \<or> WriterActive c"
    "cstate (snd (start_writer c)) = cstate c"
    by (cases "WriterActive c"; simp add: ctx_simps frame_simps)+
qed

lemma join_eq: "join c = (fst (start_writer c), RegisterClient (snd (start_writer c)))"
  by (simp add: join_def split_beta)

lemma ring_ok_more [simp]:
  "ring_ok (c\<lparr>ClientCount := n\<rparr>) = ring_ok c" "ring_ok (c\<lparr>WriterCancel := x, WriterCtx := y\<rparr>) = ring_ok c"
  "ring_ok (c\<lparr>WriterActive := b\<rparr>) = ring_ok c" "ring_ok (c\<lparr>WriterChan := b\<rparr>) = ring_ok c"
  by (simp_all add: ring_ok_def)

lemma leave_step_ok:
  assumes "coord_ok c" "ctx_ok c" "leave_step (p, c) = (p', c')"
  shows "coord_ok c'" "ctx_ok c'" "WriterActive c' = WriterActive c" "p' \<noteq> Watching"
    "ClientCount c' = (if p = Watching then int32 (ClientCount c - 1) else ClientCount c)"
proof -
  have drain: "coord_ok (leave_drain c)" "ctx_ok (leave_drain c)" "WriterActive (leave_drain c) = WriterActive c"
    "ClientCount (leave_drain c) = ClientCount c"
  proof -
    let ?d = "c\<lparr>cstate := StateDraining, WriterChan := True, WriterRespHeader := None\<rparr>"
    have "ring_ok ?d" using assms(1) by (simp add: coord_ok_def ring_ok_def)
    then have "ring_ok (notifySubscribers (ClearBuffer ?d))"
      using ring_ok_cong [of "notifySubscribers (ClearBuffer ?d)" "ClearBuffer ?d"] by (simp add: notifySubscribers_def)
    then show "coord_ok (leave_drain c)"
      using assms(1) by (simp add: coord_ok_def leave_drain_def) (simp add: notifySubscribers_def frame_simps)
    show "ctx_ok (leave_drain c)"
      using assms(2) by (subst ctx_ok_cong [of _ c]) (simp_all add: leave_drain_def ctx_simps)
    show "WriterActive (leave_drain c) = WriterActive c" "ClientCount (leave_drain c) = ClientCount c"
      by (simp_all add: leave_drain_def ctx_simps) (simp add: notifySubscribers_def frame_simps)
  qed
  have stop: "coord_ok (stop_writer c)" "ctx_ok (stop_writer c)" "WriterActive (stop_writer c) = WriterActive c"
    "ClientCount (stop_writer c) = ClientCount c"
    using assms(1,2) by (auto simp: stop_writer_def coord_ok_def ring_ok_def ctx_ok_def split: option.split)
  have clear: "coord_ok (clear_after c)" "ctx_ok (clear_after c)" "WriterActive (clear_after c) = WriterActive c"
    "ClientCount (clear_after c) = ClientCount c"
  proof -
    have "ring_ok (ClearBuffer (c\<lparr>LastError := Some None\<rparr>))" using assms(1) by (simp add: coord_ok_def)
    then show "coord_ok (clear_after c)" by (simp add: coord_ok_def clear_after_def frame_simps)
    show "ctx_ok (clear_after c)"
      using assms(2) by (subst ctx_ok_cong [of _ c]) (simp_all add: clear_after_def ctx_simps)
    show "WriterActive (clear_after c) = WriterActive c" "ClientCount (clear_after c) = ClientCount c"
      by (simp_all add: clear_after_def ctx_simps frame_simps)
  qed
  have count: "coord_ok (leave_count c)" "ctx_ok (leave_count c)" "WriterActive (leave_count c) = WriterActive c"
    "ClientCount (leave_count c) = int32 (ClientCount c - 1)"
    using assms(1,2) by (simp_all add: leave_count_def coord_ok_def ctx_ok_def)
  have all: "case leave_step (p, c) of (p', c') \<Rightarrow> coord_ok c' \<and> ctx_ok c' \<and> WriterActive c' = WriterActive c
      \<and> p' \<noteq> Watching \<and> ClientCount c' = (if p = Watching then int32 (ClientCount c - 1) else ClientCount c)"
    by (cases p) (simp_all add: Let_def drain stop clear count assms(1,2))
  show "coord_ok c'" "ctx_ok c'" "WriterActive c' = WriterActive c" "p' \<noteq> Watching"
    "ClientCount c' = (if p = Watching then int32 (ClientCount c - 1) else ClientCount c)"
    using all assms(3) by simp_all
qed

lemma watching_update:
  "i < length xs \<Longrightarrow> p \<noteq> Watching \<Longrightarrow>
    int (length (filter ((=) Watching) (xs[i := p]))) =
    int (length (filter ((=) Watching) xs)) - (if xs ! i = Watching then 1 else 0)"
proof (induction xs arbitrary: i)
  case (Cons x xs)
  show ?case
  proof (cases i)
    case (Suc j)
    with Cons.IH [of j] Cons.prems show ?thesis by auto
  qed (use Cons.prems in auto)
qed simp

lemma int32_int32_add: "int32 (int32 a + b) = int32 (a + b)"
proof -
  let ?M = "4294967296 :: int"
  have "int32 a + b + 2147483648 = (a + 2147483648) mod ?M + b" by (simp add: int32_def)
  then have "(int32 a + b + 2147483648) mod ?M = (a + 2147483648 + b) mod ?M" by (simp only: mod_add_left_eq)
  moreover have "a + 2147483648 + b = a + b + 2147483648" by simp
  ultimately show ?thesis by (simp only: int32_def [of "int32 a + b"] int32_def [of "a + b"])
qed

lemma int32_step: "int32 (int32 a + 1) = int32 (a + 1)" "int32 (int32 a - 1) = int32 (a - 1)"
  using int32_int32_add [of a 1] int32_int32_add [of a "- 1"] by simp_all

lemma coord_step_ok:
  assumes "coord_ok c" "ctx_ok c" "a = AWrite ch \<or> a = AWriteError e st t"
  shows "coord_ok (coord_step c a)" "ctx_ok (coord_step c a)" "WriterActive (coord_step c a) = WriterActive c"
    "ClientCount (coord_step c a) = ClientCount c"
proof -
  have r: "ring_ok c" using assms(1) by (simp add: coord_ok_def)
  show "coord_ok (coord_step c a)" using assms(1) by (rule lifecycle.inv_step)
  show "ctx_ok (coord_step c a)"
    using assms(2,3) by (subst ctx_ok_cong [of _ c]) (auto simp: writeError_eq [OF r] ctx_simps)
  show "WriterActive (coord_step c a) = WriterActive c" "ClientCount (coord_step c a) = ClientCount c"
    using assms(3) by (auto simp: writeError_eq [OF r] ctx_simps ClientCount_after_write)
qed

interpretation viewing: event_machine hall_step hall_ok
proof
  fix h e
  assume ok: "hall_ok h"
  then have c: "coord_ok (hub h)" "ctx_ok (hub h)" "ClientCount (hub h) = int32 (int (watching h))"
    and w: "if WriterActive (hub h) then \<exists>w. writers h = [w] else writers h = []"
    by (simp_all add: hall_ok_def)
  show "hall_ok (hall_step h e)"
  proof (cases e)
    case Enter
    let ?s = "snd (start_writer (hub h))"
    note s = start_writer_ok [OF c(1,2)]
    have "ctx_ok (RegisterClient ?s)" using s(2) by (subst ctx_ok_cong [of _ ?s]) (simp_all add: ctx_simps)
    moreover have "coord_ok (RegisterClient ?s)" using s(1) by (simp add: coord_ok_def frame_simps)
    moreover have "ClientCount (RegisterClient ?s) = int32 (int (watching h) + 1)"
      using s(5) c(3) by (simp add: frame_simps int32_step)
    ultimately show ?thesis
      using Enter s(3,4) w by (auto simp: hall_ok_def join_eq split_beta ctx_simps watching_def add.commute)
  next
    case (Leave i)
    show ?thesis
    proof (cases "i < length (viewers h)")
      case True
      obtain p c' where l: "leave_step (viewers h ! i, hub h) = (p, c')" by fastforce
      note s = leave_step_ok [OF c(1,2) l]
      have "ClientCount c' = int32 (int (watching h) - (if viewers h ! i = Watching then 1 else 0))"
        using s(5) c(3) by (simp add: int32_step)
      then show ?thesis
        using Leave True l s(1-3) w watching_update [OF True s(4)] by (simp add: hall_ok_def watching_def)
    qed (use Leave ok in simp)
  next
    case WriterBegins
    then show ?thesis using ok by (auto simp: hall_ok_def watching_def)
  next
    case (Produce ch)
    then show ?thesis
      using ok coord_step_ok [OF c(1,2), of "AWrite ch"] by (auto simp: hall_ok_def watching_def simp del: coord_step.simps)
  next
    case (Fail e st t)
    then show ?thesis
      using ok coord_step_ok [OF c(1,2), of "AWriteError e st t"]
      by (auto simp: hall_ok_def watching_def simp del: coord_step.simps)
  next
    case (WriterEnds lb)
    let ?x = "writer_exit lb (hub h)"
    have "coord_ok ?x" using c(1) by (simp add: coord_ok_def writer_exit_def frame_simps)
    moreover have "ctx_ok ?x" using c(2) by (subst ctx_ok_cong [of _ "hub h"]) (simp_all add: writer_exit_def ctx_simps)
    ultimately show ?thesis
      using WriterEnds ok w c(3)
      by (auto simp: hall_ok_def watching_def writer_exit_def frame_simps split: list.split writer.split if_splits)
  qed
qed

lemma viewers_bounded: "length (viewers (foldl hall_step h es)) \<le> length (viewers h) + length es"
proof (induction es arbitrary: h)
  case (Cons e es)
  have "length (viewers (hall_step h e)) \<le> Suc (length (viewers h))"
    by (cases e) (auto simp: split_beta split: list.split writer.split)
  with Cons.IH [of "hall_step h e"] show ?case by simp
qed simp

lemma opened_ok:
  assumes "0 < SharedBufferSize cfg" "SharedBufferSize cfg < 9223372036854775808"
  shows "hall_ok (opened (NewStreamCoordinator sid cfg))"
  using coord_ok_New [OF assms, of sid]
  by (simp add: hall_ok_def opened_def watching_def ctx_ok_def) (simp add: NewStreamCoordinator_def)

text \<open>C8. However the viewers of a stream come and go, between whatever steps of each other and of the
  writer, at most one writer runs for it, the flag \<open>WriterActive\<close> says whether one does, the client
  count is the number of those watching, and the context a new writer would get is never a
  cancelled one.\<close>

theorem one_writer_per_stream:
  assumes "0 < SharedBufferSize cfg" "SharedBufferSize cfg < 9223372036854775808" "length es < 2147483648"
    and "h = foldl hall_step (opened (NewStreamCoordinator sid cfg)) es"
  shows "length (writers h) = (if WriterActive (hub h) then 1 else 0) \<and> ClientCount (hub h) = int (watching h)
    \<and> (\<forall>k. WriterCtx (hub h) = Some k \<longrightarrow> k \<notin> set (cancelled (hub h)))"
proof -
  have "hall_ok h" unfolding assms(4) by (rule viewing.inv_run [OF opened_ok [OF assms(1,2)]])
  moreover have "watching h \<le> length es"
    using le_trans [OF length_filter_le viewers_bounded, of "(=) Watching" "opened (NewStreamCoordinator sid cfg)" es]
    unfolding assms(4) watching_def by (simp add: opened_def)
  ultimately show ?thesis using assms(3) by (auto simp: hall_ok_def ctx_ok_def split: if_splits)
qed

definition two_viewers :: "hall_event list" where
  "two_viewers = [Enter, WriterBegins, Enter, Produce (sample_chunk ''a''), Leave 0, Leave 0]"

theorem one_writer_per_stream_witness:
  "let h = foldl hall_step (opened (NewStreamCoordinator ''id'' sample_config)) two_viewers in
   length (writers h) = (if WriterActive (hub h) then 1 else 0) \<and> ClientCount (hub h) = int (watching h)
    \<and> (\<forall>k. WriterCtx (hub h) = Some k \<longrightarrow> k \<notin> set (cancelled (hub h)))"
  unfolding Let_def
  by (rule one_writer_per_stream [OF _ _ _ refl]) (simp_all add: sample_config_def two_viewers_def)

section \<open>Others come and go\<close>

fun writer_act :: "hall_event \<Rightarrow> coord_act list" where
  "writer_act (Produce ch) = [AWrite ch]"
| "writer_act (Fail e st t) = [AWriteError e st t]"
| "writer_act _ = []"

lemma write_ignores_count:
  "coord_step (c\<lparr>ClientCount := n\<rparr>) (AWrite ch) = (coord_step c (AWrite ch))\<lparr>ClientCount := n\<rparr>"
  "coord_step (c\<lparr>ClientCount := n\<rparr>) (AWriteError e st t) = (coord_step c (AWriteError e st t))\<lparr>ClientCount := n\<rparr>"
  by (auto simp: after_write_def Write_def writeError_def Let_def notifySubscribers_def split: outcome.splits)

text \<open>What holds as long as viewer \<open>i\<close> watches: the writer runs, and nobody is past the test of the count.\<close>

definition watched_by :: "nat \<Rightarrow> nat option \<Rightarrow> hall \<Rightarrow> bool" where
  "watched_by i k h \<longleftrightarrow> hall_ok h \<and> writers h = [Running k] \<and> i < length (viewers h) \<and> viewers h ! i = Watching
     \<and> set (viewers h) \<subseteq> {Watching, Checking, Gone} \<and> length (viewers h) < 2147483648"

lemma counted: "hall_ok h \<Longrightarrow> length (viewers h) < 2147483648 \<Longrightarrow> ClientCount (hub h) = int (watching h)"
proof -
  assume a: "hall_ok h" "length (viewers h) < 2147483648"
  have "watching h < 2147483648" unfolding watching_def by (rule le_less_trans [OF length_filter_le a(2)])
  with a(1) show ?thesis by (simp add: hall_ok_def)
qed

lemma watching_pos: "i < length (viewers h) \<Longrightarrow> viewers h ! i = Watching \<Longrightarrow> 0 < watching h"
  using nth_mem [of i "viewers h"] by (auto simp: watching_def filter_empty_conv)

lemma watched_count:
  assumes "watched_by i k h"
  shows "ClientCount (hub h) = int (watching h)" "0 < watching h"
proof -
  show "0 < watching h" using assms by (auto simp: watched_by_def intro: watching_pos)
  show "ClientCount (hub h) = int (watching h)" using assms by (simp add: watched_by_def counted)
qed

lemma watched_step:
  assumes w: "watched_by i k h" and e: "e \<noteq> Leave i" "\<forall>lb. e \<noteq> WriterEnds lb"
    and n: "Suc (length (viewers h)) < 2147483648" and d: "hub h = d\<lparr>ClientCount := x\<rparr>"
  shows "watched_by i k (hall_step h e)
    \<and> (\<exists>y. hub (hall_step h e) = (foldl coord_step d (writer_act e))\<lparr>ClientCount := y\<rparr>)"
proof -
  note W = w [unfolded watched_by_def]
  note c = watched_count [OF w]
  have ok: "hall_ok (hall_step h e)" using W by (blast intro: viewing.inv_step)
  have act: "WriterActive (hub h)" using W by (auto simp: hall_ok_def split: if_splits)
  show ?thesis
  proof (cases e)
    case Enter
    have "join (hub h) = (False, (hub h)\<lparr>ClientCount := int32 (ClientCount (hub h) + 1)\<rparr>)"
      using act c by (simp add: join_def start_writer_def RegisterClient_def)
    then show ?thesis using Enter W ok n d by (simp add: watched_by_def nth_append) blast
  next
    case (Leave j)
    show ?thesis
    proof (cases "j < length (viewers h)")
      case True
      obtain p c' where l: "leave_step (viewers h ! j, hub h) = (p, c')" by fastforce
      have p: "p \<in> {Watching, Checking, Gone} \<and> (\<exists>y. c' = (hub h)\<lparr>ClientCount := y\<rparr>)"
      proof (cases "viewers h ! j = Watching")
        case True
        have "hall_step h e = h\<lparr>hub := c', viewers := (viewers h)[j := p]\<rparr>"
          using Leave \<open>j < length (viewers h)\<close> l by simp
        then have i: "viewers (hall_step h e) ! i = Watching" "i < length (viewers (hall_step h e))"
          "length (viewers (hall_step h e)) < 2147483648" "hub (hall_step h e) = c'"
          using W e(1) Leave by simp_all
        then have "0 < watching (hall_step h e)"
          by (intro watching_pos)
        moreover have "ClientCount c' = int (watching (hall_step h e))"
          using counted [OF ok i(3)] i(4) by simp
        ultimately have "ClientCount c' \<noteq> 0" by simp
        then show ?thesis using l True by (auto simp: Let_def leave_count_def split: if_splits)
      next
        case False
        moreover have "viewers h ! j \<in> {Watching, Checking, Gone}"
          using W nth_mem [OF \<open>j < length (viewers h)\<close>] by blast
        ultimately have "viewers h ! j \<in> {Checking, Gone}" by simp
        then have "p = Gone" "c' = (hub h)\<lparr>ClientCount := ClientCount (hub h)\<rparr>"
          using l c by (auto split: if_splits)
        then show ?thesis by blast
      qed
      then have "set ((viewers h)[j := p]) \<subseteq> {Watching, Checking, Gone}"
        using W set_update_subset_insert [of "viewers h" j p] by blast
      then show ?thesis using Leave True l p W ok e(1) d by (auto simp: watched_by_def)
    qed (use Leave w d in auto)
  next
    case WriterBegins
    then show ?thesis using W ok d by (auto simp: watched_by_def)
  next
    case (Produce ch)
    then show ?thesis
      using W ok d write_ignores_count(1) [of x d ch] by (auto simp: watched_by_def simp del: coord_step.simps)
  next
    case (Fail er st t)
    then show ?thesis
      using W ok d write_ignores_count(2) [of x d er st t] by (auto simp: watched_by_def simp del: coord_step.simps)
  qed (use e in simp)
qed

lemma watched_run:
  "watched_by i k h \<Longrightarrow> Leave i \<notin> set es \<Longrightarrow> \<forall>lb. WriterEnds lb \<notin> set es \<Longrightarrow>
    length (viewers h) + length es < 2147483648 \<Longrightarrow> hub h = d\<lparr>ClientCount := x\<rparr> \<Longrightarrow>
    watched_by i k (foldl hall_step h es)
    \<and> (\<exists>y. hub (foldl hall_step h es) = (foldl coord_step d (concat (map writer_act es)))\<lparr>ClientCount := y\<rparr>)"
proof (induction es arbitrary: h d x)
  case (Cons e es)
  have "length (viewers (hall_step h e)) \<le> Suc (length (viewers h))"
    using viewers_bounded [of h "[e]"] by simp
  moreover obtain y where "watched_by i k (hall_step h e)"
      "hub (hall_step h e) = (foldl coord_step d (writer_act e))\<lparr>ClientCount := y\<rparr>"
    using watched_step [OF Cons.prems(1) _ _ _ Cons.prems(5), of e] Cons.prems(2-4) by auto
  ultimately show ?case using Cons.IH [where h = "hall_step h e" and d = "foldl coord_step d (writer_act e)" and x = y] Cons.prems by simp
qed auto

text \<open>C6. As long as one viewer watches, the others change nothing for him: through any events among
  which he does not leave and the writer does not end, whoever else enters or leaves, the
  coordinator differs from what the writer's own calls make of it in nothing but the client count;
  the writer keeps running with its context, no other is started, and nothing is cleared or
  cancelled.\<close>

theorem watched_stream_is_undisturbed:
  assumes "watched_by i k h" "Leave i \<notin> set es" "\<forall>lb. WriterEnds lb \<notin> set es"
    and "length (viewers h) + length es < 2147483648" "h' = foldl hall_step h es"
  shows "hub h' = (foldl coord_step (hub h) (concat (map writer_act es)))\<lparr>ClientCount := int (watching h')\<rparr>
    \<and> 0 < watching h' \<and> writers h' = [Running k]"
proof -
  have "hub h = (hub h)\<lparr>ClientCount := ClientCount (hub h)\<rparr>" by simp
  from watched_run [OF assms(1-4) this] obtain y where y: "watched_by i k h'"
      "hub h' = (foldl coord_step (hub h) (concat (map writer_act es)))\<lparr>ClientCount := y\<rparr>"
    unfolding assms(5) by blast
  have "y = int (watching h')" using watched_count(1) [OF y(1)] y(2) by simp
  with y watched_count(2) [OF y(1)] show ?thesis by (simp add: watched_by_def)
qed

definition watched_hall :: hall where
  "watched_hall = foldl hall_step (opened (NewStreamCoordinator ''id'' sample_config)) [Enter, WriterBegins]"

lemma watched_hall_facts: "watched_by 0 (Some 0) watched_hall"
proof -
  have "hall_ok watched_hall"
    unfolding watched_hall_def by (rule viewing.inv_run [OF opened_ok]) (simp_all add: sample_config_def)
  moreover have "viewers watched_hall = [Watching]" "writers watched_hall = [Running (Some 0)]"
    by (simp_all add: watched_hall_def opened_def join_def start_writer_def NewStreamCoordinator_def ctx_simps)
  ultimately show ?thesis by (simp add: watched_by_def)
qed

definition busy_hall :: "hall_event list" where
  "busy_hall = [Enter, Produce (sample_chunk ''a''), Leave 1, Enter, Leave 1, Fail (Some EOF) 2 9]"

theorem watched_stream_is_undisturbed_witness:
  "let h' = foldl hall_step watched_hall busy_hall in
   hub h' = (foldl coord_step (hub watched_hall) (concat (map writer_act busy_hall)))\<lparr>ClientCount := int (watching h')\<rparr>
    \<and> 0 < watching h' \<and> writers h' = [Running (Some 0)]"
  unfolding Let_def
proof (rule watched_stream_is_undisturbed [OF watched_hall_facts _ _ _ refl])
  have "length (viewers watched_hall) \<le> 2"
    using viewers_bounded [of _ "[Enter, WriterBegins]"] by (simp add: watched_hall_def opened_def split_beta)
  then show "length (viewers watched_hall) + length busy_hall < 2147483648" by (simp add: busy_hall_def)
qed (simp_all add: busy_hall_def)

section \<open>What a viewer reads while others come and go\<close>

fun produced :: "hall_event list \<Rightarrow> ChunkData list" where
  "produced [] = []"
| "produced (Produce ch # es) = ch # produced es"
| "produced (e # es) = produced es"

text \<open>The reads of a viewer between the events of the hall: \<open>read_step\<close> on its coordinator.\<close>

definition hall_read :: "nat \<Rightarrow> hall \<Rightarrow> (ChunkData list \<times> nat) option" where
  "hall_read p h = read_step p (hub h)"

text \<open>A batch of events in which viewer \<open>i\<close> stays, the writer goes on, and no error is written.\<close>

definition calm_batch :: "nat \<Rightarrow> hall_event list \<Rightarrow> bool" where
  "calm_batch i es \<longleftrightarrow> Leave i \<notin> set es \<and> (\<forall>e \<in> set es. case e of
     Produce ch \<Rightarrow> \<not> is_error ch | Fail _ _ _ \<Rightarrow> False | WriterEnds _ \<Rightarrow> False | _ \<Rightarrow> True)"

lemma calm_batch_acts: "calm_batch i es \<Longrightarrow> concat (map writer_act es) = map AWrite (produced es)"
proof (induction es)
  case (Cons e es)
  then show ?case by (cases e) (simp_all add: calm_batch_def)
qed simp

lemma calm_batch_good: "calm_batch i es \<Longrightarrow> \<forall>ch \<in> set (produced es). \<not> is_error ch"
proof (induction es)
  case (Cons e es)
  then show ?case by (cases e) (simp_all add: calm_batch_def)
qed simp

lemma read_ignores_count: "read_step p (c\<lparr>ClientCount := n\<rparr>) = read_step p c"
proof -
  have f: "slots (c\<lparr>ClientCount := n\<rparr>) = slots c" "wpos (c\<lparr>ClientCount := n\<rparr>) = wpos c"
    "LastError (c\<lparr>ClientCount := n\<rparr>) = LastError c" "cstate (c\<lparr>ClientCount := n\<rparr>) = cstate c"
    "writeSeq (c\<lparr>ClientCount := n\<rparr>) = writeSeq c" "config (c\<lparr>ClientCount := n\<rparr>) = config c"
    by simp_all
  show ?thesis unfolding read_step_def ReadChunks_def ReadFrom_def must_wait_def start_position_def f by (rule refl)
qed

lemma hall_follow:
  "watched_by i k h \<Longrightarrow> \<forall>es \<in> set ess. calm_batch i es \<Longrightarrow>
    length (viewers h) + length (concat ess) < 2147483648 \<Longrightarrow> hub h = d\<lparr>ClientCount := x\<rparr> \<Longrightarrow>
    follow hall_read (\<lambda>e h. hall_step h e) p h ess = follow read_step after_write p d (map produced ess)"
proof (induction ess arbitrary: h d x p)
  case (Cons es ess)
  let ?h = "foldl hall_step h es" let ?d = "foldl (\<lambda>c ch. after_write ch c) d (produced es)"
  have calm: "calm_batch i es" using Cons.prems(2) by simp
  have "Leave i \<notin> set es" "\<forall>lb. WriterEnds lb \<notin> set es" using calm by (force simp: calm_batch_def)+
  from watched_run [OF Cons.prems(1) this _ Cons.prems(4)] Cons.prems(3) obtain y where
      y: "watched_by i k ?h" "hub ?h = ?d\<lparr>ClientCount := y\<rparr>"
    unfolding calm_batch_acts [OF calm] foldl_writes writes_def by auto
  have "length (viewers ?h) + length (concat ess) < 2147483648"
    using viewers_bounded [of h es] Cons.prems(3) by simp
  with Cons.IH [OF y(1) _ _ y(2)] Cons.prems(2) y(2) show ?case
    by (simp add: Let_def hall_read_def read_ignores_count split: option.split)
qed simp

text \<open>C5. Everybody who watches a stream gets all of it from where he started: whoever enters and leaves
  meanwhile, a viewer who reads after every batch of events in which fewer chunks are written than
  the ring has slots is given the data of all chunks written, each once and in order.\<close>

theorem every_viewer_gets_what_is_written:
  assumes "watched_by i k h" "live (length (concat (map produced ess))) (hub h)"
    and "\<forall>es \<in> set ess. calm_batch i es \<and> length (produced es) < length (slots (hub h))"
    and "length (viewers h) + length (concat ess) < 2147483648"
  shows "follow hall_read (\<lambda>e h. hall_step h e) (wpos (hub h)) h ess = delivered (concat (map produced ess))"
proof -
  have "hub h = (hub h)\<lparr>ClientCount := ClientCount (hub h)\<rparr>" by simp
  from hall_follow [OF assms(1) _ assms(4) this] assms(3)
  have "follow hall_read (\<lambda>e h. hall_step h e) (wpos (hub h)) h ess =
      follow read_step after_write (wpos (hub h)) (hub h) (map produced ess)" by blast
  also have "\<dots> = delivered (concat (map produced ess))"
    by (rule shared.follow_complete [OF assms(2)]) (use assms(3) calm_batch_good in auto)
  finally show ?thesis .
qed

definition sample_batches :: "hall_event list list" where
  "sample_batches = [[Enter, Produce (sample_chunk ''a''), Leave 1], [Leave 1],
     [Produce (sample_chunk ''b''), Enter, Produce (sample_chunk ''c'')]]"

theorem every_viewer_gets_what_is_written_witness:
  "follow hall_read (\<lambda>e h. hall_step h e) (wpos (hub watched_hall)) watched_hall sample_batches
    = delivered [sample_chunk ''a'', sample_chunk ''b'', sample_chunk ''c'']"
proof -
  have p: "concat (map produced sample_batches) = [sample_chunk ''a'', sample_chunk ''b'', sample_chunk ''c'']"
    by (simp add: sample_batches_def)
  have n: "ClientCount (NewStreamCoordinator ''id'' sample_config) = 0" "\<not> WriterActive (NewStreamCoordinator ''id'' sample_config)"
    by (simp_all add: NewStreamCoordinator_def)
  note j = join_facts [OF sample_coord n]
  have "hub watched_hall = snd (join (NewStreamCoordinator ''id'' sample_config))"
    "length (viewers watched_hall) = 1"
    by (simp_all add: watched_hall_def opened_def split_beta)
  with j have h: "live 3 (hub watched_hall)" "length (slots (hub watched_hall)) = 3" "length (viewers watched_hall) = 1"
    by (simp_all add: live_def NewStreamCoordinator_def sample_config_def)
  have "\<not> is_error (sample_chunk t)" for t by (simp add: sample_chunk_def is_error_def newChunkData_def)
  then have b: "\<forall>es \<in> set sample_batches. calm_batch 0 es \<and> length (produced es) < length (slots (hub watched_hall))"
    unfolding h(2) by (simp add: sample_batches_def calm_batch_def)
  have n: "length (viewers watched_hall) + length (concat sample_batches) < 2147483648"
    unfolding h(3) by (simp add: sample_batches_def)
  have "live (length (concat (map produced sample_batches))) (hub watched_hall)"
    using h(1) unfolding p by (rule live_mono) simp
  from every_viewer_gets_what_is_written [OF watched_hall_facts this b n] show ?thesis unfolding p .
qed

section \<open>Where a viewer is left behind\<close>

text \<open>A viewer who has left, as the last one, stops the writer only after he has counted; one who
  enters in between finds no writer, starts his own with the context that is still there, and has
  it cancelled by the one who leaves.\<close>

theorem late_cleanup_cancels_new_viewer:
  assumes "hall_ok h" "i < length (viewers h)" "viewers h ! i = Stopping" "watching h = 0"
    and "writers h = []" "WriterCtx (hub h) = Some k" "h' = foldl hall_step h [Enter, WriterBegins, Leave i]"
  shows "viewers h' = (viewers h)[i := Clearing] @ [Watching] \<and> writers h' = [Running (Some k)]
    \<and> cstate (hub h') = StateActive \<and> WriterCtx (hub h') = None \<and> k \<in> set (cancelled (hub h'))"
proof -
  have c: "coord_ok (hub h)" "ctx_ok (hub h)" "\<not> WriterActive (hub h)" "ClientCount (hub h) = 0"
    using assms(1,4,5) by (auto simp: hall_ok_def split: if_splits)
  let ?s = "snd (start_writer (hub h))" let ?d = "RegisterClient ?s"
  note s = start_writer_ok [OF c(1,2)]
  have "WriterCancel (hub h) = Some k" using c(2) assms(6) by (simp add: ctx_ok_def)
  then have ctx: "WriterCtx ?d = Some k" "WriterCancel ?d = Some k"
    using c(3) assms(6) by (simp_all add: start_writer_def Let_def ctx_simps)
  have "cstate ?d = StateActive" using s(5) c(4) by (simp add: frame_simps)
  moreover have "fst (start_writer (hub h))" using s(4) c(3) by simp
  ultimately show ?thesis
    using assms(2,3,5,7) ctx by (simp add: join_eq nth_append list_update_append stop_writer_def)
qed

text \<open>The last viewer of a stream that has ended, just before he stops the writer.\<close>

lemma last_viewer_leaves:
  assumes "hall_ok h" "viewers h = [Watching]" "writers h = [Running k]"
    and "h' = foldl hall_step h [Fail e st t, WriterEnds lb, Leave 0, Leave 0, Leave 0]"
  shows "viewers h' = [Stopping]" "writers h' = []" "WriterCtx (hub h') = WriterCtx (hub h)"
proof -
  have c: "coord_ok (hub h)" "ctx_ok (hub h)" "ClientCount (hub h) = 1"
    using assms(1,2) by (simp_all add: hall_ok_def watching_def)
  let ?d = "writer_exit lb (coord_step (hub h) (AWriteError e st t))"
  have r: "ring_ok (hub h)" using c(1) by (simp add: coord_ok_def)
  have d: "ClientCount ?d = 1" "WriterCtx ?d = WriterCtx (hub h)"
    by (simp_all add: writer_exit_def frame_simps ctx_simps writeError_eq [OF r] ClientCount_after_write c(3))
  have "ClientCount (leave_drain x) = ClientCount x" "WriterCtx (leave_drain x) = WriterCtx x" for x
    by (simp_all add: leave_drain_def ctx_simps) (simp add: notifySubscribers_def frame_simps)
  with d assms(2-4) show "viewers h' = [Stopping]" "writers h' = []" "WriterCtx (hub h') = WriterCtx (hub h)"
    by (simp_all add: Let_def leave_count_def del: coord_step.simps)
qed

definition leaving_hall :: hall where
  "leaving_hall = foldl hall_step watched_hall
     [Fail (Some EOF) StatusEOF 9, WriterEnds sample_lb, Leave 0, Leave 0, Leave 0]"

theorem late_cleanup_cancels_new_viewer_witness:
  "\<exists>h'. h' = foldl hall_step leaving_hall [Enter, WriterBegins, Leave 0] \<and> writers h' = [Running (Some 0)]
    \<and> cstate (hub h') = StateActive \<and> 0 \<in> set (cancelled (hub h'))"
proof -
  have ok: "hall_ok leaving_hall"
    unfolding leaving_hall_def by (rule viewing.inv_run) (use watched_hall_facts in \<open>simp add: watched_by_def\<close>)
  have "hall_ok watched_hall" "viewers watched_hall = [Watching]" "writers watched_hall = [Running (Some 0)]"
      "WriterCtx (hub watched_hall) = Some 0"
    using watched_hall_facts
    by (simp_all add: watched_by_def)
      (simp_all add: watched_hall_def opened_def join_def start_writer_def NewStreamCoordinator_def ctx_simps)
  then have "viewers leaving_hall = [Stopping]" "writers leaving_hall = []" "WriterCtx (hub leaving_hall) = Some 0"
    using last_viewer_leaves [OF _ _ _ leaving_hall_def] by simp_all
  then show ?thesis
    using late_cleanup_cancels_new_viewer [OF ok, of 0 0] by (simp add: watching_def)
qed

section \<open>Joining a stream that has ended\<close>

definition empty_ring :: "Coord \<Rightarrow> bool" where
  "empty_ring c \<longleftrightarrow> slots c = replicate (length (slots c)) newChunkData"

definition silent :: "Coord \<Rightarrow> bool" where
  "silent c \<longleftrightarrow> coord_ok c \<and> cstate c \<noteq> StateActive \<and> empty_ring c"

lemma silent_step:
  assumes "silent c" "a = ARegister \<longrightarrow> ClientCount c \<noteq> 0"
  shows "silent (coord_step c a) \<and> wpos (coord_step c a) = wpos c
    \<and> length (slots (coord_step c a)) = length (slots c)"
proof -
  have c: "coord_ok c" "ring_ok c" "cstate c \<noteq> StateActive" "empty_ring c"
    using assms(1) by (simp_all add: silent_def coord_ok_def)
  have "slots (coord_step c a) = slots c"
    using c(3,4) by (cases a)
      (auto simp: frame_simps after_write_inactive writeError_eq [OF c(2)] ClearBuffer_slots [OF c(2)] empty_ring_def)
  moreover have "coord_ok (coord_step c a)" using c(1) by (rule lifecycle.inv_step)
  ultimately show ?thesis
    using inactive_step [OF c(2,3) assms(2)] c(4) by (simp add: silent_def empty_ring_def)
qed

lemma silent_run:
  "silent c \<Longrightarrow> no_restart c as \<Longrightarrow> silent (foldl coord_step c as) \<and> wpos (foldl coord_step c as) = wpos c
    \<and> length (slots (foldl coord_step c as)) = length (slots c)"
proof (induction as arbitrary: c)
  case (Cons a as)
  then show ?case using silent_step [of c a] Cons.IH [of "coord_step c a"] by simp
qed simp

lemma fresh_ring:
  assumes "coord_ok c" "\<not> WriterActive c"
  shows "fst (start_writer c)" "coord_ok (snd (start_writer c))" "cstate (snd (start_writer c)) = cstate c"
    "slots (snd (start_writer c)) = replicate (length (slots c)) newChunkData"
    "ClientCount (snd (start_writer c)) = ClientCount c" "wpos (snd (start_writer c)) = wpos c"
proof -
  define d where "d = (let c1 = c\<lparr>WriterActive := True\<rparr> in
      (if WriterCtx c1 = None
       then c1\<lparr>WriterCtx := Some (nextCtx c1), WriterCancel := Some (nextCtx c1), nextCtx := Suc (nextCtx c1)\<rparr>
       else c1)\<lparr>LastError := Some None\<rparr>)"
  have s: "start_writer c = (True, ClearBuffer d)" using assms(2) by (simp add: start_writer_def d_def Let_def)
  have d: "ring_ok d" "LastError d = Some None" "slots d = slots c" "cstate d = cstate c"
    "ClientCount d = ClientCount c" "wpos d = wpos c"
    using assms(1) by (auto simp: d_def Let_def coord_ok_def ring_ok_def)
  show "fst (start_writer c)" "coord_ok (snd (start_writer c))" "cstate (snd (start_writer c)) = cstate c"
    "slots (snd (start_writer c)) = replicate (length (slots c)) newChunkData"
    "ClientCount (snd (start_writer c)) = ClientCount c" "wpos (snd (start_writer c)) = wpos c"
    using d ClearBuffer_slots [OF d(1)] by (simp_all add: s coord_ok_def frame_simps)
qed

lemma no_restart_append:
  "no_restart c (as @ bs) \<longleftrightarrow> no_restart c as \<and> no_restart (foldl coord_step c as) bs"
  by (induction as arbitrary: c) simp_all

lemma read_silent:
  assumes "silent c" "p < length (slots c)"
  shows "ReadFrom p c = Ok (ReadRes [] None (wpos c))"
proof -
  let ?n = "length (slots c)"
  have c: "ring_ok c" "cstate c \<noteq> StateActive" "LastError c = Some None" "wpos c < ?n"
    using assms(1) by (auto simp: silent_def coord_ok_def ring_ok_def)
  show ?thesis
  proof (cases "p = wpos c")
    case True
    then show ?thesis using c by (simp add: ReadFrom_def must_wait_def read_loop.simps)
  next
    case False
    define k where "k = (if p \<le> wpos c then wpos c - p else wpos c + ?n - p)"
    have k: "0 < k" "k < ?n" "behind k c = p"
      using False assms(2) c(4) by (auto simp: k_def behind_def)
    have "ring_view c = replicate ?n newChunkData"
      using assms(1) unfolding ring_view_def silent_def empty_ring_def by (metis rotate_same)
    then have "last_n k (ring_view c) = replicate k newChunkData" using k(2) by (simp add: last_n_def)
    moreover have "foldl visit ([], None) (replicate m newChunkData) = ([], None)" for m
      by (induction m) (simp_all add: visit_def newChunkData_def is_error_def)
    ultimately show ?thesis using ReadFrom_behind [OF c(1) k(1,2) c(3)] k(3) by simp
  qed
qed

lemma silent_turn:
  assumes "silent c" "rpos r < length (slots c)" "\<not> inside r" "r_ctx t = None"
  shows "reader_turn lb t r c = Ok (None, r\<lparr>rpos := wpos c\<rparr>)"
proof -
  have "start_position (Some (rpos r)) c < length (slots c)"
    using assms(1,2) by (auto simp: start_position_def Let_def silent_def coord_ok_def ring_ok_def)
  then have "ReadChunks (Some (rpos r)) c = Ok (ReadRes [] None (wpos c))"
    using read_silent [OF assms(1)] by (auto simp: ReadChunks_def)
  with assms(3,4) show ?thesis by (simp add: reader_turn_def)
qed

lemma silent_loop:
  "silent c \<Longrightarrow> rpos r < length (slots c) \<Longrightarrow> \<not> inside r \<Longrightarrow> \<forall>t \<in> set ts. r_ctx t = None \<Longrightarrow>
    no_restart c (concat (map r_acts ts)) \<Longrightarrow>
    \<exists>p. reader_loop lb ts r c = Ok (None, r\<lparr>rpos := p\<rparr>, foldl coord_step c (concat (map r_acts ts)))"
proof (induction ts arbitrary: r c)
  case Nil
  have "r = r\<lparr>rpos := rpos r\<rparr>" by simp
  then show ?case by (metis concat.simps(1) foldl_Nil list.simps(8) reader_loop.simps(1))
next
  case (Cons t ts)
  let ?c = "foldl coord_step c (r_acts t)"
  have s: "silent ?c" "length (slots ?c) = length (slots c)" "no_restart ?c (concat (map r_acts ts))"
    using silent_run [OF Cons.prems(1), of "r_acts t"] Cons.prems(5) by (simp_all add: no_restart_append)
  have turn: "reader_turn lb t r ?c = Ok (None, r\<lparr>rpos := wpos ?c\<rparr>)"
    by (rule silent_turn) (use s Cons.prems in simp_all)
  have "wpos ?c < length (slots ?c)" using s(1) by (simp add: silent_def coord_ok_def ring_ok_def)
  then obtain p where "reader_loop lb ts (r\<lparr>rpos := wpos ?c\<rparr>) ?c =
      Ok (None, (r\<lparr>rpos := wpos ?c\<rparr>)\<lparr>rpos := p\<rparr>, foldl coord_step ?c (concat (map r_acts ts)))"
    using Cons.IH [OF s(1), of "r\<lparr>rpos := wpos ?c\<rparr>"] s(3) Cons.prems(3,4) by auto
  then show ?case using turn by (auto simp: Let_def)
qed

text \<open>C7. A stream that has ended is made active again only by a viewer who enters when no other is
  registered.  One who enters while another has not left yet (who retries after the source broke
  off, say, while a slower one is still writing out what it has read) starts a writer and empties
  the ring, with the error the other has still to read in it; the stream stays inactive, so the new
  writer returns at once without having read anything, what anybody writes is dropped, and the
  viewer turns in his loop for as long as he stays, and gets nothing, neither data nor an error.\<close>

theorem joining_an_ended_stream_gives_nothing:
  assumes "coord_ok c" "cstate c \<noteq> StateActive" "0 < ClientCount c" "\<not> WriterActive c"
    and "\<forall>t \<in> set ts. r_ctx t = None" "no_restart (snd (join c)) (acts @ concat (map r_acts ts))"
  shows "HandleStream lb acts ts sc c = Ok (True, None, sc, foldl coord_step (snd (join c)) (acts @ concat (map r_acts ts)))
    \<and> slots (snd (join c)) = replicate (length (slots c)) newChunkData
    \<and> write_loop timeout (w\<lparr>before := []\<rparr> # ws) s (snd (join c)) = Ok (Return None s (snd (join c)))"
proof -
  let ?d = "snd (start_writer c)" let ?j = "snd (join c)" let ?n = "length (slots c)"
  note d = fresh_ring [OF assms(1,4)]
  have n: "0 < ?n" using assms(1) by (auto simp: coord_ok_def ring_ok_def)
  have j: "join c = (True, RegisterClient ?d)" using d(1) by (simp add: join_eq)
  have J: "silent ?j" "slots ?j = replicate ?n newChunkData" "wpos ?j = wpos c" "cstate ?j \<noteq> StateActive"
    using d assms(2,3) by (simp_all add: j silent_def empty_ring_def coord_ok_def frame_simps)
  let ?a = "foldl coord_step ?j acts"
  have a: "silent ?a" "length (slots ?a) = length (slots ?j)" "no_restart ?a (concat (map r_acts ts))"
    using silent_run [OF J(1), of acts] assms(6) by (simp_all add: no_restart_append)
  define r where "r = \<lparr>rpos = start_slot ?a, inside = False, rbytes = 0, rclient = sc\<rparr>"
  have "rpos r < length (slots ?a)" "\<not> inside r" "rclient r = sc" using n J(2) a(2) by (simp_all add: r_def start_slot_def)
  with silent_loop [OF a(1) this(1,2) assms(5) a(3)] obtain p where
    p: "reader_loop lb ts r ?a = Ok (None, r\<lparr>rpos := p\<rparr>, foldl coord_step ?a (concat (map r_acts ts)))" by blast
  have "slots ?a \<noteq> []" using n J(2) a(2) by auto
  then have "HandleStream lb acts ts sc c = Ok (True, None, sc, foldl coord_step ?j (acts @ concat (map r_acts ts)))"
    using p j by (simp add: HandleStream_def split_beta Let_def r_def)
  with J show ?thesis by simp
qed

text \<open>Two viewers when the source has broken off and the writer is gone; the first has left and comes back.\<close>

definition broken_off :: Coord where
  "broken_off = hub (foldl hall_step watched_hall [Enter, Fail (Some EOF) StatusEOF 9, WriterEnds sample_lb, Leave 0])"

lemma broken_off_facts:
  "coord_ok broken_off" "cstate broken_off = StateClosed" "ClientCount broken_off = 1" "\<not> WriterActive broken_off"
proof -
  let ?W = "hub watched_hall"
  have w: "hall_ok watched_hall" "WriterActive ?W" "writers watched_hall = [Running (Some 0)]"
    using watched_hall_facts by (auto simp: watched_by_def hall_ok_def split: if_splits)
  have v: "viewers watched_hall = [Watching]" by (simp add: watched_hall_def opened_def join_def split_beta)
  have c: "coord_ok ?W" "ClientCount ?W = 1" using w(1) v by (simp_all add: hall_ok_def watching_def)
  let ?e = "coord_step (RegisterClient ?W) (AWriteError (Some EOF) StatusEOF 9)"
  have r: "ring_ok (RegisterClient ?W)" "coord_ok (RegisterClient ?W)" using c(1) by (simp_all add: coord_ok_def frame_simps)
  have e: "cstate ?e = StateClosed" "ClientCount ?e = 2"
    by (simp_all add: writeError_eq [OF r(1)] ClientCount_after_write frame_simps c(2))
  have b: "broken_off = leave_count (writer_exit sample_lb ?e)"
    using w(2,3) v e
    by (simp add: broken_off_def join_def start_writer_def leave_count_def writer_exit_def frame_simps del: coord_step.simps)
  have "coord_ok ?e" using r(2) by (rule lifecycle.inv_step)
  then show "coord_ok broken_off" by (simp add: b coord_ok_def leave_count_def writer_exit_def frame_simps del: coord_step.simps)
  show "cstate broken_off = StateClosed" "ClientCount broken_off = 1" "\<not> WriterActive broken_off"
    using e by (simp_all add: b leave_count_def writer_exit_def frame_simps del: coord_step.simps)
qed

lemma no_restart_writes: "\<forall>a \<in> set as. a \<noteq> ARegister \<Longrightarrow> no_restart c as"
  by (induction as arbitrary: c) auto

theorem joining_an_ended_stream_gives_nothing_witness:
  "let ts = replicate 9 \<lparr>r_acts = [AWrite (sample_chunk ''a'')], r_ctx = None, r_io = sample_io\<rparr>;
       j = snd (join broken_off); w = sample_tick [] None 0 in
   HandleStream sample_lb [AUnregister] ts sample_client broken_off =
     Ok (True, None, sample_client, foldl coord_step j ([AUnregister] @ concat (map r_acts ts)))
   \<and> slots j = replicate (length (slots broken_off)) newChunkData
   \<and> write_loop 3 (w\<lparr>before := []\<rparr> # []) (start_state 0 j) j = Ok (Return None (start_state 0 j) j)"
  unfolding Let_def
  by (rule joining_an_ended_stream_gives_nothing)
    (auto simp: broken_off_facts intro!: no_restart_writes)

end
