(* ===== verification/StreamInfo.thy ===== *)
theory StreamInfo
  imports GoStrings
begin

text \<open>
  \<^verbatim>\<open>sourceproc/stream_info.go\<close> and \<open>SortStreamSubUrls\<close> of \<^verbatim>\<open>sourceproc/helpers.go\<close>: a channel and
  its URLs, per M3U index a map from sub-index to \<open>"<line>:::<url>"\<close>.  A map is the list of its
  entries in the order in which a \<open>range\<close> visits them; a nil pointer is \<open>None\<close>.
\<close>

type_synonym url_map = "(string \<times> string) list"

record StreamInfo =
  Title :: string
  TvgID :: string
  TvgChNo :: string
  TvgType :: string
  LogoURL :: string
  Group :: string
  URLs :: "(string \<times> url_map) list option"
  SourceM3U :: string
  SourceIndex :: int

text \<open>The line number before the separator; \<open>Atoi\<close> gives 0 (or a bound of the range) on an error.\<close>

definition url_line :: "string \<Rightarrow> int" where
  "url_line v = fst (Atoi (hd (SplitN2 v '':::'')))"

definition SortStreamSubUrls ::
    "((string \<times> int \<Rightarrow> string \<times> int \<Rightarrow> bool) \<Rightarrow> (string \<times> int) list \<Rightarrow> (string \<times> int) list)
      \<Rightarrow> url_map \<Rightarrow> string list" where
  "SortStreamSubUrls srt urls =
     map fst (srt (\<lambda>a b. snd a < snd b) (map (\<lambda>(key, url). (key, url_line url)) urls))"

definition url_of :: "string \<Rightarrow> string" where
  "url_of content = (let ps = SplitN2 content '':::'' in if length ps = 2 then ps ! 1 else content)"

lemma SplitN2_not_Nil [simp]: "SplitN2 s sep \<noteq> []"
  by (simp add: SplitN2_def split: option.split)

section \<open>Sorted sub-indexes\<close>

lemma SortStream_props:
  assumes "slice_sorter srt" "distinct (map fst urls)"
  shows "mset (SortStreamSubUrls srt urls) = mset (map fst urls)"
    "set (SortStreamSubUrls srt urls) = fst ` set urls"
    "distinct (SortStreamSubUrls srt urls)"
    "sorted (map (\<lambda>k. url_line (the (map_of urls k))) (SortStreamSubUrls srt urls))"
proof -
  let ?us = "map (\<lambda>(key, url). (key, url_line url)) urls"
  let ?ss = "srt (\<lambda>a b. snd a < snd b) ?us"
  have m: "mset ?ss = mset ?us" using slice_sorter.mset_srt [OF assms(1)] .
  have "mset (map fst ?ss) = image_mset fst (mset ?ss)" by simp
  also have "\<dots> = mset (map fst ?us)" unfolding m by (simp only: mset_map)
  also have "map fst ?us = map fst urls" by (simp add: comp_def split_beta)
  finally show ms: "mset (SortStreamSubUrls srt urls) = mset (map fst urls)"
    by (simp add: SortStreamSubUrls_def)
  show "set (SortStreamSubUrls srt urls) = fst ` set urls"
    using mset_eq_setD [OF ms] by simp
  show "distinct (SortStreamSubUrls srt urls)"
    using mset_eq_imp_distinct_iff [OF ms] assms(2) by simp
  have "sorted (map snd ?ss)" using slice_sorter.srt_key_sorted [OF assms(1)] .
  moreover have "map (\<lambda>k. url_line (the (map_of urls k))) (map fst ?ss) = map snd ?ss"
  proof -
    have "url_line (the (map_of urls (fst x))) = snd x" if "x \<in> set ?ss" for x
    proof -
      have "x \<in> set ?us" using that mset_eq_setD [OF m] by simp
      then obtain u where "(fst x, u) \<in> set urls" "snd x = url_line u" by auto
      with assms(2) show ?thesis by simp
    qed
    then show ?thesis by simp
  qed
  ultimately show "sorted (map (\<lambda>k. url_line (the (map_of urls k))) (SortStreamSubUrls srt urls))"
    by (simp only: SortStreamSubUrls_def)
qed

text \<open>C39. The sub-indexes of a channel are tried in the order of the lines of the source file: a
  permutation of the keys, by ascending line number, whatever order the map is visited in and
  whatever sort routine that meets the contract of \<open>sort.Slice\<close> is used.\<close>

theorem sub_urls_sorted_by_line:
  assumes "slice_sorter srt" "distinct (map fst urls)"
  shows "mset (SortStreamSubUrls srt urls) = mset (map fst urls)
    \<and> sorted (map (\<lambda>k. url_line (the (map_of urls k))) (SortStreamSubUrls srt urls))"
  using SortStream_props [OF assms] by simp

theorem sub_urls_sorted_by_line_witness:
  "let urls = [(''b'', ''12:::http://h/b''), (''a'', ''3:::http://h/a'')] in
   mset (SortStreamSubUrls insertion_sort urls) = mset (map fst urls)
    \<and> sorted (map (\<lambda>k. url_line (the (map_of urls k))) (SortStreamSubUrls insertion_sort urls))"
  unfolding Let_def
  by (rule sub_urls_sorted_by_line [OF insertion.slice_sorter_axioms]) simp

end
