(* ===== verification/LoadBalancer.thy ===== *)
theory LoadBalancer
  imports StreamInfo Concurrency Backoff HttpTypes Configs
begin

text \<open>
  \<^verbatim>\<open>proxy/loadbalancer/instance.go\<close>: choosing a source for a stream.  A lap tries the M3U indexes
  by descending number of free connections, and within an index its URLs in line order, skipping
  what was tested in this lap or is at its limit; \<open>Balance\<close> makes laps until one succeeds.

  What the instance meets from outside is in the record \<open>lb_env\<close>: the process environment, the
  collaborators behind the interfaces of \<^verbatim>\<open>interfaces.go\<close> (HTTP client, slug parser), \<open>sort.Slice\<close>
  at its two element types, and, by a clock that advances at every call that may take time, the
  answers of the sources, the connections other requests open and close, and whether the
  context is done.
\<close>

datatype http_result = HttpErr | HttpNil | HttpOk Response

record lb_env =
  lb_environ :: environ
  lb_config :: LBConfig
  has_client :: bool
  has_provider :: bool
  parse_slug :: "string \<Rightarrow> go_error + StreamInfo"
  request_ok :: "string \<Rightarrow> string \<Rightarrow> bool"
  answer :: "nat \<Rightarrow> string \<Rightarrow> string \<Rightarrow> http_result"
  others :: "nat \<Rightarrow> cm_event list"
  ctx_done :: "nat \<Rightarrow> bool"
  sort_indexes :: "(string \<Rightarrow> string \<Rightarrow> bool) \<Rightarrow> string list \<Rightarrow> string list"
  sort_subs :: "(string \<times> int \<Rightarrow> string \<times> int \<Rightarrow> bool) \<Rightarrow> (string \<times> int) list \<Rightarrow> (string \<times> int) list"

text \<open>
  The state: the fields of the instance, the concurrency manager it shares, the slice of M3U
  indexes (one slice for the whole process, sorted in place), and the clock.
\<close>

record lb_state =
  info :: "StreamInfo option"
  testedIndexes :: "string \<rightharpoonup> string list"
  Cm :: ConcurrencyManager
  m3uIndexes :: "string list"
  clock :: nat

definition GetStreamId :: "string \<Rightarrow> string" where
  "GetStreamId urlPath =
     (let sid = hd (SplitChar (CHR ''.'') (path_Base urlPath)) in
      if sid = [] then [] else TrimPrefix sid ''/'')"

definition markTested :: "string \<Rightarrow> string \<Rightarrow> lb_state \<Rightarrow> lb_state" where
  "markTested sid i s =
     s\<lparr>testedIndexes := (testedIndexes s)(sid \<mapsto> (case testedIndexes s sid of None \<Rightarrow> [] | Some v \<Rightarrow> v) @ [i])\<rparr>"

definition clearTested :: "string \<Rightarrow> lb_state \<Rightarrow> lb_state" where
  "clearTested sid s = s\<lparr>testedIndexes := (testedIndexes s)(sid := None)\<rparr>"

definition GetNumTestedIndexes :: "string \<Rightarrow> lb_state \<Rightarrow> int" where
  "GetNumTestedIndexes sid s = (case testedIndexes s sid of None \<Rightarrow> 0 | Some v \<Rightarrow> int (length v))"

definition is_tested :: "string \<Rightarrow> string \<Rightarrow> lb_state \<Rightarrow> bool" where
  "is_tested sid i s \<longleftrightarrow> (case testedIndexes s sid of None \<Rightarrow> False | Some v \<Rightarrow> i \<in> set v)"

text \<open>Time passes: other requests open and close connections.\<close>

definition pass_time :: "lb_env \<Rightarrow> lb_state \<Rightarrow> lb_state" where
  "pass_time E s = s\<lparr>Cm := foldl (cm_step (lb_environ E)) (Cm s) (others E (clock s)), clock := Suc (clock s)\<rparr>"

definition look :: "lb_env \<Rightarrow> lb_state \<Rightarrow> bool \<times> lb_state" where
  "look E s = (ctx_done E (clock s), pass_time E s)"

section \<open>One index\<close>

definition url_id :: "string \<Rightarrow> string \<Rightarrow> string" where
  "url_id index subIndex = index @ ''|'' @ subIndex"

definition try_url :: "lb_env \<Rightarrow> string \<Rightarrow> string \<Rightarrow> string \<Rightarrow> url_map \<Rightarrow> string \<Rightarrow> lb_state
    \<Rightarrow> (LoadBalancerResult option \<times> lb_state) outcome" where
  "try_url E mthd sid index urls subIndex s =
     (case map_of urls subIndex of
        None \<Rightarrow> Ok (None, s)
      | Some fileContent \<Rightarrow>
          let url = url_of fileContent; i = url_id index subIndex in
          if is_tested sid i s then Ok (None, s)
          else
            let s1 = pass_time E s in
            bind_outcome (CheckConcurrency (lb_environ E) index (Cm s1)) (\<lambda>(full, cm).
              let s2 = s1\<lparr>Cm := cm\<rparr> in
              if full then Ok (None, s2)
              else if \<not> request_ok E mthd url then Ok (None, markTested sid i s2)
              else
                let s3 = pass_time E s2 in
                case answer E (clock s2) mthd url of
                  HttpErr \<Rightarrow> Ok (None, markTested sid i s3)
                | HttpNil \<Rightarrow> Ok (None, markTested sid i s3)
                | HttpOk resp \<Rightarrow>
                    if StatusCode resp \<noteq> 200 then Ok (None, markTested sid i s3)
                    else Ok (Some \<lparr>lbResponse = resp, lbURL = url, lbIndex = index, lbSubIndex = subIndex\<rparr>, s3)))"

fun try_urls :: "lb_env \<Rightarrow> string \<Rightarrow> string \<Rightarrow> string \<Rightarrow> url_map \<Rightarrow> string list \<Rightarrow> lb_state
    \<Rightarrow> (LoadBalancerResult option \<times> lb_state) outcome" where
  "try_urls E mthd sid index urls [] s = Ok (None, s)"
| "try_urls E mthd sid index urls (k # ks) s =
     bind_outcome (try_url E mthd sid index urls k s) (\<lambda>(r, s').
       case r of Some res \<Rightarrow> Ok (Some res, s') | None \<Rightarrow> try_urls E mthd sid index urls ks s')"

definition tryStreamUrls :: "lb_env \<Rightarrow> string \<Rightarrow> string \<Rightarrow> string \<Rightarrow> url_map \<Rightarrow> lb_state
    \<Rightarrow> ((go_error + LoadBalancerResult) \<times> lb_state) outcome" where
  "tryStreamUrls E mthd sid index urls s =
     (if \<not> has_client E then Ok (Inl (Errorf ''HTTP client cannot be nil''), s)
      else bind_outcome (try_urls E mthd sid index urls (SortStreamSubUrls (sort_subs E) urls) s) (\<lambda>(r, s').
        Ok (case r of Some res \<Rightarrow> Inr res | None \<Rightarrow> Inl (Errorf ''all urls failed''), s')))"

section \<open>All indexes\<close>

text \<open>
  The free connections of an index, as the sort and the log line before each try read them.  The
  calls also fill the cache of limits; a stored nil counter makes them panic.
\<close>

definition priority :: "lb_env \<Rightarrow> lb_state \<Rightarrow> string \<Rightarrow> int" where
  "priority E s k =
     (case ConcurrencyPriorityValue (lb_environ E) k (Cm s) of Ok (p, _) \<Rightarrow> p | Panic _ \<Rightarrow> 0)"

definition priority_panics :: "lb_env \<Rightarrow> lb_state \<Rightarrow> string \<Rightarrow> bool" where
  "priority_panics E s k =
     (case ConcurrencyPriorityValue (lb_environ E) k (Cm s) of Ok _ \<Rightarrow> False | Panic _ \<Rightarrow> True)"

definition fill_cache :: "lb_env \<Rightarrow> string list \<Rightarrow> lb_state \<Rightarrow> lb_state" where
  "fill_cache E ks s = s\<lparr>Cm := foldl (\<lambda>cm k. snd (getMaxConcurrency (lb_environ E) k cm)) (Cm s) ks\<rparr>"

definition pick :: "string list \<Rightarrow> string list \<Rightarrow> string" where
  "pick dn ixs = (case find (\<lambda>i. i \<notin> set dn) ixs of Some i \<Rightarrow> i | None \<Rightarrow> [])"

text \<open>
  The loop of \<open>tryAllStreams\<close>; \<open>dn\<close> holds the keys of its map \<open>done\<close>.  \<open>None\<close> is a
  loop that does not end.
\<close>

partial_function (option) try_indexes :: "lb_env \<Rightarrow> string \<Rightarrow> string \<Rightarrow> nat \<Rightarrow> string list \<Rightarrow> lb_state
    \<Rightarrow> ((go_error + LoadBalancerResult) \<times> lb_state) outcome option" where
  "try_indexes E mthd sid n dn s =
     (if \<not> length dn < n then Some (Ok (Inl (Errorf ''no available streams''), s))
      else
        let ixs = sort_indexes E (\<lambda>a b. priority E s a > priority E s b) (m3uIndexes s);
            index = pick dn ixs in
        if (\<exists>k \<in> set (index # ixs). priority_panics E s k) then Some (Panic ''nil pointer dereference'')
        else
          let s1 = fill_cache E (ixs @ [index]) (s\<lparr>m3uIndexes := ixs\<rparr>);
              dn' = List.insert index dn in
          case info s1 of
            None \<Rightarrow> Some (Panic ''nil pointer dereference'')
          | Some si \<Rightarrow>
              (case URLs si of
                 None \<Rightarrow> Some (Panic ''nil pointer dereference'')
               | Some us \<Rightarrow>
                   (case map_of us index of
                      None \<Rightarrow> try_indexes E mthd sid n dn' s1
                    | Some urls \<Rightarrow>
                        (case tryStreamUrls E mthd sid index urls s1 of
                           Panic m \<Rightarrow> Some (Panic m)
                         | Ok (r, s2) \<Rightarrow>
                             (case r of
                                Inr res \<Rightarrow> Some (Ok (Inr res, s2))
                              | Inl e \<Rightarrow>
                                  (case look E s2 of (stop, s3) \<Rightarrow>
                                     if stop then Some (Ok (Inl Canceled, s3))
                                     else try_indexes E mthd sid n dn' s3))))))"

definition tryAllStreams :: "lb_env \<Rightarrow> string \<Rightarrow> string \<Rightarrow> lb_state
    \<Rightarrow> ((go_error + LoadBalancerResult) \<times> lb_state) outcome option" where
  "tryAllStreams E mthd sid s =
     (if \<not> has_provider E then Some (Ok (Inl (Errorf ''index provider cannot be nil''), s))
      else if m3uIndexes s = [] then Some (Ok (Inl (Errorf ''no M3U indexes available''), s))
      else case look E s of (stop, s1) \<Rightarrow>
        if stop then Some (Ok (Inl Canceled, s1))
        else try_indexes E mthd sid (length (m3uIndexes s1)) [] s1)"

section \<open>Balance\<close>

definition fetchBackendUrls :: "lb_env \<Rightarrow> string \<Rightarrow> lb_state \<Rightarrow> go_error option \<times> lb_state" where
  "fetchBackendUrls E sid s =
     (case parse_slug E sid of
        Inl e \<Rightarrow> (Some e, s)
      | Inr stream \<Rightarrow>
          let us = (case URLs stream of None \<Rightarrow> [] | Some us \<Rightarrow> us) in
          if us = [] then (Some (Errorf ''stream has no URLs configured''), s)
          else if \<forall>u \<in> set us. snd u = [] then (Some (Errorf ''stream has no valid URLs''), s)
          else (None, s\<lparr>info := Some (stream\<lparr>URLs := Some us\<rparr>)\<rparr>))"

text \<open>
  The laps: as many as configured, without end for 0.  The wait between two laps ends with the
  timer or with the context.
\<close>

partial_function (option) laps :: "lb_env \<Rightarrow> string \<Rightarrow> string \<Rightarrow> int \<Rightarrow> lb_state
    \<Rightarrow> ((go_error + LoadBalancerResult) \<times> lb_state) outcome option" where
  "laps E mthd sid lap s =
     (if \<not> (lap < MaxRetries (lb_config E) \<or> MaxRetries (lb_config E) = 0)
      then Some (Ok (Inl (Errorf ''error fetching stream: exhausted all streams''), s))
      else Option.bind (tryAllStreams E mthd sid s) (\<lambda>res.
        case res of
          Panic m \<Rightarrow> Some (Panic m)
        | Ok (r, s1) \<Rightarrow>
            (case r of
               Inr found \<Rightarrow> Some (Ok (Inr found, s1))
             | Inl e \<Rightarrow>
                 if e = Canceled then Some (Ok (Inl (Errorf ''cancelling load balancer''), s1))
                 else
                   case look E (clearTested sid s1) of (stop, s2) \<Rightarrow>
                     if stop then Some (Ok (Inl (Errorf ''cancelling load balancer''), s2))
                     else laps E mthd sid (int64 (lap + 1)) s2)))"

record http_request =
  Method :: string
  URLPath :: "string option"

definition Balance :: "lb_env \<Rightarrow> bool \<Rightarrow> http_request option \<Rightarrow> lb_state
    \<Rightarrow> ((go_error + LoadBalancerResult) \<times> lb_state) outcome option" where
  "Balance E has_ctx req s =
     (if \<not> has_ctx then Some (Ok (Inl (Errorf ''context cannot be nil''), s))
      else case req of
        None \<Rightarrow> Some (Ok (Inl (Errorf ''req cannot be nil''), s))
      | Some rq \<Rightarrow>
          if Method rq = [] then Some (Ok (Inl (Errorf ''req.Method cannot be empty''), s))
          else case URLPath rq of
            None \<Rightarrow> Some (Ok (Inl (Errorf ''req.URL cannot be empty''), s))
          | Some p \<Rightarrow>
              (case fetchBackendUrls E (GetStreamId p) s of
                 (Some e, s1) \<Rightarrow> Some (Ok (Inl (Errorf (''error fetching sources for: '' @ GetStreamId p)), s1))
               | (None, s1) \<Rightarrow> laps E (Method rq) (GetStreamId p) 0 s1))"

section \<open>What a lap changes\<close>

text \<open>No counter is a stored nil pointer: what every acquisition and release keeps.\<close>

definition no_nil :: "ConcurrencyManager \<Rightarrow> bool" where
  "no_nil cm \<longleftrightarrow> (\<forall>k. count cm k \<noteq> Some None)"

definition cnt :: "ConcurrencyManager \<Rightarrow> string \<Rightarrow> int" where
  "cnt cm k = (case count cm k of Some (Some c) \<Rightarrow> c | _ \<Rightarrow> 0)"

lemma getMax_no_nil [simp]: "no_nil (snd (getMaxConcurrency env k cm)) = no_nil cm"
  by (simp add: no_nil_def)

lemma getMax_cnt [simp]: "cnt (snd (getMaxConcurrency env k cm)) = cnt cm"
  by (simp add: cnt_def fun_eq_iff)

lemma getMax_again [simp]:
  "fst (getMaxConcurrency env k' (snd (getMaxConcurrency env k cm))) = fst (getMaxConcurrency env k' cm)"
  by (auto simp: getMaxConcurrency_def Let_def split: option.splits prod.splits)

lemma Status_no_nil:
  "no_nil cm \<Longrightarrow> GetConcurrencyStatus env k cm =
    Ok ((cnt cm k, fst (getMaxConcurrency env k cm), int64 (fst (getMaxConcurrency env k cm) - cnt cm k)),
        snd (getMaxConcurrency env k cm))"
  by (auto simp: GetConcurrencyStatus_def no_nil_def cnt_def split_beta Let_def split: option.split)

lemma cm_step_no_nil: "no_nil cm \<Longrightarrow> no_nil (cm_step env cm e)"
proof (cases e)
  case (Check k)
  assume "no_nil cm"
  with Check show ?thesis by (simp add: CheckConcurrency_def Status_no_nil)
qed (auto simp: no_nil_def UpdateConcurrency_def compute_count_def update_count_def Let_def)

lemma cm_step_Invalid [simp]: "Invalid (cm_step env cm e) = Invalid cm"
  by (cases e) (auto simp: CheckConcurrency_def GetConcurrencyStatus_def compute_count_def Let_def split_beta
      split: option.splits outcome.splits)

lemma cm_run_Invalid [simp]: "Invalid (foldl (cm_step env) cm es) = Invalid cm"
  by (induction es arbitrary: cm) simp_all

lemma cm_run_no_nil: "no_nil cm \<Longrightarrow> no_nil (foldl (cm_step env) cm es)"
  by (induction es arbitrary: cm) (auto simp: cm_step_no_nil)

definition at_limit :: "lb_env \<Rightarrow> lb_state \<Rightarrow> string \<Rightarrow> bool" where
  "at_limit E s k \<longleftrightarrow> fst (getMaxConcurrency (lb_environ E) k (Cm s)) \<le> cnt (Cm s) k"

text \<open>The free connections of an index, by its limit and its count.\<close>

definition free_of :: "lb_env \<Rightarrow> lb_state \<Rightarrow> string \<Rightarrow> int" where
  "free_of E s k = int64 (fst (getMaxConcurrency (lb_environ E) k (Cm s)) - cnt (Cm s) k)"

lemma priority_free: "no_nil (Cm s) \<Longrightarrow> priority E s k = free_of E s k"
  by (simp add: priority_def free_of_def ConcurrencyPriorityValue_def Status_no_nil)

definition quiet :: "lb_env \<Rightarrow> bool" where
  "quiet E \<longleftrightarrow> (\<forall>t. others E t = [])"

text \<open>What every step of a lap keeps.\<close>

definition later :: "lb_env \<Rightarrow> string \<Rightarrow> lb_state \<Rightarrow> lb_state \<Rightarrow> bool" where
  "later E sid s s' \<longleftrightarrow> info s' = info s \<and> mset (m3uIndexes s') = mset (m3uIndexes s)
     \<and> (no_nil (Cm s) \<longrightarrow> no_nil (Cm s')) \<and> (\<forall>i. is_tested sid i s \<longrightarrow> is_tested sid i s')
     \<and> (quiet E \<longrightarrow> at_limit E s' = at_limit E s \<and> free_of E s' = free_of E s) \<and> Invalid (Cm s') = Invalid (Cm s)"

lemma later_refl [simp]: "later E sid s s"
  by (simp add: later_def)

lemma later_trans: "later E sid s1 s2 \<Longrightarrow> later E sid s2 s3 \<Longrightarrow> later E sid s1 s3"
  by (simp add: later_def)

lemma later_pass_time: "later E sid s (pass_time E s)"
  by (auto simp: later_def pass_time_def cm_run_no_nil is_tested_def quiet_def at_limit_def free_of_def fun_eq_iff)

lemma later_mark: "later E sid s (markTested sid i s)"
  by (auto simp: later_def markTested_def is_tested_def at_limit_def free_of_def fun_eq_iff split: option.splits)

lemma later_limit: "later E sid s (s\<lparr>Cm := snd (getMaxConcurrency (lb_environ E) k (Cm s))\<rparr>)"
  by (auto simp: later_def is_tested_def at_limit_def free_of_def fun_eq_iff)

lemma later_indexes: "mset ixs = mset (m3uIndexes s) \<Longrightarrow> later E sid s (s\<lparr>m3uIndexes := ixs\<rparr>)"
  by (auto simp: later_def is_tested_def at_limit_def free_of_def fun_eq_iff)

lemma later_fill: "later E sid s (fill_cache E ks s)"
proof (induction ks arbitrary: s)
  case (Cons k ks)
  let ?s = "s\<lparr>Cm := snd (getMaxConcurrency (lb_environ E) k (Cm s))\<rparr>"
  have "fill_cache E (k # ks) s = fill_cache E ks ?s" by (simp add: fill_cache_def)
  then show ?case using later_trans [OF later_limit Cons.IH [of ?s]] by simp
qed (simp add: fill_cache_def)

lemma fill_cache_simps [simp]: "info (fill_cache E ks s) = info s" "m3uIndexes (fill_cache E ks s) = m3uIndexes s"
  "testedIndexes (fill_cache E ks s) = testedIndexes s" "clock (fill_cache E ks s) = clock s"
  by (simp_all add: fill_cache_def)

section \<open>One index\<close>

definition never_ok :: "lb_env \<Rightarrow> bool" where
  "never_ok E \<longleftrightarrow> (\<forall>t m u r. answer E t m u = HttpOk r \<longrightarrow> StatusCode r \<noteq> 200)"

definition from_url :: "lb_env \<Rightarrow> string \<Rightarrow> string \<Rightarrow> url_map \<Rightarrow> LoadBalancerResult \<Rightarrow> bool" where
  "from_url E mthd index urls res \<longleftrightarrow> lbIndex res = index \<and> StatusCode (lbResponse res) = 200
     \<and> (\<exists>content t. map_of urls (lbSubIndex res) = Some content \<and> lbURL res = url_of content
          \<and> answer E t mthd (lbURL res) = HttpOk (lbResponse res))"

lemma try_url_facts:
  assumes "no_nil (Cm s)"
  shows "\<exists>r s'. try_url E mthd sid index urls k s = Ok (r, s') \<and> later E sid s s'
    \<and> (\<forall>res. r = Some res \<longrightarrow> from_url E mthd index urls res \<and> \<not> never_ok E)
    \<and> (r = None \<longrightarrow> quiet E \<longrightarrow> map_of urls k \<noteq> None \<longrightarrow>
        is_tested sid (url_id index k) s' \<or> at_limit E s' index)"
proof (cases "map_of urls k")
  case None
  then show ?thesis by (simp add: try_url_def)
next
  case (Some content)
  let ?u = "url_of content" let ?i = "url_id index k"
  show ?thesis
  proof (cases "is_tested sid ?i s")
    case True
    with Some show ?thesis by (simp add: try_url_def Let_def)
  next
    case untested: False
    let ?s = "pass_time E s"
    let ?t = "?s\<lparr>Cm := snd (getMaxConcurrency (lb_environ E) index (Cm ?s))\<rparr>"
    have nn: "no_nil (Cm ?s)" using later_pass_time [of E sid s] assms by (simp add: later_def)
    have c: "CheckConcurrency (lb_environ E) index (Cm ?s) = Ok (at_limit E ?s index, Cm ?t)"
      by (simp add: CheckConcurrency_def Status_no_nil [OF nn] at_limit_def)
    have lt: "later E sid s ?t" using later_trans [OF later_pass_time later_limit] .
    have lim: "at_limit E ?t index = at_limit E ?s index" by (simp add: at_limit_def)
    have mk: "is_tested sid ?i (markTested sid ?i x)" for x by (simp add: is_tested_def markTested_def)
    have lm: "later E sid s (markTested sid ?i ?t)" using later_trans [OF lt later_mark] .
    have lp: "later E sid s (pass_time E ?t)" using later_trans [OF lt later_pass_time] .
    have lpm: "later E sid s (markTested sid ?i (pass_time E ?t))" using later_trans [OF lp later_mark] .
    have eq: "try_url E mthd sid index urls k s =
       (if at_limit E ?s index then Ok (None, ?t)
        else if \<not> request_ok E mthd ?u then Ok (None, markTested sid ?i ?t)
        else case answer E (clock ?t) mthd ?u of
            HttpOk resp \<Rightarrow> (if StatusCode resp \<noteq> 200 then Ok (None, markTested sid ?i (pass_time E ?t))
              else Ok (Some \<lparr>lbResponse = resp, lbURL = ?u, lbIndex = index, lbSubIndex = k\<rparr>, pass_time E ?t))
          | _ \<Rightarrow> Ok (None, markTested sid ?i (pass_time E ?t)))"
      using Some untested c by (simp add: try_url_def Let_def split: http_result.split)
    show ?thesis
    proof (cases "at_limit E ?s index \<or> \<not> request_ok E mthd ?u")
      case True
      then show ?thesis using lt lm lim mk unfolding eq by auto
    next
      case False
      show ?thesis
      proof (cases "\<exists>resp. answer E (clock ?t) mthd ?u = HttpOk resp \<and> StatusCode resp = 200")
        case True
        then obtain resp where a: "answer E (clock ?t) mthd ?u = HttpOk resp" "StatusCode resp = 200" by blast
        then have nk: "\<not> never_ok E" unfolding never_ok_def by metis
        have "from_url E mthd index urls \<lparr>lbResponse = resp, lbURL = ?u, lbIndex = index, lbSubIndex = k\<rparr>"
          using a Some by (auto simp: from_url_def)
        with a nk lp False show ?thesis unfolding eq by simp
      next
        case no: False
        then have "try_url E mthd sid index urls k s = Ok (None, markTested sid ?i (pass_time E ?t))"
          using False unfolding eq by (auto split: http_result.split)
        with lpm mk show ?thesis by simp
      qed
    qed
  qed
qed

lemma later_keeps:
  "later E sid s s' \<Longrightarrow> quiet E \<Longrightarrow> is_tested sid i s \<or> at_limit E s k \<Longrightarrow> is_tested sid i s' \<or> at_limit E s' k"
  by (auto simp: later_def)

lemma try_urls_facts:
  "no_nil (Cm s) \<Longrightarrow>
    \<exists>r s'. try_urls E mthd sid index urls ks s = Ok (r, s') \<and> later E sid s s'
    \<and> (\<forall>res. r = Some res \<longrightarrow> from_url E mthd index urls res \<and> \<not> never_ok E)
    \<and> (r = None \<longrightarrow> quiet E \<longrightarrow> (\<forall>k \<in> set ks. map_of urls k \<noteq> None \<longrightarrow>
        is_tested sid (url_id index k) s' \<or> at_limit E s' index))"
proof (induction ks arbitrary: s)
  case (Cons k ks)
  obtain r s1 where 1: "try_url E mthd sid index urls k s = Ok (r, s1)" "later E sid s s1"
    "\<forall>res. r = Some res \<longrightarrow> from_url E mthd index urls res \<and> \<not> never_ok E"
    "r = None \<longrightarrow> quiet E \<longrightarrow> map_of urls k \<noteq> None \<longrightarrow> is_tested sid (url_id index k) s1 \<or> at_limit E s1 index"
    using try_url_facts [OF Cons.prems] by blast
  show ?case
  proof (cases r)
    case (Some res)
    with 1 show ?thesis by simp
  next
    case None
    have "no_nil (Cm s1)" using 1(2) Cons.prems by (simp add: later_def)
    from Cons.IH [OF this] obtain r' s2 where 2: "try_urls E mthd sid index urls ks s1 = Ok (r', s2)" "later E sid s1 s2"
      "\<forall>res. r' = Some res \<longrightarrow> from_url E mthd index urls res \<and> \<not> never_ok E"
      "r' = None \<longrightarrow> quiet E \<longrightarrow> (\<forall>k \<in> set ks. map_of urls k \<noteq> None \<longrightarrow>
        is_tested sid (url_id index k) s2 \<or> at_limit E s2 index)"
      by blast
    have "quiet E \<Longrightarrow> map_of urls k \<noteq> None \<Longrightarrow> is_tested sid (url_id index k) s2 \<or> at_limit E s2 index"
      using later_keeps [OF 2(2)] 1(4) None by blast
    with 1 2 None later_trans [OF 1(2) 2(2)] show ?thesis by auto
  qed
qed simp

text \<open>Every URL of the index was tested in this lap or the index is at its limit.\<close>

definition covered :: "lb_env \<Rightarrow> string \<Rightarrow> (string \<times> url_map) list \<Rightarrow> lb_state \<Rightarrow> string \<Rightarrow> bool" where
  "covered E sid us s index \<longleftrightarrow> (\<forall>urls k. map_of us index = Some urls \<longrightarrow> k \<in> fst ` set urls \<longrightarrow>
     is_tested sid (url_id index k) s \<or> at_limit E s index)"

lemma covered_later: "later E sid s s' \<Longrightarrow> quiet E \<Longrightarrow> covered E sid us s index \<Longrightarrow> covered E sid us s' index"
  unfolding covered_def using later_keeps by blast

lemma tryStreamUrls_facts:
  assumes "no_nil (Cm s)"
  shows "\<exists>r s'. tryStreamUrls E mthd sid index urls s = Ok (r, s') \<and> later E sid s s'
    \<and> (\<forall>res. r = Inr res \<longrightarrow> from_url E mthd index urls res \<and> \<not> never_ok E)
    \<and> (\<forall>e. r = Inl e \<longrightarrow> e \<noteq> Canceled \<and> (quiet E \<longrightarrow> has_client E \<longrightarrow> slice_sorter (sort_subs E) \<longrightarrow>
        distinct (map fst urls) \<longrightarrow>
        (\<forall>k \<in> fst ` set urls. is_tested sid (url_id index k) s' \<or> at_limit E s' index)))"
proof (cases "has_client E")
  case False
  then show ?thesis by (simp add: tryStreamUrls_def)
next
  case True
  let ?ks = "SortStreamSubUrls (sort_subs E) urls"
  obtain r s' where 1: "try_urls E mthd sid index urls ?ks s = Ok (r, s')" "later E sid s s'"
    "\<forall>res. r = Some res \<longrightarrow> from_url E mthd index urls res \<and> \<not> never_ok E"
    "r = None \<longrightarrow> quiet E \<longrightarrow> (\<forall>k \<in> set ?ks. map_of urls k \<noteq> None \<longrightarrow>
        is_tested sid (url_id index k) s' \<or> at_limit E s' index)"
    using try_urls_facts [OF assms] by blast
  have "set ?ks = fst ` set urls" if "slice_sorter (sort_subs E)" "distinct (map fst urls)"
    using SortStream_props(2) [OF that] .
  moreover have "map_of urls k \<noteq> None" if "k \<in> fst ` set urls" for k
    using that by (simp add: map_of_eq_None_iff)
  ultimately have "r = None \<longrightarrow> quiet E \<longrightarrow> slice_sorter (sort_subs E) \<longrightarrow> distinct (map fst urls) \<longrightarrow>
      (\<forall>k \<in> fst ` set urls. is_tested sid (url_id index k) s' \<or> at_limit E s' index)"
    using 1(4) by blast
  with 1(1,2,3) True show ?thesis by (cases r) (auto simp: tryStreamUrls_def)
qed

section \<open>The next index\<close>

lemma find_sorted_max:
  assumes "sorted_wrt (\<lambda>a b. \<not> f b > (f a :: int)) xs" "find P xs = Some x"
  shows "x \<in> set xs \<and> P x \<and> (\<forall>y \<in> set xs. P y \<longrightarrow> f y \<le> f x)"
  using assms by (induction xs) (auto split: if_splits)

lemma pick_freest:
  assumes "slice_sorter (sort_indexes E)" "x \<in> set (m3uIndexes s)" "x \<notin> set dn"
  shows "pick dn (sort_indexes E (\<lambda>a b. priority E s a > priority E s b) (m3uIndexes s)) \<in> set (m3uIndexes s) - set dn
    \<and> (\<forall>j \<in> set (m3uIndexes s) - set dn. priority E s j \<le>
        priority E s (pick dn (sort_indexes E (\<lambda>a b. priority E s a > priority E s b) (m3uIndexes s))))"
proof -
  let ?xs = "sort_indexes E (\<lambda>a b. priority E s a > priority E s b) (m3uIndexes s)"
  have set: "set ?xs = set (m3uIndexes s)" using slice_sorter.set_srt [OF assms(1)] .
  have ord: "sorted_wrt (\<lambda>a b. \<not> priority E s b > priority E s a) ?xs"
    using slice_sorter.ordered_srt [OF assms(1) strict_weak_key_desc] .
  have "find (\<lambda>i. i \<notin> set dn) ?xs \<noteq> None" using assms(2,3) set by (auto simp: find_None_iff)
  then obtain i where i: "find (\<lambda>i. i \<notin> set dn) ?xs = Some i" by blast
  with find_sorted_max [OF ord i] set show ?thesis by (auto simp: pick_def)
qed

definition sample_env :: lb_env where
  "sample_env = \<lparr>lb_environ = [(''M3U_MAX_CONCURRENCY_2'', ''2'')], lb_config = \<lparr>MaxRetries = 2, RetryWait = 0\<rparr>,
     has_client = True, has_provider = True, parse_slug = (\<lambda>_. Inl EOF), request_ok = (\<lambda>_ _. True),
     answer = (\<lambda>_ _ _. HttpErr), others = (\<lambda>_. []), ctx_done = (\<lambda>_. False),
     sort_indexes = insertion_sort, sort_subs = insertion_sort\<rparr>"

definition sample_info :: StreamInfo where
  "sample_info = \<lparr>Title = ''News'', TvgID = [], TvgChNo = [], TvgType = [], LogoURL = [], Group = [],
     URLs = Some [(''1'', [(''a'', ''1:::http://h/a'')]), (''2'', [(''b'', ''4:::http://h/b'')])],
     SourceM3U = ''1'', SourceIndex = 1\<rparr>"

definition sample_state :: lb_state where
  "sample_state = \<lparr>info = Some sample_info, testedIndexes = Map.empty, Cm = NewConcurrencyManager,
     m3uIndexes = [''1'', ''2''], clock = 0\<rparr>"

lemma sample_env_facts:
  "slice_sorter (sort_indexes sample_env)" "slice_sorter (sort_subs sample_env)"
  "counted 0 (Cm sample_state)" "cache_ok (lb_environ sample_env) (Cm sample_state)" "no_nil (Cm sample_state)"
proof -
  have "no_nil NewConcurrencyManager" by (simp add: no_nil_def NewConcurrencyManager_def)
  then show "slice_sorter (sort_indexes sample_env)" "slice_sorter (sort_subs sample_env)"
    "counted 0 (Cm sample_state)" "cache_ok (lb_environ sample_env) (Cm sample_state)" "no_nil (Cm sample_state)"
    by (simp_all add: sample_env_def sample_state_def counted_New New_cache_ok insertion.slice_sorter_axioms)
qed

section \<open>A lap\<close>

definition from_source :: "lb_env \<Rightarrow> string \<Rightarrow> string list \<Rightarrow> (string \<times> url_map) list \<Rightarrow> LoadBalancerResult \<Rightarrow> bool" where
  "from_source E mthd ixs us res \<longleftrightarrow> lbIndex res \<in> set ixs
     \<and> (\<exists>urls. map_of us (lbIndex res) = Some urls \<and> from_url E mthd (lbIndex res) urls res)"

definition tidy :: "(string \<times> url_map) list \<Rightarrow> bool" where
  "tidy us \<longleftrightarrow> (\<forall>i urls. map_of us i = Some urls \<longrightarrow> distinct (map fst urls))"

definition lap_result :: "lb_env \<Rightarrow> string \<Rightarrow> string \<Rightarrow> string list \<Rightarrow> (string \<times> url_map) list
    \<Rightarrow> (go_error + LoadBalancerResult) \<Rightarrow> lb_state \<Rightarrow> bool" where
  "lap_result E mthd sid ixs us r s' \<longleftrightarrow>
     (case r of
        Inr res \<Rightarrow> from_source E mthd ixs us res \<and> \<not> never_ok E
      | Inl e \<Rightarrow> (e = Canceled \<longrightarrow> (\<exists>t. ctx_done E t))
          \<and> (e \<noteq> Canceled \<longrightarrow> quiet E \<longrightarrow> has_client E \<longrightarrow> slice_sorter (sort_subs E) \<longrightarrow> tidy us \<longrightarrow>
               (\<forall>i \<in> set ixs. covered E sid us s' i)))"

lemma priority_ok: "no_nil (Cm s) \<Longrightarrow> \<not> priority_panics E s k"
  by (simp add: priority_panics_def ConcurrencyPriorityValue_def Status_no_nil)

lemma all_done:
  assumes "distinct dn" "set dn \<subseteq> set ixs" "length ixs \<le> length dn"
  shows "set dn = set ixs"
proof -
  have "card (set dn) = length dn" using assms(1) by (rule distinct_card)
  then have "card (set ixs) \<le> card (set dn)" using assms(3) card_length [of ixs] by linarith
  with assms(2) show ?thesis using card_seteq by blast
qed

lemma try_indexes_facts:
  assumes "slice_sorter (sort_indexes E)"
  shows "info s = Some si \<Longrightarrow> URLs si = Some us \<Longrightarrow> no_nil (Cm s) \<Longrightarrow> distinct ixs \<Longrightarrow>
    mset (m3uIndexes s) = mset ixs \<Longrightarrow> distinct dn \<Longrightarrow> set dn \<subseteq> set ixs \<Longrightarrow>
    quiet E \<longrightarrow> has_client E \<longrightarrow> slice_sorter (sort_subs E) \<longrightarrow> tidy us \<longrightarrow> (\<forall>i \<in> set dn. covered E sid us s i) \<Longrightarrow>
    \<exists>r s'. try_indexes E mthd sid (length ixs) dn s = Some (Ok (r, s')) \<and> later E sid s s'
      \<and> lap_result E mthd sid ixs us r s'"
proof (induction "length ixs - length dn" arbitrary: dn s rule: less_induct)
  case less
  show ?case
  proof (cases "length dn < length ixs")
    case False
    then have "set dn = set ixs" using all_done [OF less.prems(6,7)] by linarith
    with False less.prems(8) show ?thesis by (subst try_indexes.simps) (simp add: lap_result_def)
  next
    case True
    let ?xs = "sort_indexes E (\<lambda>a b. priority E s a > priority E s b) (m3uIndexes s)"
    let ?i = "pick dn ?xs" let ?dn = "List.insert ?i dn"
    let ?s = "fill_cache E (?xs @ [?i]) (s\<lparr>m3uIndexes := ?xs\<rparr>)"
    have sx: "set (m3uIndexes s) = set ixs" using mset_eq_setD [OF less.prems(5)] .
    have "\<not> set ixs \<subseteq> set dn"
    proof
      assume "set ixs \<subseteq> set dn"
      then have "card (set ixs) \<le> card (set dn)" by (simp add: card_mono)
      with True less.prems(4) show False using card_length [of dn] by (simp add: distinct_card)
    qed
    then obtain x where x: "x \<in> set ixs" "x \<notin> set dn" by blast
    have i: "?i \<in> set ixs" "?i \<notin> set dn" using pick_freest [OF assms, of x s dn] x sx by simp_all
    have l1: "later E sid s ?s"
      using later_trans [OF later_indexes later_fill] slice_sorter.mset_srt [OF assms] by blast
    have np: "\<not> (\<exists>k \<in> set (?i # ?xs). priority_panics E s k)" using priority_ok [OF less.prems(3)] by blast
    have s1: "info ?s = Some si" "no_nil (Cm ?s)" "mset (m3uIndexes ?s) = mset ixs"
      using l1 less.prems by (simp_all add: later_def)
    have d1: "distinct ?dn" "set ?dn \<subseteq> set ixs" "length ixs - length ?dn < length ixs - length dn"
      using less.prems(6,7) i True by (auto simp: List.insert_def)
    have step: "try_indexes E mthd sid (length ixs) dn s =
       (case map_of us ?i of
          None \<Rightarrow> try_indexes E mthd sid (length ixs) ?dn ?s
        | Some urls \<Rightarrow> (case tryStreamUrls E mthd sid ?i urls ?s of
             Panic m \<Rightarrow> Some (Panic m)
           | Ok (r, s2) \<Rightarrow> (case r of Inr res \<Rightarrow> Some (Ok (Inr res, s2))
               | Inl e \<Rightarrow> (case look E s2 of (stop, s3) \<Rightarrow>
                   if stop then Some (Ok (Inl Canceled, s3)) else try_indexes E mthd sid (length ixs) ?dn s3))))"
      using True np less.prems(1,2) by (subst try_indexes.simps) (simp add: Let_def)
    let ?C = "\<lambda>s i. quiet E \<longrightarrow> has_client E \<longrightarrow> slice_sorter (sort_subs E) \<longrightarrow> tidy us \<longrightarrow> covered E sid us s i"
    have next_ok: "\<exists>r s'. try_indexes E mthd sid (length ixs) ?dn t = Some (Ok (r, s')) \<and> later E sid s s'
        \<and> lap_result E mthd sid ixs us r s'" if t: "later E sid s t" "?C t ?i" for t
    proof -
      have "quiet E \<longrightarrow> has_client E \<longrightarrow> slice_sorter (sort_subs E) \<longrightarrow> tidy us \<longrightarrow>
          (\<forall>i \<in> set ?dn. covered E sid us t i)"
        using t less.prems(8) covered_later [OF t(1)] by auto
      moreover have "info t = Some si" "no_nil (Cm t)" "mset (m3uIndexes t) = mset ixs"
        using t(1) less.prems by (simp_all add: later_def)
      ultimately show ?thesis
        using less.hyps [OF d1(3), of t] less.prems(2,4) d1(1,2) later_trans [OF t(1)] by blast
    qed
    show ?thesis
    proof (cases "map_of us ?i")
      case None
      then have "?C ?s ?i" by (simp add: covered_def)
      from next_ok [OF l1 this] None show ?thesis unfolding step by simp
    next
      case (Some urls)
      obtain r s2 where 2: "tryStreamUrls E mthd sid ?i urls ?s = Ok (r, s2)" "later E sid ?s s2"
        "\<forall>res. r = Inr res \<longrightarrow> from_url E mthd ?i urls res \<and> \<not> never_ok E"
        "\<forall>e. r = Inl e \<longrightarrow> e \<noteq> Canceled \<and> (quiet E \<longrightarrow> has_client E \<longrightarrow> slice_sorter (sort_subs E) \<longrightarrow>
          distinct (map fst urls) \<longrightarrow> (\<forall>k \<in> fst ` set urls. is_tested sid (url_id ?i k) s2 \<or> at_limit E s2 ?i))"
        using tryStreamUrls_facts [OF s1(2)] by blast
      have l2: "later E sid s s2" using later_trans [OF l1 2(2)] .
      show ?thesis
      proof (cases r)
        case (Inr res)
        have "from_source E mthd ixs us res \<and> \<not> never_ok E"
          using 2(3) Inr Some i(1) by (auto simp: from_source_def from_url_def)
        with Inr Some 2(1) l2 show ?thesis unfolding step by (simp add: lap_result_def)
      next
        case (Inl e)
        let ?t = "pass_time E s2"
        have l3: "later E sid s ?t" using later_trans [OF l2 later_pass_time] .
        have "?C s2 ?i"
          using 2(4) Inl Some by (auto simp: covered_def tidy_def)
        then have "?C ?t ?i" using covered_later [OF later_pass_time] by blast
        with next_ok [OF l3 this] Inl Some 2(1) l3 show ?thesis
          unfolding step by (auto simp: look_def lap_result_def)
      qed
    qed
  qed
qed

lemma tryAllStreams_facts:
  assumes "slice_sorter (sort_indexes E)" "info s = Some si" "URLs si = Some us" "no_nil (Cm s)"
    "distinct (m3uIndexes s)"
  shows "\<exists>r s'. tryAllStreams E mthd sid s = Some (Ok (r, s')) \<and> later E sid s s'
    \<and> (case r of Inr res \<Rightarrow> from_source E mthd (m3uIndexes s) us res \<and> \<not> never_ok E
        | Inl e \<Rightarrow> e = Canceled \<longrightarrow> (\<exists>t. ctx_done E t))
    \<and> (has_provider E \<longrightarrow> m3uIndexes s \<noteq> [] \<longrightarrow> \<not> ctx_done E (clock s) \<longrightarrow>
        lap_result E mthd sid (m3uIndexes s) us r s')"
proof (cases "has_provider E \<and> m3uIndexes s \<noteq> [] \<and> \<not> ctx_done E (clock s)")
  case False
  then show ?thesis using later_pass_time by (auto simp: tryAllStreams_def look_def)
next
  case True
  let ?s = "pass_time E s"
  have l: "later E sid s ?s" by (rule later_pass_time)
  have i: "m3uIndexes ?s = m3uIndexes s" by (simp add: pass_time_def)
  obtain r s' where r: "try_indexes E mthd sid (length (m3uIndexes s)) [] ?s = Some (Ok (r, s'))"
    "later E sid ?s s'" "lap_result E mthd sid (m3uIndexes s) us r s'"
    using try_indexes_facts [OF assms(1), where s = ?s and ixs = "m3uIndexes s" and dn = "[]" and us = us
        and si = si and mthd = mthd and sid = sid] l i assms(2-5) by (auto simp: later_def)
  moreover have "tryAllStreams E mthd sid s = Some (Ok (r, s'))"
    using True r(1) i by (simp add: tryAllStreams_def look_def)
  moreover have "later E sid s s'" using later_trans [OF l r(2)] .
  moreover have "case r of Inr res \<Rightarrow> from_source E mthd (m3uIndexes s) us res \<and> \<not> never_ok E
        | Inl e \<Rightarrow> e = Canceled \<longrightarrow> (\<exists>t. ctx_done E t)"
    using r(3) by (simp add: lap_result_def split: sum.splits)
  ultimately show ?thesis by blast
qed

text \<open>A lap over distinct indexes always ends, and what it returns is sound: a response with status
  200, given by the source for the URL that the channel has under the returned index and
  sub-index; it reports a cancellation only when the context is done.\<close>

theorem lap_ends_with_sound_result:
  assumes "slice_sorter (sort_indexes E)" "info s = Some si" "URLs si = Some us" "no_nil (Cm s)"
    "distinct (m3uIndexes s)"
  shows "\<exists>r s'. tryAllStreams E mthd sid s = Some (Ok (r, s'))
    \<and> (case r of
         Inr res \<Rightarrow> lbIndex res \<in> set (m3uIndexes s) \<and> StatusCode (lbResponse res) = 200
           \<and> (\<exists>urls content t. map_of us (lbIndex res) = Some urls \<and> map_of urls (lbSubIndex res) = Some content
                \<and> lbURL res = url_of content \<and> answer E t mthd (lbURL res) = HttpOk (lbResponse res))
       | Inl e \<Rightarrow> e = Canceled \<longrightarrow> (\<exists>t. ctx_done E t))"
  using tryAllStreams_facts [OF assms, of mthd sid]
  by (fastforce simp: from_source_def from_url_def split: sum.splits)

theorem lap_ends_with_sound_result_witness:
  "\<exists>r s'. tryAllStreams sample_env ''GET'' ''slug'' sample_state = Some (Ok (r, s'))
    \<and> (case r of
         Inr res \<Rightarrow> lbIndex res \<in> set (m3uIndexes sample_state) \<and> StatusCode (lbResponse res) = 200
           \<and> (\<exists>urls content t. map_of (the (URLs sample_info)) (lbIndex res) = Some urls
                \<and> map_of urls (lbSubIndex res) = Some content
                \<and> lbURL res = url_of content \<and> answer sample_env t ''GET'' (lbURL res) = HttpOk (lbResponse res))
       | Inl e \<Rightarrow> e = Canceled \<longrightarrow> (\<exists>t. ctx_done sample_env t))"
  by (rule lap_ends_with_sound_result [OF sample_env_facts(1) _ _ sample_env_facts(5), where si = sample_info])
    (simp_all add: sample_state_def sample_info_def)

lemma failed_lap_covers:
  assumes "slice_sorter (sort_indexes E)" "slice_sorter (sort_subs E)" "has_client E" "has_provider E"
    "\<forall>t. others E t = []"
    and "info s = Some si" "URLs si = Some us" "\<forall>i urls. map_of us i = Some urls \<longrightarrow> distinct (map fst urls)"
    and "no_nil (Cm s)" "distinct (m3uIndexes s)" "m3uIndexes s \<noteq> []" "\<not> ctx_done E (clock s)"
    and "tryAllStreams E mthd sid s = Some (Ok (Inl e, s'))" "e \<noteq> Canceled"
    and "i \<in> set (m3uIndexes s)" "map_of us i = Some urls" "k \<in> fst ` set urls"
  shows "is_tested sid (url_id i k) s' \<or> at_limit E s i"
proof -
  have q: "quiet E" "tidy us" using assms(5,8) by (simp_all add: quiet_def tidy_def)
  have "lap_result E mthd sid (m3uIndexes s) us (Inl e) s' \<and> later E sid s s'"
    using tryAllStreams_facts [OF assms(1,6,7,9,10), of mthd sid] assms(4,11-13) by auto
  then have "covered E sid us s' i" "at_limit E s' = at_limit E s"
    using assms(2,3,14,15) q by (auto simp: lap_result_def later_def)
  then show ?thesis using assms(16,17) unfolding covered_def by metis
qed

text \<open>C14. No URL is forgotten: when a lap fails without being cancelled, and no other request changes
  the counts meanwhile, every URL of every index was tested in this lap (or before, since the
  last clearing) or belongs to an index that is at its limit.\<close>

theorem failed_lap_tried_every_url:
  assumes "slice_sorter (sort_indexes E)" "slice_sorter (sort_subs E)" "has_client E" "has_provider E"
    "\<forall>t. others E t = []"
    and "info s = Some si" "URLs si = Some us" "\<forall>i urls. map_of us i = Some urls \<longrightarrow> distinct (map fst urls)"
    and "no_nil (Cm s)" "distinct (m3uIndexes s)" "m3uIndexes s \<noteq> []" "\<not> ctx_done E (clock s)"
    and "tryAllStreams E mthd sid s = Some (Ok (Inl e, s'))" "e \<noteq> Canceled"
    and "i \<in> set (m3uIndexes s)" "map_of us i = Some urls" "k \<in> fst ` set urls"
  shows "is_tested sid (url_id i k) s' \<or> at_limit E s i"
  by (rule failed_lap_covers [OF assms])

section \<open>A source that answers is found\<close>

definition healthy :: "lb_env \<Rightarrow> string \<Rightarrow> string \<Rightarrow> bool" where
  "healthy E mthd url \<longleftrightarrow> request_ok E mthd url
     \<and> (\<forall>t. case answer E t mthd url of HttpOk resp \<Rightarrow> StatusCode resp = 200 | _ \<Rightarrow> False)"

text \<open>Two URLs share their mark only when an index has a bar in it.\<close>

lemma url_id_inj:
  assumes "CHR ''|'' \<notin> set a" "CHR ''|'' \<notin> set b" "url_id a x = url_id b y"
  shows "a = b \<and> x = y"
proof -
  have t: "takeWhile (\<lambda>c. c \<noteq> CHR ''|'') (url_id c z) = c" if "CHR ''|'' \<notin> set c" for c z
    using that by (auto simp: url_id_def takeWhile_append)
  from t [OF assms(1), of x] t [OF assms(2), of y] assms(3) have "a = b" by simp
  with assms(3) show ?thesis by (simp add: url_id_def)
qed

lemma tested_pass_time [simp]: "is_tested sid i (pass_time E s) = is_tested sid i s"
  by (simp add: is_tested_def pass_time_def)

lemma tested_cm [simp]: "is_tested sid i (s\<lparr>Cm := cm\<rparr>) = is_tested sid i s"
  by (simp add: is_tested_def)

lemma tested_mark: "is_tested sid i (markTested sid j s) \<longleftrightarrow> i = j \<or> is_tested sid i s"
  by (auto simp: is_tested_def markTested_def split: option.splits)

lemma tested_fill [simp]: "is_tested sid i (fill_cache E ks s) = is_tested sid i s"
  by (simp add: is_tested_def)

text \<open>A try that yields nothing marks the URL it tried, unless that one is healthy.\<close>

lemma try_url_marks:
  assumes "try_url E mthd sid index urls sub s = Ok (None, s')" "\<not> is_tested sid j s"
    and "\<And>c. map_of urls sub = Some c \<Longrightarrow> url_id index sub = j \<Longrightarrow> healthy E mthd (url_of c)"
  shows "\<not> is_tested sid j s'"
proof (cases "map_of urls sub")
  case None
  with assms show ?thesis by (simp add: try_url_def)
next
  case (Some c)
  show ?thesis
  proof (cases "url_id index sub = j")
    case True
    then have "healthy E mthd (url_of c)" using assms(3) Some by simp
    with assms(1,2) Some True show ?thesis
      by (auto simp: try_url_def Let_def healthy_def panic_simps split: if_splits http_result.splits)
  next
    case False
    with assms(1,2) Some show ?thesis
      by (auto simp: try_url_def Let_def tested_mark panic_simps split: if_splits http_result.splits)
  qed
qed

lemma try_urls_marks:
  assumes "\<And>sub c. map_of urls sub = Some c \<Longrightarrow> url_id index sub = j \<Longrightarrow> healthy E mthd (url_of c)"
  shows "try_urls E mthd sid index urls ks s = Ok (None, s') \<Longrightarrow> \<not> is_tested sid j s \<Longrightarrow> \<not> is_tested sid j s'"
proof (induction ks arbitrary: s)
  case (Cons k ks)
  from Cons.prems(1) obtain r s1 where 1: "try_url E mthd sid index urls k s = Ok (r, s1)"
    "(case r of Some res \<Rightarrow> Ok (Some res, s1) | None \<Rightarrow> try_urls E mthd sid index urls ks s1) = Ok (None, s')"
    by (auto simp: panic_simps)
  then have r: "r = None" by (cases r) auto
  with try_url_marks [OF 1(1) [unfolded r] Cons.prems(2)] assms Cons.IH 1(2) show ?case by simp
qed simp

lemma tryStreamUrls_marks:
  assumes "\<And>sub c. map_of urls sub = Some c \<Longrightarrow> url_id index sub = j \<Longrightarrow> healthy E mthd (url_of c)"
    and "tryStreamUrls E mthd sid index urls s = Ok (Inl e, s')" "\<not> is_tested sid j s"
  shows "\<not> is_tested sid j s'"
  using assms(2,3) try_urls_marks [OF assms(1)]
  by (auto simp: tryStreamUrls_def panic_simps split: if_splits option.splits)

text \<open>The URL \<open>c\<close> of an index and a sub-index is healthy, and the names of the indexes have no bar.\<close>

definition has_healthy :: "lb_env \<Rightarrow> string \<Rightarrow> (string \<times> url_map) list \<Rightarrow> string \<Rightarrow> string \<Rightarrow> bool" where
  "has_healthy E mthd us i k \<longleftrightarrow> CHR ''|'' \<notin> set i \<and> (\<exists>urls c. map_of us i = Some urls \<and> map_of urls k = Some c
     \<and> healthy E mthd (url_of c))"

lemma try_indexes_marks:
  assumes srt: "slice_sorter (sort_indexes E)" and h: "has_healthy E mthd us i k" and us: "URLs si = Some us"
    and "try_indexes E mthd sid n dn s = Some (Ok (Inl e, s'))"
    and "info s = Some si" "no_nil (Cm s)" "\<forall>a \<in> set (m3uIndexes s). CHR ''|'' \<notin> set a"
    and "\<not> is_tested sid (url_id i k) s"
  shows "\<not> is_tested sid (url_id i k) s'"
proof -
  let ?P = "\<lambda>E' m x (n :: nat) (dn :: string list) s y. E' = E \<longrightarrow> m = mthd \<longrightarrow> (\<forall>e s'. y = Ok (Inl e, s') \<longrightarrow>
      info s = Some si \<longrightarrow> no_nil (Cm s) \<longrightarrow> (\<forall>a \<in> set (m3uIndexes s). CHR ''|'' \<notin> set a) \<longrightarrow>
      \<not> is_tested x (url_id i k) s \<longrightarrow> \<not> is_tested x (url_id i k) s')"
  have "?P E' m x n dn s y" if run: "try_indexes E' m x n dn s = Some y" for E' m x n dn s y
  proof (rule try_indexes.raw_induct [where P = ?P, OF _ run], goal_cases)
    case (1 self E' m x n dn s y)
    note hyp = 1(1) and eq = 1(2)
    show ?case
    proof (intro impI allI)
      fix e s'
      assume e: "E' = E" "m = mthd" and y: "y = Ok (Inl e, s')" and si: "info s = Some si" and nn: "no_nil (Cm s)"
        and bars: "\<forall>a \<in> set (m3uIndexes s). CHR ''|'' \<notin> set a" and new: "\<not> is_tested x (url_id i k) s"
      let ?xs = "sort_indexes E (\<lambda>a b. priority E s a > priority E s b) (m3uIndexes s)"
      let ?i = "pick dn ?xs" let ?dn = "List.insert ?i dn"
      let ?s = "fill_cache E (?xs @ [?i]) (s\<lparr>m3uIndexes := ?xs\<rparr>)"
      have sx: "set ?xs = set (m3uIndexes s)" by (rule slice_sorter.set_srt [OF srt])
      have ib: "CHR ''|'' \<notin> set ?i" using sx bars by (auto simp: pick_def find_Some_iff2 split: option.split)
      have l: "later E x s ?s"
        using later_trans [OF later_indexes later_fill] slice_sorter.mset_srt [OF srt] by blast
      have next_ok: "\<not> is_tested x (url_id i k) s'" if t: "later E x s t" "\<not> is_tested x (url_id i k) t"
          and run: "self E mthd x n ?dn t = Some y" for t
        using hyp [OF run] t y si nn bars mset_eq_setD [of "m3uIndexes t" "m3uIndexes s"] by (simp add: later_def)
      have new1: "\<not> is_tested x (url_id i k) ?s" using new by (simp add: is_tested_def)
      show "\<not> is_tested x (url_id i k) s'"
      proof (cases "length dn < n \<and> map_of us ?i \<noteq> None")
        case False
        with eq y new new1 si us next_ok [OF l] e show ?thesis
          by (auto simp: Let_def split: if_splits)
      next
        case True
        then obtain urls where urls: "map_of us ?i = Some urls" by blast
        have "no_nil (Cm ?s)" using l nn by (simp add: later_def)
        then obtain r s2 where 2: "tryStreamUrls E mthd x ?i urls ?s = Ok (r, s2)" "later E x ?s s2"
          using tryStreamUrls_facts [of ?s E mthd x ?i urls] by blast
        have m: "healthy E mthd (url_of c)" if "map_of urls sub = Some c" "url_id ?i sub = url_id i k" for sub c
          using url_id_inj [OF ib _ that(2)] that(1) urls h by (auto simp: has_healthy_def)
        have "\<not> is_tested x (url_id i k) s2" if r: "r = Inl e'" for e'
          by (rule tryStreamUrls_marks [OF m 2(1) [unfolded r] new1])
        with eq y True urls si us 2(1) next_ok [OF later_trans [OF later_trans [OF l 2(2)] later_pass_time]] e
        show ?thesis by (auto simp: Let_def look_def split: if_splits sum.splits)
      qed
    qed
  qed
  from this [OF assms(4)] assms(5-8) show ?thesis by blast
qed

section \<open>Retries\<close>

definition lap_ready :: "lb_state \<Rightarrow> bool" where
  "lap_ready s \<longleftrightarrow> (\<exists>si us. info s = Some si \<and> URLs si = Some us) \<and> no_nil (Cm s) \<and> distinct (m3uIndexes s)"

lemma lap_ready_later: "later E sid s s' \<Longrightarrow> lap_ready s \<Longrightarrow> lap_ready s'"
  unfolding later_def lap_ready_def by (metis mset_eq_imp_distinct_iff)

lemma lap_ready_clear: "lap_ready (clearTested sid s) = lap_ready s"
  by (simp add: lap_ready_def clearTested_def)

lemma failing_lap:
  assumes "slice_sorter (sort_indexes E)" "never_ok E" "\<forall>t. \<not> ctx_done E t" "lap_ready s"
  obtains e s1 where "tryAllStreams E mthd sid s = Some (Ok (Inl e, s1))" "e \<noteq> Canceled" "lap_ready s1"
proof -
  obtain si us where s: "info s = Some si" "URLs si = Some us" "no_nil (Cm s)" "distinct (m3uIndexes s)"
    using assms(4) by (auto simp: lap_ready_def)
  obtain r s1 where r: "tryAllStreams E mthd sid s = Some (Ok (r, s1))" "later E sid s s1"
    "case r of Inr res \<Rightarrow> from_source E mthd (m3uIndexes s) us res \<and> \<not> never_ok E
        | Inl e \<Rightarrow> e = Canceled \<longrightarrow> (\<exists>t. ctx_done E t)"
    using tryAllStreams_facts [OF assms(1) s, of mthd sid] by auto
  then obtain e where "r = Inl e" "e \<noteq> Canceled" using assms(2,3) by (cases r) auto
  with r that lap_ready_later [OF r(2) assms(4)] show thesis by blast
qed

text \<open>A lap that failed without being cancelled, with what \<open>Balance\<close> does before the next one.\<close>

definition failed_lap :: "lb_env \<Rightarrow> string \<Rightarrow> string \<Rightarrow> lb_state \<Rightarrow> lb_state \<Rightarrow> bool" where
  "failed_lap E mthd sid s s2 \<longleftrightarrow> (\<exists>e s1. tryAllStreams E mthd sid s = Some (Ok (Inl e, s1)) \<and> e \<noteq> Canceled
     \<and> s2 = pass_time E (clearTested sid s1))"

lemma failing_step:
  assumes "slice_sorter (sort_indexes E)" "never_ok E" "\<forall>t. \<not> ctx_done E t" "lap_ready s"
    "lap < MaxRetries (lb_config E) \<or> MaxRetries (lb_config E) = 0"
  obtains s2 where "failed_lap E mthd sid s s2" "lap_ready s2"
    "laps E mthd sid lap s = laps E mthd sid (int64 (lap + 1)) s2"
proof -
  obtain e s1 where 1: "tryAllStreams E mthd sid s = Some (Ok (Inl e, s1))" "e \<noteq> Canceled" "lap_ready s1"
    by (rule failing_lap [OF assms(1-4)])
  let ?s2 = "pass_time E (clearTested sid s1)"
  have "laps E mthd sid lap s = laps E mthd sid (int64 (lap + 1)) ?s2"
    using 1(1,2) assms(3,5) by (subst laps.simps) (auto simp: look_def)
  moreover have "lap_ready ?s2"
    using lap_ready_later [OF later_pass_time] 1(3) by (simp add: lap_ready_clear)
  moreover have "failed_lap E mthd sid s ?s2" using 1 by (auto simp: failed_lap_def)
  ultimately show thesis using that by blast
qed

lemma laps_exhausted:
  assumes "slice_sorter (sort_indexes E)" "never_ok E" "\<forall>t. \<not> ctx_done E t"
    "0 < MaxRetries (lb_config E)" "MaxRetries (lb_config E) < 9223372036854775808"
  shows "lap_ready s \<Longrightarrow> 0 \<le> lap \<Longrightarrow> lap + int n = MaxRetries (lb_config E) \<Longrightarrow>
    \<exists>s'. (failed_lap E mthd sid ^^ n) s s' \<and>
      laps E mthd sid lap s = Some (Ok (Inl (Errorf ''error fetching stream: exhausted all streams''), s'))"
proof (induction n arbitrary: lap s)
  case 0
  then show ?case using assms(4) by (subst laps.simps) simp
next
  case (Suc n)
  have "lap < MaxRetries (lb_config E) \<or> MaxRetries (lb_config E) = 0" using Suc.prems(3) by simp
  from failing_step [OF assms(1-3) Suc.prems(1) this]
  obtain s2 where s2: "failed_lap E mthd sid s s2" "lap_ready s2"
    "laps E mthd sid lap s = laps E mthd sid (int64 (lap + 1)) s2" by blast
  have i: "int64 (lap + 1) = lap + 1" using Suc.prems(2,3) assms(5) by (intro int64_id) simp_all
  have "\<exists>s'. (failed_lap E mthd sid ^^ n) s2 s' \<and>
      laps E mthd sid (lap + 1) s2 = Some (Ok (Inl (Errorf ''error fetching stream: exhausted all streams''), s'))"
    by (rule Suc.IH) (use s2(2) Suc.prems(2,3) in simp_all)
  with s2(3) i relpowp_Suc_I2 [of "failed_lap E mthd sid", OF s2(1)] show ?case by auto
qed

lemma laps_endless:
  assumes "slice_sorter (sort_indexes E)" "never_ok E" "\<forall>t. \<not> ctx_done E t" "MaxRetries (lb_config E) = 0"
  shows "lap_ready s \<Longrightarrow> laps E mthd sid lap s = None"
proof -
  have "E' = E \<longrightarrow> lap_ready s \<longrightarrow> False" if y: "laps E' m x lap s = Some y" for E' m x lap s y
  proof (rule laps.raw_induct [where P = "\<lambda>E' m x lap s y. E' = E \<longrightarrow> lap_ready s \<longrightarrow> False", OF _ y], goal_cases)
    case (1 self E' m x lap s y)
    note hyp = 1(1) and eq = 1(2)
    show ?case
    proof (intro impI)
      assume e: "E' = E" and r: "lap_ready s"
      obtain e1 s1 where f: "tryAllStreams E m x s = Some (Ok (Inl e1, s1))" "e1 \<noteq> Canceled" "lap_ready s1"
        by (rule failing_lap [OF assms(1-3) r])
      have "self E m x (int64 (lap + 1)) (pass_time E (clearTested x s1)) = Some y"
        using eq f(1,2) assms(3,4) e by (simp add: look_def)
      from hyp [OF this] show False
        using lap_ready_later [OF later_pass_time] f(3) by (simp add: lap_ready_clear)
    qed
  qed
  then show "lap_ready s \<Longrightarrow> laps E mthd sid lap s = None" by (metis option.exhaust)
qed

lemma healthy_lap:
  assumes srt: "slice_sorter (sort_indexes E)" "slice_sorter (sort_subs E)" and "has_client E" "has_provider E"
    and "\<forall>t. others E t = []" "\<forall>t. \<not> ctx_done E t"
    and s: "info s = Some si" "URLs si = Some us" "tidy us" "no_nil (Cm s)" "distinct (m3uIndexes s)"
    and i: "i \<in> set (m3uIndexes s)" "\<forall>a \<in> set (m3uIndexes s). CHR ''|'' \<notin> set a" "has_healthy E mthd us i k"
    and free: "\<not> at_limit E s i" "\<not> is_tested sid (url_id i k) s"
  shows "\<exists>res s'. tryAllStreams E mthd sid s = Some (Ok (Inr res, s'))"
proof (rule ccontr)
  assume no: "\<not> ?thesis"
  have ne: "m3uIndexes s \<noteq> []" using i(1) by auto
  obtain r s' where r: "tryAllStreams E mthd sid s = Some (Ok (r, s'))"
    "case r of Inr res \<Rightarrow> from_source E mthd (m3uIndexes s) us res \<and> \<not> never_ok E
        | Inl e \<Rightarrow> e = Canceled \<longrightarrow> (\<exists>t. ctx_done E t)"
    using tryAllStreams_facts [OF srt(1) s(1,2,4,5), of mthd sid] by blast
  with no assms(6) obtain e where e: "r = Inl e" "e \<noteq> Canceled" by (cases r) auto
  obtain urls c where urls: "map_of us i = Some urls" "map_of urls k = Some c" using i(3) by (auto simp: has_healthy_def)
  then have "k \<in> fst ` set urls" by (metis map_of_eq_None_iff option.distinct(1))
  from failed_lap_covers [OF srt assms(3-5) s(1,2) _ s(4,5) ne _ r(1) [unfolded e] e(2) i(1) urls(1) this]
  have tested: "is_tested sid (url_id i k) s'" using assms(6) s(3) free(1) by (simp add: tidy_def)
  have "try_indexes E mthd sid (length (m3uIndexes s)) [] (pass_time E s) = Some (Ok (Inl e, s'))"
    using r(1) e(1) assms(4,6) ne by (simp add: tryAllStreams_def look_def pass_time_def)
  moreover have "info (pass_time E s) = info s" "no_nil (Cm (pass_time E s))" "m3uIndexes (pass_time E s) = m3uIndexes s"
    using s(4) later_pass_time [of E sid s] by (simp_all add: later_def) (simp add: pass_time_def)
  ultimately have "\<not> is_tested sid (url_id i k) s'"
    using try_indexes_marks [OF srt(1) i(3) s(2)] s(1) i(2) free(2) by (metis tested_pass_time)
  with tested show False by simp
qed

lemma Balance_finds:
  assumes "slice_sorter (sort_indexes E)" "slice_sorter (sort_subs E)" "has_client E" "has_provider E"
    and "\<forall>t. others E t = []" "\<forall>t. \<not> ctx_done E t" "0 \<le> MaxRetries (lb_config E)"
    and "Method rq \<noteq> []" "URLPath rq = Some p"
    and "parse_slug E (GetStreamId p) = Inr stream" "URLs stream = Some us" "tidy us" "no_nil (Cm s)" "distinct (m3uIndexes s)"
    and "i \<in> set (m3uIndexes s)" "\<forall>a \<in> set (m3uIndexes s). CHR ''|'' \<notin> set a" "has_healthy E (Method rq) us i k"
    and "\<not> at_limit E s i" "testedIndexes s (GetStreamId p) = None"
  shows "\<exists>res s'. Balance E True (Some rq) s = Some (Ok (Inr res, s'))"
proof -
  let ?s = "s\<lparr>info := Some (stream\<lparr>URLs := Some us\<rparr>)\<rparr>"
  obtain urls c where "map_of us i = Some urls" "map_of urls k = Some c" using assms(17) by (auto simp: has_healthy_def)
  then have "(i, urls) \<in> set us" "urls \<noteq> []" by (auto dest: map_of_SomeD)
  then have "us \<noteq> []" "\<exists>u \<in> set us. snd u \<noteq> []" by force+
  then have f: "fetchBackendUrls E (GetStreamId p) s = (None, ?s)"
    using assms(10,11) by (simp add: fetchBackendUrls_def)
  have l: "\<not> at_limit E ?s i" "\<not> is_tested (GetStreamId p) (url_id i k) ?s"
    using assms(18,19) by (simp_all add: at_limit_def is_tested_def)
  obtain res s' where lap: "tryAllStreams E (Method rq) (GetStreamId p) ?s = Some (Ok (Inr res, s'))"
    using healthy_lap [OF assms(1-6), of ?s "stream\<lparr>URLs := Some us\<rparr>" us i "Method rq" k "GetStreamId p"] assms(12-17) l
    by auto
  have "0 < MaxRetries (lb_config E) \<or> MaxRetries (lb_config E) = 0" using assms(7) by linarith
  then have "laps E (Method rq) (GetStreamId p) 0 ?s = Some (Ok (Inr res, s'))"
    using lap by (subst laps.simps) auto
  with f assms(8,9) show ?thesis by (simp add: Balance_def)
qed

text \<open>The index whose response a lap returns: none of those that would answer has more free connections.\<close>

lemma try_indexes_freest:
  assumes srt: "slice_sorter (sort_indexes E)" "slice_sorter (sort_subs E)" and "has_client E" and q: "quiet E"
    and h: "has_healthy E mthd us i k" and us: "URLs si = Some us" "tidy us"
    and "try_indexes E mthd sid n dn s = Some (Ok (Inr res, s'))"
    and "info s = Some si" "no_nil (Cm s)" "\<forall>a \<in> set (m3uIndexes s). CHR ''|'' \<notin> set a"
    and "\<not> is_tested sid (url_id i k) s" "i \<in> set (m3uIndexes s) - set dn" "\<not> at_limit E s i"
  shows "free_of E s i \<le> free_of E s (lbIndex res)"
proof -
  let ?P = "\<lambda>E' m x (n :: nat) (dn :: string list) s y. E' = E \<longrightarrow> m = mthd \<longrightarrow> (\<forall>res s'. y = Ok (Inr res, s') \<longrightarrow>
      info s = Some si \<longrightarrow> no_nil (Cm s) \<longrightarrow> (\<forall>a \<in> set (m3uIndexes s). CHR ''|'' \<notin> set a) \<longrightarrow>
      \<not> is_tested x (url_id i k) s \<longrightarrow> i \<in> set (m3uIndexes s) - set dn \<longrightarrow> \<not> at_limit E s i \<longrightarrow>
      free_of E s i \<le> free_of E s (lbIndex res))"
  have "?P E' m x n dn s y" if run: "try_indexes E' m x n dn s = Some y" for E' m x n dn s y
  proof (rule try_indexes.raw_induct [where P = ?P, OF _ run], goal_cases)
    case (1 self E' m x n dn s y)
    note hyp = 1(1) and eq = 1(2)
    show ?case
    proof (intro impI allI)
      fix res s'
      assume e: "E' = E" "m = mthd" and y: "y = Ok (Inr res, s')" and si: "info s = Some si" and nn: "no_nil (Cm s)"
        and bars: "\<forall>a \<in> set (m3uIndexes s). CHR ''|'' \<notin> set a" and new: "\<not> is_tested x (url_id i k) s"
        and i: "i \<in> set (m3uIndexes s) - set dn" and free: "\<not> at_limit E s i"
      let ?xs = "sort_indexes E (\<lambda>a b. priority E s a > priority E s b) (m3uIndexes s)"
      let ?i = "pick dn ?xs" let ?dn = "List.insert ?i dn"
      let ?s = "fill_cache E (?xs @ [?i]) (s\<lparr>m3uIndexes := ?xs\<rparr>)"
      have sx: "set ?xs = set (m3uIndexes s)" by (rule slice_sorter.set_srt [OF srt(1)])
      have most: "free_of E s i \<le> free_of E s ?i"
        using pick_freest [OF srt(1), of i s dn] i by (simp add: priority_free [OF nn])
      have ib: "CHR ''|'' \<notin> set ?i" using sx bars by (auto simp: pick_def find_Some_iff2 split: option.split)
      have l: "later E x s ?s"
        using later_trans [OF later_indexes later_fill] slice_sorter.mset_srt [OF srt(1)] by blast
      have next_ok: "free_of E s i \<le> free_of E s (lbIndex res)" if t: "later E x s t" "\<not> is_tested x (url_id i k) t"
          and ne: "?i \<noteq> i" and run: "self E mthd x n ?dn t = Some y" for t
        using hyp [OF run] t y si nn bars i free q ne mset_eq_setD [of "m3uIndexes t" "m3uIndexes s"]
        by (auto simp: later_def)
      have new1: "\<not> is_tested x (url_id i k) ?s" using new by (simp add: is_tested_def)
      have lt: "length dn < n" using eq y by (auto split: if_splits)
      show "free_of E s i \<le> free_of E s (lbIndex res)"
      proof (cases "map_of us ?i")
        case None
        then have ne: "?i \<noteq> i" using h by (auto simp: has_healthy_def)
        from None eq y si us lt e have "self E mthd x n ?dn ?s = Some y"
          by (simp add: Let_def split: if_splits)
        from next_ok [OF l new1 ne this] show ?thesis .
      next
        case (Some urls)
        have "no_nil (Cm ?s)" using l nn by (simp add: later_def)
        then obtain r s2 where 2: "tryStreamUrls E mthd x ?i urls ?s = Ok (r, s2)" "later E x ?s s2"
          "\<forall>res. r = Inr res \<longrightarrow> from_url E mthd ?i urls res \<and> \<not> never_ok E"
          "\<forall>e. r = Inl e \<longrightarrow> e \<noteq> Canceled \<and> (quiet E \<longrightarrow> has_client E \<longrightarrow> slice_sorter (sort_subs E) \<longrightarrow>
            distinct (map fst urls) \<longrightarrow> (\<forall>k \<in> fst ` set urls. is_tested x (url_id ?i k) s2 \<or> at_limit E s2 ?i))"
          using tryStreamUrls_facts [of ?s E mthd x ?i urls] by blast
        have l2: "later E x s s2" using later_trans [OF l 2(2)] .
        show ?thesis
        proof (cases r)
          case (Inr found)
          with eq y Some si us 2(1) lt e have "res = found" by (simp add: Let_def split: if_splits)
          with 2(3) Inr have "lbIndex res = ?i" by (simp add: from_url_def)
          with most show ?thesis by simp
        next
          case (Inl e')
          have m: "healthy E mthd (url_of c)" if "map_of urls sub = Some c" "url_id ?i sub = url_id i k" for sub c
            using url_id_inj [OF ib _ that(2)] that(1) Some h by (auto simp: has_healthy_def)
          have fresh: "\<not> is_tested x (url_id i k) s2"
            by (rule tryStreamUrls_marks [OF m 2(1) [unfolded Inl] new1])
          have ne: "?i \<noteq> i"
          proof
            assume ii: "?i = i"
            then obtain c where "map_of urls k = Some c" using h Some by (auto simp: has_healthy_def)
            then have "k \<in> fst ` set urls" by (metis map_of_eq_None_iff option.distinct(1))
            moreover have "distinct (map fst urls)" using us(2) Some by (simp add: tidy_def)
            moreover have "\<not> at_limit E s2 i" using l2 q free by (simp add: later_def)
            ultimately show False using 2(4) Inl fresh ii q srt(2) assms(3) by metis
          qed
          have "self E mthd x n ?dn (pass_time E s2) = Some y"
            using eq y Some si us 2(1) Inl lt e by (simp add: Let_def look_def split: if_splits)
          with next_ok [OF later_trans [OF l2 later_pass_time] _ ne] fresh show ?thesis by simp
        qed
      qed
    qed
  qed
  from this [OF assms(8)] assms(9-14) show ?thesis by blast
qed

lemma lap_freest:
  assumes "slice_sorter (sort_indexes E)" "slice_sorter (sort_subs E)" "has_client E" "has_provider E"
    and "quiet E" "\<forall>t. \<not> ctx_done E t"
    and s: "info s = Some si" "URLs si = Some us" "tidy us" "no_nil (Cm s)"
    and i: "i \<in> set (m3uIndexes s)" "\<forall>a \<in> set (m3uIndexes s). CHR ''|'' \<notin> set a" "has_healthy E mthd us i k"
    and free: "\<not> at_limit E s i" "\<not> is_tested sid (url_id i k) s"
    and lap: "tryAllStreams E mthd sid s = Some (Ok (Inr res, s'))"
  shows "free_of E s i \<le> free_of E s (lbIndex res)"
proof -
  let ?s = "pass_time E s"
  have ix: "m3uIndexes ?s = m3uIndexes s" by (simp add: pass_time_def)
  have l: "info ?s = info s" "no_nil (Cm ?s)" "at_limit E ?s = at_limit E s" "free_of E ?s = free_of E s"
    using later_pass_time [of E sid s] assms(5) s(4) by (simp_all add: later_def)
  have ne: "m3uIndexes s \<noteq> []" using i(1) by auto
  have run: "try_indexes E mthd sid (length (m3uIndexes s)) [] ?s = Some (Ok (Inr res, s'))"
    using lap assms(4,6) ne ix by (simp add: tryAllStreams_def look_def)
  have "free_of E ?s i \<le> free_of E ?s (lbIndex res)"
    by (rule try_indexes_freest [OF assms(1,2,3,5) i(3) s(2,3) run]) (use l ix s(1) i(1,2) free in simp_all)
  with l(4) show ?thesis by simp
qed

text \<open>C19. The source that is chosen has the most free connections: when a URL of the index \<open>i\<close> always
  answers with status 200, \<open>i\<close> has a free connection, and neither the client nor another request
  interferes, then the response that \<open>Balance\<close> returns comes from an index with at least as many free
  connections as \<open>i\<close>, by the limits the environment configures and the connections open at the start.\<close>

theorem chosen_source_has_most_free_connections:
  assumes "slice_sorter (sort_indexes E)" "slice_sorter (sort_subs E)" "has_client E" "has_provider E"
    and "\<forall>t. others E t = []" "\<forall>t. \<not> ctx_done E t" "0 \<le> MaxRetries (lb_config E)"
    and "Method rq \<noteq> []" "URLPath rq = Some p"
    and "parse_slug E (GetStreamId p) = Inr stream" "URLs stream = Some us"
    and "\<forall>i urls. map_of us i = Some urls \<longrightarrow> distinct (map fst urls)" "distinct (m3uIndexes s)"
    and "counted b (Cm s)" "cache_ok (lb_environ E) (Cm s)"
    and "i \<in> set (m3uIndexes s)" "\<forall>a \<in> set (m3uIndexes s). CHR ''|'' \<notin> set a"
    and "map_of us i = Some urls" "map_of urls k = Some c" "request_ok E (Method rq) (url_of c)"
    and "\<forall>t. \<exists>resp. answer E t (Method rq) (url_of c) = HttpOk resp \<and> StatusCode resp = 200"
    and "int (conn (Cm s) i) < configured_max (lb_environ E) i" "testedIndexes s (GetStreamId p) = None"
    and "Balance E True (Some rq) s = Some (Ok (Inr res, s'))"
  shows "int64 (configured_max (lb_environ E) i - int (conn (Cm s) i))
    \<le> int64 (configured_max (lb_environ E) (lbIndex res) - int (conn (Cm s) (lbIndex res)))"
proof -
  let ?s = "s\<lparr>info := Some (stream\<lparr>URLs := Some us\<rparr>)\<rparr>"
  have cn: "cnt (Cm s) j = int (conn (Cm s) j)" for j
    using counted_lookup [OF assms(14), of j] by (auto simp: cnt_def)
  have mx: "fst (getMaxConcurrency (lb_environ E) j (Cm s)) = configured_max (lb_environ E) j" for j
    by (rule getMax_value [OF assms(15)])
  have nn: "no_nil (Cm ?s)" using assms(14) by (auto simp: no_nil_def counted_def)
  have fr: "free_of E ?s j = int64 (configured_max (lb_environ E) j - int (conn (Cm s) j))" for j
    by (simp add: free_of_def cn mx)
  have "case answer E t (Method rq) (url_of c) of HttpOk resp \<Rightarrow> StatusCode resp = 200 | _ \<Rightarrow> False" for t
    using assms(21) by (auto dest: spec [of _ t])
  then have hh: "has_healthy E (Method rq) us i k"
    using assms(16-20) by (auto simp: has_healthy_def healthy_def)
  have t: "tidy us" using assms(12) by (simp add: tidy_def)
  have fl: "\<not> at_limit E ?s i" "\<not> is_tested (GetStreamId p) (url_id i k) ?s"
    using assms(22,23) by (simp_all add: at_limit_def cn mx is_tested_def)
  obtain res1 s1 where lap: "tryAllStreams E (Method rq) (GetStreamId p) ?s = Some (Ok (Inr res1, s1))"
    using healthy_lap [OF assms(1-6), of ?s "stream\<lparr>URLs := Some us\<rparr>" us i "Method rq" k "GetStreamId p"]
      t nn assms(13,16,17) hh fl by auto
  have "(i, urls) \<in> set us" "urls \<noteq> []" using assms(18,19) by (auto dest: map_of_SomeD)
  then have "us \<noteq> []" "\<exists>u \<in> set us. snd u \<noteq> []" by force+
  then have f: "fetchBackendUrls E (GetStreamId p) s = (None, ?s)"
    using assms(10,11) by (simp add: fetchBackendUrls_def)
  have "0 < MaxRetries (lb_config E) \<or> MaxRetries (lb_config E) = 0" using assms(7) by linarith
  then have "laps E (Method rq) (GetStreamId p) 0 ?s = Some (Ok (Inr res1, s1))"
    using lap by (subst laps.simps) auto
  with f assms(8,9,24) have res: "res1 = res" by (simp add: Balance_def)
  have q: "quiet E" using assms(5) by (simp add: quiet_def)
  have "free_of E ?s i \<le> free_of E ?s (lbIndex res)"
    using lap_freest [OF assms(1-4) q assms(6) _ _ t nn _ _ hh fl lap, of "stream\<lparr>URLs := Some us\<rparr>"] assms(16,17) res by simp
  then show ?thesis unfolding fr .
qed

text \<open>C13. A source that answers is found: when one URL of the channel always answers with status 200, its
  index has a free connection, and neither the client nor another request interferes, \<open>Balance\<close>
  returns a response, whatever the other sources do.\<close>

theorem answering_source_is_found:
  assumes "slice_sorter (sort_indexes E)" "slice_sorter (sort_subs E)" "has_client E" "has_provider E"
    and "\<forall>t. others E t = []" "\<forall>t. \<not> ctx_done E t" "0 \<le> MaxRetries (lb_config E)"
    and "Method rq \<noteq> []" "URLPath rq = Some p"
    and "parse_slug E (GetStreamId p) = Inr stream" "URLs stream = Some us"
    and "\<forall>i urls. map_of us i = Some urls \<longrightarrow> distinct (map fst urls)" "no_nil (Cm s)" "distinct (m3uIndexes s)"
    and "i \<in> set (m3uIndexes s)" "\<forall>a \<in> set (m3uIndexes s). CHR ''|'' \<notin> set a"
    and "map_of us i = Some urls" "map_of urls k = Some c" "request_ok E (Method rq) (url_of c)"
    and "\<forall>t. \<exists>resp. answer E t (Method rq) (url_of c) = HttpOk resp \<and> StatusCode resp = 200"
    and "\<not> at_limit E s i" "testedIndexes s (GetStreamId p) = None"
  shows "\<exists>res s'. Balance E True (Some rq) s = Some (Ok (Inr res, s'))"
proof -
  have "case answer E t (Method rq) (url_of c) of HttpOk resp \<Rightarrow> StatusCode resp = 200 | _ \<Rightarrow> False" for t
    using assms(20) by (auto dest: spec [of _ t])
  then have "has_healthy E (Method rq) us i k"
    using assms(15-19) by (auto simp: has_healthy_def healthy_def)
  moreover have "tidy us" using assms(12) by (simp add: tidy_def)
  ultimately show ?thesis by (intro Balance_finds [OF assms(1-11) _ assms(13-16) _ assms(21,22)])
qed

text \<open>The first source of the sample never answers, the second does.\<close>

definition one_answers :: lb_env where
  "one_answers = sample_env\<lparr>parse_slug := \<lambda>_. Inr sample_info, answer := \<lambda>t m u. if u = ''http://h/b''
     then HttpOk \<lparr>StatusCode = 200, RespHeader = [], RequestPath = Some ''/b'', RequestURL = u\<rparr> else HttpErr\<rparr>"

lemma sample_free: "\<not> at_limit one_answers sample_state i"
  by (simp add: at_limit_def cnt_def sample_state_def NewConcurrencyManager_def getMaxConcurrency_def split_beta Let_def)

theorem answering_source_is_found_witness:
  "\<exists>res s'. Balance one_answers True (Some \<lparr>Method = ''GET'', URLPath = Some ''/p/slug''\<rparr>) sample_state
    = Some (Ok (Inr res, s'))"
proof (rule answering_source_is_found)
  show "slice_sorter (sort_indexes one_answers)" "slice_sorter (sort_subs one_answers)"
    using sample_env_facts(1,2) by (simp_all add: one_answers_def)
  show "no_nil (Cm sample_state)" by (rule sample_env_facts)
  show "\<not> at_limit one_answers sample_state ''2''" by (rule sample_free)
  show "\<forall>i urls. map_of (the (URLs sample_info)) i = Some urls \<longrightarrow> distinct (map fst urls)"
    by (simp add: sample_info_def)
  show "parse_slug one_answers (GetStreamId ''/p/slug'') = Inr sample_info" by (simp add: one_answers_def)
  show "URLs sample_info = Some (the (URLs sample_info))" by (simp add: sample_info_def)
  show "map_of (the (URLs sample_info)) ''2'' = Some [(''b'', ''4:::http://h/b'')]" by (simp add: sample_info_def)
  show "map_of [(''b'', ''4:::http://h/b'')] ''b'' = Some ''4:::http://h/b''" by simp
  have "url_of ''4:::http://h/b'' = ''http://h/b''" by code_simp
  then show "\<forall>t. \<exists>resp. answer one_answers t (Method \<lparr>Method = ''GET'', URLPath = Some ''/p/slug''\<rparr>) (url_of ''4:::http://h/b'')
      = HttpOk resp \<and> StatusCode resp = 200"
    by (simp add: one_answers_def)
qed (simp_all add: one_answers_def sample_env_def sample_state_def)

text \<open>Both sources answer, and the second one has two connections.\<close>

definition both_answer :: lb_env where
  "both_answer = sample_env\<lparr>parse_slug := \<lambda>_. Inr sample_info, answer := \<lambda>t m u.
     HttpOk \<lparr>StatusCode = 200, RespHeader = [], RequestPath = Some ''/b'', RequestURL = u\<rparr>\<rparr>"

theorem chosen_source_has_most_free_connections_witness:
  "\<exists>res s'. Balance both_answer True (Some \<lparr>Method = ''GET'', URLPath = Some ''/p/slug''\<rparr>) sample_state
      = Some (Ok (Inr res, s'))
    \<and> int64 (configured_max (lb_environ both_answer) ''2'' - int (conn (Cm sample_state) ''2''))
      \<le> int64 (configured_max (lb_environ both_answer) (lbIndex res) - int (conn (Cm sample_state) (lbIndex res)))"
proof -
  let ?us = "the (URLs sample_info)" let ?urls = "[(''b'', ''4:::http://h/b'')]" let ?c = "''4:::http://h/b''"
  let ?rq = "\<lparr>Method = ''GET'', URLPath = Some ''/p/slug''\<rparr>"
  have 1: "slice_sorter (sort_indexes both_answer)" "slice_sorter (sort_subs both_answer)"
    using sample_env_facts(1,2) by (simp_all add: both_answer_def)
  have 2: "has_client both_answer" "has_provider both_answer" "\<forall>t. others both_answer t = []" "\<forall>t. \<not> ctx_done both_answer t"
    "0 \<le> MaxRetries (lb_config both_answer)" by (simp_all add: both_answer_def sample_env_def)
  have 3: "Method ?rq \<noteq> []" "URLPath ?rq = Some ''/p/slug''" by simp_all
  have 4: "parse_slug both_answer (GetStreamId ''/p/slug'') = Inr sample_info" "URLs sample_info = Some ?us"
    by (simp_all add: both_answer_def sample_info_def)
  have 5: "\<forall>i urls. map_of ?us i = Some urls \<longrightarrow> distinct (map fst urls)" "distinct (m3uIndexes sample_state)"
    by (simp_all add: sample_info_def sample_state_def)
  have nn: "no_nil (Cm sample_state)" by (rule sample_env_facts)
  have 6: "cache_ok (lb_environ both_answer) (Cm sample_state)" using sample_env_facts(4) by (simp add: both_answer_def)
  have 7: "''2'' \<in> set (m3uIndexes sample_state)" "\<forall>a \<in> set (m3uIndexes sample_state). CHR ''|'' \<notin> set a"
    by (simp_all add: sample_state_def)
  have 8: "map_of ?us ''2'' = Some ?urls" "map_of ?urls ''b'' = Some ?c" "request_ok both_answer (Method ?rq) (url_of ?c)"
    by (simp_all add: sample_info_def both_answer_def sample_env_def)
  have 9: "\<forall>t. \<exists>resp. answer both_answer t (Method ?rq) (url_of ?c) = HttpOk resp \<and> StatusCode resp = 200"
    by (simp add: both_answer_def)
  have "0 < configured_max (lb_environ both_answer) ''2''" using configured_max_pos [of "lb_environ both_answer" "''2''"] by linarith
  then have 10: "int (conn (Cm sample_state) ''2'') < configured_max (lb_environ both_answer) ''2''"
    "testedIndexes sample_state (GetStreamId ''/p/slug'') = None"
    by (simp_all add: sample_state_def conn_New)
  have free: "\<not> at_limit both_answer sample_state ''2''"
    by (simp add: at_limit_def cnt_def sample_state_def NewConcurrencyManager_def getMaxConcurrency_def split_beta Let_def)
  have "case answer both_answer t (Method ?rq) (url_of ?c) of HttpOk resp \<Rightarrow> StatusCode resp = 200 | _ \<Rightarrow> False" for t
    by (simp add: both_answer_def)
  then have "has_healthy both_answer (Method ?rq) ?us ''2'' ''b''"
    using 8 by (auto simp: has_healthy_def healthy_def)
  moreover have "tidy ?us" using 5(1) by (simp add: tidy_def)
  ultimately obtain res s' where "Balance both_answer True (Some ?rq) sample_state = Some (Ok (Inr res, s'))"
    using Balance_finds [OF 1 2 3 4 _ nn 5(2) 7 _ free 10(2)] by blast
  with chosen_source_has_most_free_connections [OF 1 2 3 4 5 sample_env_facts(3) 6 7 8 9 10 this] show ?thesis by blast
qed

text \<open>What a successful run of the laps returns is, as for one lap, a URL of the channel.\<close>

lemma laps_sound:
  assumes srt: "slice_sorter (sort_indexes E)"
    and "laps E mthd sid lap s = Some (Ok (Inr res, s'))" "info s = Some si" "URLs si = Some us"
    and "no_nil (Cm s)" "distinct (m3uIndexes s)"
  shows "from_source E mthd (m3uIndexes s) us res \<and> Invalid (Cm s') = Invalid (Cm s)"
proof -
  let ?P = "\<lambda>E' m (x :: string) (lap :: int) s y. E' = E \<longrightarrow> (\<forall>res s'. y = Ok (Inr res, s') \<longrightarrow> info s = Some si \<longrightarrow>
      no_nil (Cm s) \<longrightarrow> distinct (m3uIndexes s) \<longrightarrow>
      from_source E m (m3uIndexes s) us res \<and> Invalid (Cm s') = Invalid (Cm s))"
  have "?P E' m x lap s y" if run: "laps E' m x lap s = Some y" for E' m x lap s y
  proof (rule laps.raw_induct [where P = ?P, OF _ run], goal_cases)
    case (1 self E' m x lap s y)
    note hyp = 1(1) and eq = 1(2)
    show ?case
    proof (intro impI allI)
      fix res s'
      assume e: "E' = E" and y: "y = Ok (Inr res, s')" and s: "info s = Some si" "no_nil (Cm s)" "distinct (m3uIndexes s)"
      obtain r s1 where r: "tryAllStreams E m x s = Some (Ok (r, s1))" "later E x s s1"
        "case r of Inr res \<Rightarrow> from_source E m (m3uIndexes s) us res \<and> \<not> never_ok E
          | Inl e \<Rightarrow> e = Canceled \<longrightarrow> (\<exists>t. ctx_done E t)"
        using tryAllStreams_facts [OF srt s(1) assms(4) s(2,3), of m x] by blast
      show "from_source E m (m3uIndexes s) us res \<and> Invalid (Cm s') = Invalid (Cm s)"
      proof (cases r)
        case (Inr found)
        with eq r y e show ?thesis by (simp add: later_def split: if_splits)
      next
        case (Inl err)
        let ?s2 = "pass_time E (clearTested x s1)"
        have "self E m x (int64 (lap + 1)) ?s2 = Some y"
          using eq r(1) Inl y e by (simp add: look_def split: if_splits)
        moreover have "info ?s2 = Some si" "no_nil (Cm ?s2)" "mset (m3uIndexes ?s2) = mset (m3uIndexes s)"
          "Invalid (Cm ?s2) = Invalid (Cm s)"
          using r(2) s later_pass_time [of E x "clearTested x s1"] by (simp_all add: later_def clearTested_def)
        ultimately show ?thesis
          using hyp [of E m x _ ?s2 y] y s(3) mset_eq_setD [of "m3uIndexes ?s2" "m3uIndexes s"]
          by (auto simp: from_source_def dest: mset_eq_imp_distinct_iff)
      qed
    qed
  qed
  from this [OF assms(2)] assms(3,5,6) show ?thesis by blast
qed

lemma Balance_sound:
  assumes "slice_sorter (sort_indexes E)" "no_nil (Cm s)" "distinct (m3uIndexes s)"
    and "Balance E has_ctx (Some rq) s = Some (Ok (Inr res, s'))"
  obtains p stream us where "URLPath rq = Some p" "parse_slug E (GetStreamId p) = Inr stream" "URLs stream = Some us"
    "from_source E (Method rq) (m3uIndexes s) us res" "Invalid (Cm s') = Invalid (Cm s)"
proof -
  obtain p s1 where p: "URLPath rq = Some p" "fetchBackendUrls E (GetStreamId p) s = (None, s1)"
    "laps E (Method rq) (GetStreamId p) 0 s1 = Some (Ok (Inr res, s'))"
    using assms(4) by (auto simp: Balance_def split: if_splits option.splits prod.splits)
  obtain stream where st: "parse_slug E (GetStreamId p) = Inr stream"
    using p(2) by (auto simp: fetchBackendUrls_def split: sum.splits)
  obtain us where us: "URLs stream = Some us" "s1 = s\<lparr>info := Some (stream\<lparr>URLs := Some us\<rparr>)\<rparr>"
    using p(2) st by (auto simp: fetchBackendUrls_def Let_def split: if_splits option.splits)
  have "from_source E (Method rq) (m3uIndexes s1) us res \<and> Invalid (Cm s') = Invalid (Cm s1)"
    by (rule laps_sound [OF assms(1) p(3), where si = "stream\<lparr>URLs := Some us\<rparr>"]) (use us(2) assms(2,3) in simp_all)
  with that [OF p(1) st us(1)] us(2) show thesis by simp
qed

lemma sample_never_ok: "never_ok sample_env" "\<forall>t. \<not> ctx_done sample_env t" "\<forall>t. others sample_env t = []"
  "has_client sample_env" "has_provider sample_env"
  by (simp_all add: never_ok_def sample_env_def)

lemma sample_lap_ready: "lap_ready sample_state"
  using sample_env_facts(5) by (simp add: lap_ready_def sample_state_def sample_info_def)

theorem failed_lap_tried_every_url_witness:
  "\<exists>e s'. tryAllStreams sample_env ''GET'' ''slug'' sample_state = Some (Ok (Inl e, s'))
    \<and> (is_tested ''slug'' (url_id ''2'' ''b'') s' \<or> at_limit sample_env sample_state ''2'')"
proof -
  obtain e s1 where f: "tryAllStreams sample_env ''GET'' ''slug'' sample_state = Some (Ok (Inl e, s1))" "e \<noteq> Canceled"
    by (rule failing_lap [OF sample_env_facts(1) sample_never_ok(1,2) sample_lap_ready])
  let ?us = "[(''1'', [(''a'', ''1:::http://h/a'')]), (''2'', [(''b'', ''4:::http://h/b'')])]"
  have "is_tested ''slug'' (url_id ''2'' ''b'') s1 \<or> at_limit sample_env sample_state ''2''"
    by (rule failed_lap_tried_every_url [OF sample_env_facts(1,2) sample_never_ok(4,5,3), where si = sample_info
        and us = ?us and urls = "[(''b'', ''4:::http://h/b'')]", OF _ _ _ sample_env_facts(5) _ _ _ f])
      (auto simp: sample_state_def sample_info_def sample_never_ok(2) split: if_splits)
  with f show ?thesis by blast
qed

lemma Balance_exhausted:
  assumes "slice_sorter (sort_indexes E)" "never_ok E" "\<forall>t. \<not> ctx_done E t" "no_nil (Cm s)" "distinct (m3uIndexes s)"
    and "Method rq \<noteq> []" "URLPath rq = Some p" "fetchBackendUrls E (GetStreamId p) s = (None, s1)"
    and "MaxRetries (lb_config E) < 9223372036854775808" "MaxRetries (lb_config E) \<noteq> 0"
  shows "\<exists>s'. (failed_lap E (Method rq) (GetStreamId p) ^^ nat (MaxRetries (lb_config E))) s1 s'
    \<and> Balance E True (Some rq) s = Some (Ok (Inl (Errorf ''error fetching stream: exhausted all streams''), s'))"
proof -
  let ?n = "MaxRetries (lb_config E)" let ?sid = "GetStreamId p"
  have b: "Balance E True (Some rq) s = laps E (Method rq) ?sid 0 s1"
    using assms(6-8) by (simp add: Balance_def)
  have ready: "lap_ready s1"
    using assms(4,5,8) by (auto simp: fetchBackendUrls_def lap_ready_def Let_def split: sum.splits if_splits)
  show ?thesis
  proof (cases "0 < ?n")
    case True
    then show ?thesis
      using laps_exhausted [OF assms(1,2,3) _ assms(9) ready, of 0 "nat ?n"] b by simp
  next
    case False
    with assms(10) have "laps E (Method rq) ?sid 0 s1
        = Some (Ok (Inl (Errorf ''error fetching stream: exhausted all streams''), s1))"
      by (subst laps.simps) simp
    with False b show ?thesis by simp
  qed
qed

text \<open>C20. When no source ever answers with status 200 and the request is not cancelled, \<open>Balance\<close> makes
  exactly \<open>MAX_RETRIES\<close> laps, each after clearing what the one before had tested, and reports that
  all streams are exhausted; with 0 it never returns; with a negative number it makes no lap.\<close>

theorem retries_are_counted:
  assumes "slice_sorter (sort_indexes E)" "\<forall>t m u r. answer E t m u = HttpOk r \<longrightarrow> StatusCode r \<noteq> 200"
    and "\<forall>t. \<not> ctx_done E t" "no_nil (Cm s)" "distinct (m3uIndexes s)"
    and "Method rq \<noteq> []" "URLPath rq = Some p"
    and "fetchBackendUrls E (GetStreamId p) s = (None, s1)"
    and "MaxRetries (lb_config E) < 9223372036854775808"
  shows "case MaxRetries (lb_config E) of n \<Rightarrow>
    (n = 0 \<longrightarrow> Balance E True (Some rq) s = None)
    \<and> (n \<noteq> 0 \<longrightarrow> (\<exists>s'. (failed_lap E (Method rq) (GetStreamId p) ^^ nat n) s1 s'
        \<and> Balance E True (Some rq) s
            = Some (Ok (Inl (Errorf ''error fetching stream: exhausted all streams''), s'))))"
proof -
  let ?n = "MaxRetries (lb_config E)" let ?sid = "GetStreamId p"
  have nk: "never_ok E" using assms(2) by (simp add: never_ok_def)
  have b: "Balance E True (Some rq) s = laps E (Method rq) ?sid 0 s1"
    using assms(6-8) by (simp add: Balance_def)
  have ready: "lap_ready s1"
    using assms(4,5,8) by (auto simp: fetchBackendUrls_def lap_ready_def Let_def split: sum.splits if_splits)
  have "?n = 0 \<Longrightarrow> Balance E True (Some rq) s = None"
    using laps_endless [OF assms(1) nk assms(3) _ ready] b by simp
  moreover note Balance_exhausted [OF assms(1) nk assms(3-9)]
  ultimately show ?thesis by simp
qed

theorem retries_are_counted_witness:
  "let E = sample_env\<lparr>parse_slug := \<lambda>_. Inr sample_info\<rparr>; rq = \<lparr>Method = ''GET'', URLPath = Some ''/p/slug''\<rparr> in
   case MaxRetries (lb_config E) of n \<Rightarrow>
    (n = 0 \<longrightarrow> Balance E True (Some rq) sample_state = None)
    \<and> (n \<noteq> 0 \<longrightarrow> (\<exists>s'. (failed_lap E (Method rq) (GetStreamId ''/p/slug'') ^^ nat n) sample_state s'
        \<and> Balance E True (Some rq) sample_state
            = Some (Ok (Inl (Errorf ''error fetching stream: exhausted all streams''), s'))))"
  unfolding Let_def
proof (rule retries_are_counted)
  let ?E = "sample_env\<lparr>parse_slug := \<lambda>_. Inr sample_info\<rparr>"
  show "slice_sorter (sort_indexes ?E)" using sample_env_facts(1) by simp
  show "no_nil (Cm sample_state)" by (rule sample_env_facts)
  show "fetchBackendUrls ?E (GetStreamId ''/p/slug'') sample_state = (None, sample_state)"
    by (simp add: fetchBackendUrls_def sample_info_def sample_state_def)
qed (simp_all add: sample_env_def sample_state_def)

end
