(* ===== verification/Json.thy ===== *)
theory Json
  imports StreamInfo
begin

text \<open>
  What a value goes through when \<open>encoding/json\<close> writes it to a file and reads it back: a string
  that is not valid UTF-8 comes back with every offending byte replaced by U+FFFD, an object is a
  list of members of which the last one with a given key counts, and the field
  \<open>URLs\<close> of a \<open>StreamInfo\<close> (tagged \<^verbatim>\<open>json:"-"\<close>) does not travel at all.
\<close>

section \<open>UTF-8\<close>

text \<open>
  \<open>utf8.DecodeRune\<close>: the length of the encoding at the head of a byte list, 0 where there is
  none (surrogates, overlong forms and values beyond U+10FFFF included).
\<close>

definition cont :: "nat \<Rightarrow> bool" where
  "cont b \<longleftrightarrow> 128 \<le> b \<and> b < 192"

definition second_ok :: "nat \<Rightarrow> nat \<Rightarrow> bool" where
  "second_ok a b \<longleftrightarrow>
     (if a = 224 then 160 \<le> b \<and> b < 192
      else if a = 237 then 128 \<le> b \<and> b < 160
      else if a = 240 then 144 \<le> b \<and> b < 192
      else if a = 244 then 128 \<le> b \<and> b < 144
      else cont b)"

fun rune_len :: "nat list \<Rightarrow> nat" where
  "rune_len [] = 0"
| "rune_len [a] = (if a < 128 then 1 else 0)"
| "rune_len [a, b] = (if a < 128 then 1 else if 194 \<le> a \<and> a < 224 \<and> cont b then 2 else 0)"
| "rune_len [a, b, c] =
     (if a < 128 then 1 else if 194 \<le> a \<and> a < 224 \<and> cont b then 2
      else if 224 \<le> a \<and> a < 240 \<and> second_ok a b \<and> cont c then 3 else 0)"
| "rune_len (a # b # c # d # ds) =
     (if a < 128 then 1 else if 194 \<le> a \<and> a < 224 \<and> cont b then 2
      else if 224 \<le> a \<and> a < 240 \<and> second_ok a b \<and> cont c then 3
      else if 240 \<le> a \<and> a < 245 \<and> second_ok a b \<and> cont c \<and> cont d then 4 else 0)"

definition head_len :: "string \<Rightarrow> nat" where
  "head_len s = rune_len (map of_char (take 4 s))"

definition replacement :: string where
  "replacement = map (char_of :: nat \<Rightarrow> char) [239, 191, 189]"

text \<open>One step per rune or invalid byte; as many steps as bytes are enough.\<close>

fun coerce_steps :: "nat \<Rightarrow> string \<Rightarrow> string" where
  "coerce_steps 0 s = []"
| "coerce_steps (Suc k) s =
     (if s = [] then []
      else if head_len s = 0 then replacement @ coerce_steps k (tl s)
      else take (head_len s) s @ coerce_steps k (drop (head_len s) s))"

definition json_string :: "string \<Rightarrow> string" where
  "json_string s = coerce_steps (length s) s"

section \<open>Objects\<close>

definition json_info :: "StreamInfo \<Rightarrow> StreamInfo" where
  "json_info s = \<lparr>Title = json_string (Title s), TvgID = json_string (TvgID s),
     TvgChNo = json_string (TvgChNo s), TvgType = json_string (TvgType s),
     LogoURL = json_string (LogoURL s), Group = json_string (Group s), URLs = None,
     SourceM3U = json_string (SourceM3U s), SourceIndex = SourceIndex s\<rparr>"

text \<open>Decoding into an empty map: members in order, a later one replaces an earlier one.\<close>

definition decode_members :: "(string \<times> 'a) list \<Rightarrow> (string \<times> 'a) list" where
  "decode_members ms = foldl (\<lambda>es (k, v). AList.update k v es) [] ms"

section \<open>Facts\<close>

definition valid_utf8 :: "string \<Rightarrow> bool" where
  "valid_utf8 s \<longleftrightarrow> json_string s = s"

lemma rune_len_ascii: "a < 128 \<Longrightarrow> rune_len (a # as) = 1"
  by (cases "(a # as)" rule: rune_len.cases) auto

lemma json_string_Nil [simp]: "json_string [] = []"
  by (simp add: json_string_def)

lemma json_string_ascii: "list_all (\<lambda>c. (of_char c :: nat) < 128) s \<Longrightarrow> json_string s = s"
  unfolding json_string_def
  by (induction s) (auto simp: head_len_def rune_len_ascii)

lemma rune_len_prefix:
  assumes "rune_len bs = n" "0 < n" "length bs \<le> 4"
  shows "n \<le> length bs \<and> rune_len (take n bs @ cs) = n"
proof -
  consider "bs = []" | a where "bs = [a]" | a b where "bs = [a, b]" | a b c where "bs = [a, b, c]"
    | a b c d where "bs = [a, b, c, d]"
    using assms(3) by (cases bs rule: rune_len.cases) auto
  then show ?thesis
  proof cases
    case (2 a)
    with assms show ?thesis by (auto simp: rune_len_ascii split: if_splits)
  next
    case (3 a b)
    with assms show ?thesis
      by (cases cs; cases "tl cs") (auto simp: rune_len_ascii split: if_splits)
  next
    case (4 a b c)
    with assms show ?thesis
      by (cases cs; cases "tl cs") (auto simp: rune_len_ascii split: if_splits)
  next
    case (5 a b c d)
    with assms show ?thesis
      by (cases cs; cases "tl cs") (auto simp: rune_len_ascii split: if_splits)
  qed (use assms in auto)
qed

lemma rune_len_take4: "rune_len (take 4 bs) = rune_len bs"
  by (cases bs rule: rune_len.cases) (auto simp: eval_nat_numeral)

lemma head_len_prefix:
  assumes "0 < head_len s"
  shows "head_len s \<le> length s" "head_len (take (head_len s) s @ t) = head_len s"
proof -
  let ?bs = "map of_char (take 4 s) :: nat list"
  have *: "head_len s \<le> length ?bs \<and> rune_len (take (head_len s) ?bs @ cs) = head_len s" for cs
    by (rule rune_len_prefix) (use assms in \<open>simp_all add: head_len_def\<close>)
  then show "head_len s \<le> length s" by simp
  have le4: "head_len s \<le> 4" using * by simp
  have "head_len (take (head_len s) s @ t) = rune_len (map of_char (take (head_len s) s @ t))"
    by (simp only: head_len_def [of "take (head_len s) s @ t"] take_map [symmetric] rune_len_take4)
  also have "map of_char (take (head_len s) s @ t) = take (head_len s) ?bs @ map of_char t"
    using le4 by (simp add: take_map)
  finally show "head_len (take (head_len s) s @ t) = head_len s" using * by simp
qed

lemma coerce_steps_enough:
  "length s \<le> k \<Longrightarrow> length s \<le> j \<Longrightarrow> coerce_steps k s = coerce_steps j s"
proof (induction k arbitrary: s j)
  case (Suc k)
  note IH = Suc.IH
  show ?case
  proof (cases j)
    case (Suc j')
    have "coerce_steps k (tl s) = coerce_steps j' (tl s)"
      by (rule IH) (use Suc.prems Suc in simp_all)
    moreover have "coerce_steps k (drop (head_len s) s) = coerce_steps j' (drop (head_len s) s)"
      if "head_len s \<noteq> 0"
      by (rule IH) (use Suc.prems Suc that in simp_all)
    ultimately show ?thesis using Suc by simp
  qed (use Suc.prems in simp)
next
  case 0
  then show ?case by (cases j) simp_all
qed

lemma json_string_rec:
  "s \<noteq> [] \<Longrightarrow> json_string s =
     (if head_len s = 0 then replacement @ json_string (tl s)
      else take (head_len s) s @ json_string (drop (head_len s) s))"
proof -
  assume "s \<noteq> []"
  then obtain k where k: "length s = Suc k" by (cases s) auto
  have "coerce_steps k (tl s) = json_string (tl s)"
    unfolding json_string_def by (rule coerce_steps_enough) (use k in simp_all)
  moreover have "coerce_steps k (drop (head_len s) s) = json_string (drop (head_len s) s)"
    if "head_len s \<noteq> 0"
    unfolding json_string_def by (rule coerce_steps_enough) (use k that in simp_all)
  ultimately show ?thesis
    using k \<open>s \<noteq> []\<close> by (simp add: json_string_def [of s])
qed

lemma head_len_replacement: "head_len (replacement @ t) = 3"
  by (cases t) (simp_all add: replacement_def head_len_def second_ok_def cont_def)

lemma json_string_append_rune:
  assumes "0 < head_len r" "head_len r = length r"
  shows "json_string (r @ t) = r @ json_string t"
proof -
  have "head_len (r @ t) = length r"
    using head_len_prefix(2) [of r t] assms by simp
  with assms show ?thesis by (cases "r = []") (simp_all add: json_string_rec [of "r @ t"])
qed

lemma json_string_idem [simp]: "json_string (json_string s) = json_string s"
proof (induction "length s" arbitrary: s rule: less_induct)
  case less
  show ?case
  proof (cases "s = []")
    case False
    show ?thesis
    proof (cases "head_len s = 0")
      case True
      have "json_string (replacement @ json_string (tl s)) = replacement @ json_string (json_string (tl s))"
        using head_len_replacement [of "[]"] by (intro json_string_append_rune) (simp_all add: replacement_def)
      with True False less [of "tl s"] show ?thesis by (simp add: json_string_rec [of s])
    next
      case nz: False
      let ?r = "take (head_len s) s"
      have "head_len ?r = head_len s" using head_len_prefix(2) [of s "[]"] nz by simp
      with nz head_len_prefix(1) [of s] have "json_string (?r @ json_string (drop (head_len s) s))
          = ?r @ json_string (json_string (drop (head_len s) s))"
        by (intro json_string_append_rune) simp_all
      with nz False less [of "drop (head_len s) s"] show ?thesis by (simp add: json_string_rec [of s])
    qed
  qed simp
qed

lemma json_info_idem [simp]: "json_info (json_info s) = json_info s"
  by (simp add: json_info_def)

lemma json_info_sel [simp]:
  "Title (json_info s) = json_string (Title s)" "TvgID (json_info s) = json_string (TvgID s)"
  "TvgChNo (json_info s) = json_string (TvgChNo s)" "TvgType (json_info s) = json_string (TvgType s)"
  "LogoURL (json_info s) = json_string (LogoURL s)" "Group (json_info s) = json_string (Group s)"
  "SourceM3U (json_info s) = json_string (SourceM3U s)" "SourceIndex (json_info s) = SourceIndex s"
  "URLs (json_info s) = None"
  by (simp_all add: json_info_def)

lemma decode_members_snoc:
  "decode_members (ms @ [(k, v)]) = AList.update k v (decode_members ms)"
  by (simp add: decode_members_def)

lemma decode_members_Nil [simp]: "decode_members [] = []"
  by (simp add: decode_members_def)

lemma distinct_decode_members: "distinct (map fst (decode_members ms))"
  by (induction ms rule: rev_induct) (auto simp: decode_members_snoc distinct_update)

lemma dom_decode_members: "fst ` set (decode_members ms) = fst ` set ms"
  by (simp add: decode_members_def foldl_update_keys)

lemma in_decode_members: "p \<in> set (decode_members ms) \<Longrightarrow> p \<in> set ms"
  using foldl_update_members [of p "[]" ms] by (simp add: decode_members_def)

lemma map_of_decode_members: "map_of (decode_members ms) = map_of (rev ms)"
  by (induction ms rule: rev_induct) (auto simp: decode_members_snoc update_conv)

end
