(* ===== verification/Base64.thy ===== *)
theory Base64
  imports GoPrelude
begin

text \<open>
  \<open>encoding/base64\<close> with padding, on byte strings: the standard alphabet (\<open>StdEncoding\<close>: file names
  and stored URLs) and the URL-safe one (\<open>URLEncoding\<close>: logo links).  Three bytes become four
  characters; decoding skips line breaks, and rejects any other foreign character, a wrong
  length and anything after the padding.
\<close>

section \<open>Alphabets\<close>

definition alphabet62 :: string where
  "alphabet62 = ''ABCDEFGHIJKLMNOPQRSTUVWXYZabcdefghijklmnopqrstuvwxyz0123456789''"

definition StdAlphabet :: string where
  "StdAlphabet = alphabet62 @ ''+/''"

definition URLAlphabet :: string where
  "URLAlphabet = alphabet62 @ ''-_''"

definition sextet_of :: "string \<Rightarrow> char \<Rightarrow> nat option" where
  "sextet_of abc c = (if c \<in> set abc then Some (length (takeWhile (\<lambda>d. d \<noteq> c) abc)) else None)"

section \<open>Encoding\<close>

definition pack3 :: "char \<Rightarrow> char \<Rightarrow> char \<Rightarrow> nat" where
  "pack3 a b c = of_char a * 65536 + of_char b * 256 + of_char c"

definition zero_byte :: char where
  "zero_byte = char_of (0 :: nat)"

fun EncodeToString :: "string \<Rightarrow> string \<Rightarrow> string" where
  "EncodeToString abc [] = []"
| "EncodeToString abc [a] = (let n = pack3 a zero_byte zero_byte in
     [abc ! (n div 262144), abc ! (n div 4096 mod 64), CHR ''='', CHR ''=''])"
| "EncodeToString abc [a, b] = (let n = pack3 a b zero_byte in
     [abc ! (n div 262144), abc ! (n div 4096 mod 64), abc ! (n div 64 mod 64), CHR ''=''])"
| "EncodeToString abc (a # b # c # cs) = (let n = pack3 a b c in
     abc ! (n div 262144) # abc ! (n div 4096 mod 64) # abc ! (n div 64 mod 64) # abc ! (n mod 64)
       # EncodeToString abc cs)"

section \<open>Decoding\<close>

definition byte_of :: "nat \<Rightarrow> char" where
  "byte_of n = char_of (n mod 256)"

fun decode_quads :: "string \<Rightarrow> string \<Rightarrow> string option" where
  "decode_quads abc [] = Some []"
| "decode_quads abc (a # b # c # d # ds) =
     (case (sextet_of abc a, sextet_of abc b) of
        (Some x, Some y) \<Rightarrow>
          if c = CHR ''='' then
            (if d = CHR ''='' \<and> ds = [] then Some [byte_of (x * 4 + y div 16)] else None)
          else (case sextet_of abc c of
             None \<Rightarrow> None
           | Some z \<Rightarrow>
               if d = CHR ''='' then
                 (if ds = [] then Some [byte_of (x * 4 + y div 16), byte_of (y * 16 + z div 4)] else None)
               else (case sextet_of abc d of
                  None \<Rightarrow> None
                | Some w \<Rightarrow> map_option (\<lambda>r. byte_of (x * 4 + y div 16) # byte_of (y * 16 + z div 4)
                                              # byte_of (z * 64 + w) # r) (decode_quads abc ds)))
      | _ \<Rightarrow> None)"
| "decode_quads abc _ = None"

definition DecodeString :: "string \<Rightarrow> string \<Rightarrow> string option" where
  "DecodeString abc s =
     decode_quads abc (filter (\<lambda>c. c \<noteq> char_of (10 :: nat) \<and> c \<noteq> char_of (13 :: nat)) s)"

section \<open>Round trip\<close>

definition proper :: "string \<Rightarrow> bool" where
  "proper abc \<longleftrightarrow> length abc = 64 \<and> distinct abc
     \<and> set abc \<inter> {CHR ''='', char_of (10 :: nat), char_of (13 :: nat)} = {}"

lemma proper_Std: "proper StdAlphabet"
  by code_simp

lemma proper_URL: "proper URLAlphabet"
  by code_simp

lemma sextet_of_nth:
  assumes "proper abc" "n < 64"
  shows "sextet_of abc (abc ! n) = Some n"
proof -
  have n: "n < length abc" "distinct abc" using assms by (simp_all add: proper_def)
  have "takeWhile (\<lambda>d. d \<noteq> abc ! n) abc = take n abc"
  proof (rule takeWhile_eq_take_P_nth)
    show "abc ! i \<noteq> abc ! n" if "i < n" "i < length abc" for i
      using that n by (simp add: nth_eq_iff_index_eq)
  qed simp
  with n show ?thesis by (simp add: sextet_of_def)
qed

lemma nth_proper:
  "proper abc \<Longrightarrow> n < 64 \<Longrightarrow> abc ! n \<in> set abc"
  "proper abc \<Longrightarrow> n < 64 \<Longrightarrow> abc ! n \<noteq> CHR ''=''"
  by (metis nth_mem proper_def, metis disjoint_iff insertI1 nth_mem proper_def)

lemma byte_bound: "(of_char c :: nat) < 256"
  by (metis nat_of_char_less_256)

lemma pack3_bounds: "pack3 a b c < 16777216"
  unfolding pack3_def using byte_bound [of a] byte_bound [of b] byte_bound [of c] by linarith

lemma high_part_irrelevant:
  fixes x y k :: nat
  assumes "256 dvd 64 * k"
  shows "((x mod 64) * k + y) mod 256 = (x * k + y) mod 256"
proof -
  obtain j where j: "64 * k = 256 * j" using assms by (elim dvdE)
  have "x * k + y = (64 * (x div 64) + x mod 64) * k + y" by simp
  also have "\<dots> = (x mod 64) * k + y + 64 * k * (x div 64)" by (simp only: algebra_simps)
  also have "\<dots> = (x mod 64) * k + y + 256 * (j * (x div 64))" unfolding j by (simp only: mult.assoc)
  finally have e: "x * k + y = (x mod 64) * k + y + 256 * (j * (x div 64))" .
  show ?thesis by (simp only: e mod_mult_self2)
qed

lemma split_div: "0 < m \<Longrightarrow> u div (m * k) * k + (u mod (m * k)) div m = u div (m :: nat)"
  by (simp add: div_mult2_eq mod_mult2_eq)

lemma div_mod_low: "c < 256 \<Longrightarrow> (m * 256 + c) div 256 = m \<and> (m * 256 + c) mod 256 = (c :: nat)"
  by simp

lemma pack3_bytes:
  assumes "n = pack3 a b c"
  shows "byte_of (n div 262144 * 4 + (n div 4096 mod 64) div 16) = a"
    "byte_of ((n div 4096 mod 64) * 16 + (n div 64 mod 64) div 4) = b"
    "byte_of ((n div 64 mod 64) * 64 + n mod 64) = c"
proof -
  let ?a = "of_char a :: nat" and ?b = "of_char b :: nat" and ?c = "of_char c :: nat"
  have b: "?a < 256" "?b < 256" "?c < 256" by (rule byte_bound)+
  have n: "n = (?a * 256 + ?b) * 256 + ?c" using assms by (simp add: pack3_def)
  have n1: "n div 256 = ?a * 256 + ?b" "n mod 256 = ?c"
    using div_mod_low [OF b(3), of "?a * 256 + ?b"] unfolding n by blast+
  moreover have "n div 65536 = n div 256 div 256" using div_mult2_eq [of n 256 256] by simp
  ultimately have n2: "n div 65536 = ?a" "n div 256 mod 256 = ?b" "n mod 256 = ?c"
    using div_mod_low [OF b(2), of ?a] by simp_all
  have "n div 262144 = n div 4096 div 64" "n div 65536 = n div 4096 div 16"
    using div_mult2_eq [of n 4096 64] div_mult2_eq [of n 4096 16] by simp_all
  then have q1: "n div 262144 * 4 + (n div 4096 mod 64) div 16 = n div 65536"
    using split_div [of 16 "n div 4096" 4] by simp
  have "n div 4096 = n div 64 div 64" "n div 256 = n div 64 div 4"
    using div_mult2_eq [of n 64 64] div_mult2_eq [of n 64 4] by simp_all
  then have "n div 256 = n div 4096 * 16 + (n div 64 mod 64) div 4"
    using split_div [of 4 "n div 64" 16] by simp
  then have q2: "((n div 4096 mod 64) * 16 + (n div 64 mod 64) div 4) mod 256 = n div 256 mod 256"
    using high_part_irrelevant [of 16 "n div 4096" "(n div 64 mod 64) div 4"] by simp
  have "n = n div 64 * 64 + n mod 64" by simp
  then have q3: "((n div 64 mod 64) * 64 + n mod 64) mod 256 = n mod 256"
    using high_part_irrelevant [of 64 "n div 64" "n mod 64"] by simp
  show "byte_of (n div 262144 * 4 + (n div 4096 mod 64) div 16) = a"
    "byte_of ((n div 4096 mod 64) * 16 + (n div 64 mod 64) div 4) = b"
    "byte_of ((n div 64 mod 64) * 64 + n mod 64) = c"
    unfolding byte_of_def q1 q2 q3 n2 by simp_all
qed

lemma decode_encode: "proper abc \<Longrightarrow> decode_quads abc (EncodeToString abc s) = Some s"
proof (induction abc s rule: EncodeToString.induct)
  case (2 abc a)
  let ?n = "pack3 a zero_byte zero_byte"
  have "?n div 262144 < 64" using pack3_bounds [of a zero_byte zero_byte] by simp
  with 2 show ?case
    using pack3_bytes(1) [OF refl, of a zero_byte zero_byte] by (simp add: Let_def sextet_of_nth nth_proper)
next
  case (3 abc a b)
  let ?n = "pack3 a b zero_byte"
  have "?n div 262144 < 64" using pack3_bounds [of a b zero_byte] by simp
  with 3 show ?case
    using pack3_bytes(1,2) [OF refl, of a b zero_byte] by (simp add: Let_def sextet_of_nth nth_proper)
next
  case (4 abc a b c cs)
  let ?n = "pack3 a b c"
  have "?n div 262144 < 64" using pack3_bounds [of a b c] by simp
  with 4 show ?case
    using pack3_bytes [OF refl, of a b c] by (simp add: Let_def sextet_of_nth nth_proper)
qed simp

lemma EncodeToString_alphabet:
  "proper abc \<Longrightarrow> set (EncodeToString abc s) \<subseteq> insert (CHR ''='') (set abc)"
proof (induction abc s rule: EncodeToString.induct)
  case (2 abc a)
  then show ?case
    using pack3_bounds [of a zero_byte zero_byte] by (simp add: Let_def nth_proper)
next
  case (3 abc a b)
  then show ?case
    using pack3_bounds [of a b zero_byte] by (simp add: Let_def nth_proper)
next
  case (4 abc a b c cs)
  then show ?case
    using pack3_bounds [of a b c] by (auto simp: Let_def nth_proper)
qed simp

lemma DecodeString_EncodeToString:
  assumes "proper abc"
  shows "DecodeString abc (EncodeToString abc s) = Some s"
proof -
  have "filter (\<lambda>c. c \<noteq> char_of (10 :: nat) \<and> c \<noteq> char_of (13 :: nat)) (EncodeToString abc s) = EncodeToString abc s"
  proof (intro filter_True ballI)
    fix c assume "c \<in> set (EncodeToString abc s)"
    then have "c \<in> insert (CHR ''='') (set abc)" using EncodeToString_alphabet [OF assms] by blast
    moreover have "char_of (10 :: nat) \<notin> set abc" "char_of (13 :: nat) \<notin> set abc"
      using assms by (auto simp: proper_def)
    moreover have "CHR ''='' \<noteq> char_of (10 :: nat)" "CHR ''='' \<noteq> char_of (13 :: nat)"
      by code_simp+
    ultimately show "c \<noteq> char_of (10 :: nat) \<and> c \<noteq> char_of (13 :: nat)" by auto
  qed
  then show ?thesis by (simp add: DecodeString_def decode_encode assms)
qed

lemma EncodeToString_inj: "proper abc \<Longrightarrow> EncodeToString abc s = EncodeToString abc t \<longleftrightarrow> s = t"
  by (metis decode_encode option.inject)

section \<open>Without padding\<close>

text \<open>\<open>RawURLEncoding\<close>: no padding is written, and none is accepted.\<close>

definition RawEncode :: "string \<Rightarrow> string \<Rightarrow> string" where
  "RawEncode abc s = takeWhile (\<lambda>c. c \<noteq> CHR ''='') (EncodeToString abc s)"

definition padding :: "nat \<Rightarrow> string" where
  "padding n = replicate ((4 - n mod 4) mod 4) (CHR ''='')"

definition RawDecode :: "string \<Rightarrow> string \<Rightarrow> string option" where
  "RawDecode abc s =
     (let t = filter (\<lambda>c. c \<noteq> char_of (10 :: nat) \<and> c \<noteq> char_of (13 :: nat)) s
      in if CHR ''='' \<in> set t then None else decode_quads abc (t @ padding (length t)))"

lemma RawEncode_padding:
  "proper abc \<Longrightarrow> EncodeToString abc s = RawEncode abc s @ padding (length (RawEncode abc s))"
proof (induction abc s rule: EncodeToString.induct)
  case (2 abc a)
  then show ?case
    using pack3_bounds [of a zero_byte zero_byte]
    by (simp add: RawEncode_def Let_def nth_proper padding_def numeral_2_eq_2)
next
  case (3 abc a b)
  then show ?case
    using pack3_bounds [of a b zero_byte]
    by (simp add: RawEncode_def Let_def nth_proper padding_def)
next
  case (4 abc a b c cs)
  have l: "length (RawEncode abc (a # b # c # cs)) = length (RawEncode abc cs) + 4"
    using 4(2) pack3_bounds [of a b c] by (simp add: RawEncode_def Let_def nth_proper)
  from 4 pack3_bounds [of a b c] show ?case
    by (simp only: l padding_def mod_add_self2) (simp add: RawEncode_def Let_def nth_proper padding_def)
qed (simp add: RawEncode_def padding_def)

lemma RawEncode_chars: "proper abc \<Longrightarrow> set (RawEncode abc s) \<subseteq> set abc"
  using EncodeToString_alphabet [of abc s] by (auto simp: RawEncode_def dest: set_takeWhileD)

lemma RawDecode_RawEncode:
  assumes "proper abc"
  shows "RawDecode abc (RawEncode abc s) = Some s"
proof -
  have "\<forall>c \<in> set (RawEncode abc s). c \<noteq> CHR ''='' \<and> c \<noteq> char_of (10 :: nat) \<and> c \<noteq> char_of (13 :: nat)"
    using RawEncode_chars [OF assms, of s] assms by (auto simp: proper_def)
  then have "filter (\<lambda>c. c \<noteq> char_of (10 :: nat) \<and> c \<noteq> char_of (13 :: nat)) (RawEncode abc s) = RawEncode abc s"
    "CHR ''='' \<notin> set (RawEncode abc s)" by (auto simp: filter_id_conv)
  then show ?thesis
    using decode_encode [OF assms, of s]
    by (simp add: RawDecode_def RawEncode_padding [OF assms, symmetric])
qed

lemma RawEncode_Nil: "proper abc \<Longrightarrow> RawEncode abc s = [] \<longleftrightarrow> s = []"
  using RawDecode_RawEncode [of abc s] RawDecode_RawEncode [of abc "[]"]
  by (metis EncodeToString.simps(1) RawEncode_def option.inject takeWhile.simps(1))

end
