(* ===== verification/Slug.thy ===== *)
theory Slug
  imports Json Base64
begin

text \<open>
  \<^verbatim>\<open>sourceproc/slug.go\<close> and the same code in \<^verbatim>\<open>proxy/stream/failovers/m3u8_helpers.go\<close>: a value is put
  into a path as base64 of its compressed JSON.

  The JSON library and zstd are a \<open>codec\<close>, an argument; \<open>None\<close> is an error of theirs.
\<close>

record 'a codec =
  marshal :: "'a \<Rightarrow> string option"
  zip_up :: "string \<Rightarrow> string option"
  unzip_all :: "string \<Rightarrow> string option"
  unmarshal :: "string \<Rightarrow> 'a option"

definition encodeSlug :: "'a codec \<Rightarrow> 'a \<Rightarrow> string" where
  "encodeSlug C x = (case marshal C x of
     None \<Rightarrow> []
   | Some jsonData \<Rightarrow> (case zip_up C jsonData of
        None \<Rightarrow> []
      | Some compressed \<Rightarrow> RawEncode URLAlphabet compressed))"

definition decodeSlug :: "'a codec \<Rightarrow> string \<Rightarrow> go_error + 'a" where
  "decodeSlug C s = (case RawDecode URLAlphabet s of
     None \<Rightarrow> Inl (Errorf ''error decoding Base64 data'')
   | Some decoded \<Rightarrow> (case unzip_all C decoded of
        None \<Rightarrow> Inl (Errorf ''error reading decompressed data'')
      | Some jsonData \<Rightarrow> (case unmarshal C jsonData of
           None \<Rightarrow> Inl (Errorf ''error deserializing data'')
         | Some x \<Rightarrow> Inr x)))"

definition EncodeSlug :: "StreamInfo codec \<Rightarrow> StreamInfo \<Rightarrow> string" where
  "EncodeSlug C s = encodeSlug C s"

definition DecodeSlug :: "StreamInfo codec \<Rightarrow> string \<Rightarrow> go_error + StreamInfo" where
  "DecodeSlug C s = (case decodeSlug C s of Inl e \<Rightarrow> Inl e | Inr info \<Rightarrow> Inr (info\<lparr>URLs := Some []\<rparr>))"

text \<open>
  What the code relies on: writing the value does not fail, unpacking undoes packing (into something
  that is not empty), and reading gives the value, or what the JSON of the value keeps of it.
\<close>

definition carries :: "'a codec \<Rightarrow> 'a \<Rightarrow> 'a \<Rightarrow> bool" where
  "carries C x y \<longleftrightarrow> (case marshal C x of None \<Rightarrow> False
     | Some j \<Rightarrow> (case zip_up C j of None \<Rightarrow> False
        | Some z \<Rightarrow> z \<noteq> [] \<and> unzip_all C z = Some j \<and> unmarshal C j = Some y))"

lemma carriesE:
  assumes "carries C x y"
  obtains j z where "marshal C x = Some j" "zip_up C j = Some z" "z \<noteq> []" "unzip_all C z = Some j"
    "unmarshal C j = Some y"
  using assms by (auto simp: carries_def split: option.splits)

lemma decode_encodeSlug: "carries C x y \<Longrightarrow> decodeSlug C (encodeSlug C x) = Inr y"
  by (elim carriesE) (simp add: encodeSlug_def decodeSlug_def RawDecode_RawEncode [OF proper_URL])

lemma encodeSlug_shape:
  assumes "carries C x y"
  shows "encodeSlug C x \<noteq> []" "CHR ''.'' \<notin> set (encodeSlug C x)" "CHR ''/'' \<notin> set (encodeSlug C x)"
proof -
  from assms obtain z where e: "encodeSlug C x = RawEncode URLAlphabet z" "z \<noteq> []"
    by (elim carriesE) (simp add: encodeSlug_def)
  then show "encodeSlug C x \<noteq> []" by (simp add: RawEncode_Nil [OF proper_URL])
  have "CHR ''.'' \<notin> set URLAlphabet" "CHR ''/'' \<notin> set URLAlphabet" by code_simp+
  with e(1) RawEncode_chars [OF proper_URL, of z]
  show "CHR ''.'' \<notin> set (encodeSlug C x)" "CHR ''/'' \<notin> set (encodeSlug C x)" by auto
qed

lemma Decode_EncodeSlug:
  "carries C s (json_info s) \<Longrightarrow> DecodeSlug C (EncodeSlug C s) = Inr ((json_info s)\<lparr>URLs := Some []\<rparr>)"
  by (simp add: DecodeSlug_def EncodeSlug_def decode_encodeSlug)

text \<open>A codec that carries one value.\<close>

definition single_codec :: "'a \<Rightarrow> 'a codec" where
  "single_codec y = \<lparr>marshal = \<lambda>_. Some ''{}'', zip_up = Some, unzip_all = Some, unmarshal = \<lambda>_. Some y\<rparr>"

lemma single_codec_carries: "carries (single_codec y) x y"
  by (simp add: carries_def single_codec_def)

end
