(* ===== verification/Parser.thy ===== *)
theory Parser
  imports Slug "HOL-Library.List_Lexorder" "HOL-Library.Char_ord" "HOL-Library.Product_Lexorder"
begin

text \<open>
  From a line of a source playlist to a channel, and from a channel to a line of the merged
  playlist: \<^verbatim>\<open>sourceproc/parser.go\<close>, the value parsers of \<^verbatim>\<open>utils/middlewares.go\<close>, the environment
  readers of \<^verbatim>\<open>utils/env.go\<close>, \<open>GenerateStreamURL\<close> of \<^verbatim>\<open>sourceproc/helpers.go\<close> with
  \<^verbatim>\<open>utils/stream_url.go\<close>.

  What is not the program's own is in \<open>parse_env\<close>: the process environment, the regular
  expression engine (on patterns the user supplies), \<open>net/url\<close>, SHA3-224 in hexadecimal, the
  libraries behind the slug of a channel (JSON and zstd) and the order in which concurrent goroutines deliver.
\<close>

record parse_env =
  pe_environ :: environ
  regex_delete :: "string \<Rightarrow> (string \<Rightarrow> string) option"
  url_origin :: "string \<Rightarrow> (string \<times> string) option"
  url_path :: "string \<Rightarrow> string option"
  join_path :: "string \<Rightarrow> string \<Rightarrow> string option"
  sha3_hex :: "string \<Rightarrow> string"
  slug_codec :: "StreamInfo codec"
  arrival :: "string list \<Rightarrow> string list"

section \<open>Environment variables with an index\<close>

definition indexed :: "environ \<Rightarrow> string \<Rightarrow> (string \<times> string) list" where
  "indexed env prefix = map (\<lambda>(k, v). (TrimPrefix k prefix, v)) (filter (\<lambda>(k, v). HasPrefix k prefix) env)"

definition GetM3UIndexes :: "environ \<Rightarrow> string list" where
  "GetM3UIndexes env = map fst (indexed env ''M3U_URL_'')"

definition GetFilters :: "environ \<Rightarrow> string \<Rightarrow> string list" where
  "GetFilters env base = map snd (filter (\<lambda>(i, v). snd (Atoi i)) (indexed env (base @ ''_'')))"

section \<open>Values of attributes\<close>

definition quote :: char where
  "quote = CHR 0x22"

definition GeneralParser :: "string \<Rightarrow> string" where
  "GeneralParser value =
     (if HasPrefix value [quote] \<and> HasSuffix value [quote]
      then rev (dropWhile (\<lambda>c. c = quote) (rev (dropWhile (\<lambda>c. c = quote) value)))
      else value)"

definition TvgNameParser :: "parse_env \<Rightarrow> string \<Rightarrow> string" where
  "TvgNameParser E value =
     (let substrFilter = Getenv (pe_environ E) ''TITLE_SUBSTR_FILTER'' in
      GeneralParser (if substrFilter = [] then value
        else case regex_delete E substrFilter of None \<Rightarrow> value | Some del \<Rightarrow> del value))"

definition TvgLogoParser :: "parse_env \<Rightarrow> string \<Rightarrow> string" where
  "TvgLogoParser E value0 =
     (let value = GeneralParser value0 in
      case url_origin E value of
        None \<Rightarrow> value
      | Some (scheme, host) \<Rightarrow>
          if scheme \<in> {''http'', ''https''} \<and> host \<noteq> [] then
            (case join_path E (Getenv (pe_environ E) ''BASE_URL'') (''/a/'' @ EncodeToString URLAlphabet value) of
               None \<Rightarrow> value | Some final \<Rightarrow> final)
          else value)"

section \<open>Attributes of a line\<close>

text \<open>
  \<open>FindAllStringSubmatch\<close> of \<^verbatim>\<open>([a-zA-Z0-9_-]+)="([^"]*)"\<close>: matches from left to right, none
  overlapping.  The run of key characters is taken whole, since a shorter one is not followed by
  an equals sign.  A match is its whole text, its key and its value.
\<close>

definition key_char :: "char \<Rightarrow> bool" where
  "key_char c = (let n = (of_char c :: nat) in
     65 \<le> n \<and> n \<le> 90 \<or> 97 \<le> n \<and> n \<le> 122 \<or> 48 \<le> n \<and> n \<le> 57 \<or> n = 95 \<or> n = 45)"

text \<open>The value and the rest, when an equals sign and a quoted text follow.\<close>

definition quoted :: "string \<Rightarrow> (string \<times> string) option" where
  "quoted s = (if HasPrefix s [CHR ''='', quote] then cut [quote] (drop 2 s) else None)"

lemma cut_length: "cut sep s = Some (a, b) \<Longrightarrow> length a + length b + length sep \<le> length s"
  by (induction s arbitrary: a b)
    (fastforce simp: HasPrefix_def split: if_splits dest: arg_cong [where f = length])+

function find_attrs :: "string \<Rightarrow> (string \<times> string \<times> string) list" where
  "find_attrs s =
     (if s = [] then []
      else let key = takeWhile key_char s; rest = dropWhile key_char s in
        if key = [] then find_attrs (tl s)
        else case quoted rest of
          None \<Rightarrow> find_attrs rest
        | Some (value, rest') \<Rightarrow> (key @ [CHR ''='', quote] @ value @ [quote], key, value) # find_attrs rest')"
  by pat_completeness auto

termination
proof (relation "measure length")
  fix s :: string and key rest
  assume *: "s \<noteq> []" "key = takeWhile key_char s" "rest = dropWhile key_char s"
  show "(tl s, s) \<in> measure length" using * by simp
  have len: "length key + length rest = length s"
    using * by (metis length_append takeWhile_dropWhile_id)
  show "(rest, s) \<in> measure length" if "key \<noteq> []"
    using len that by (cases key) auto
  show "(r, s) \<in> measure length" if "key \<noteq> []" "quoted rest = Some p" "(v, r) = p" for p v r
  proof -
    have "length r \<le> length rest"
      using that by (auto simp: quoted_def split: if_splits dest: cut_length)
    with len that show ?thesis by (cases key) auto
  qed
qed simp

declare find_attrs.simps [simp del]

definition empty_stream :: StreamInfo where
  "empty_stream = \<lparr>Title = [], TvgID = [], TvgChNo = [], TvgType = [], LogoURL = [], Group = [],
     URLs = Some [], SourceM3U = [], SourceIndex = 0\<rparr>"

definition apply_attr :: "parse_env \<Rightarrow> string \<Rightarrow> string \<Rightarrow> StreamInfo \<Rightarrow> StreamInfo" where
  "apply_attr E k v s =
     (let key = ToLower (TrimSpace k); value = TrimSpace v in
      if key = ''tvg-id'' then s\<lparr>TvgID := GeneralParser value\<rparr>
      else if key \<in> {''tvg-chno'', ''channel-id'', ''channel-number''} then s\<lparr>TvgChNo := GeneralParser value\<rparr>
      else if key = ''tvg-name'' then s\<lparr>Title := TvgNameParser E value\<rparr>
      else if key = ''tvg-type'' then s\<lparr>TvgType := GeneralParser value\<rparr>
      else if key \<in> {''tvg-group'', ''group-title''} then s\<lparr>Group := GeneralParser value\<rparr>
      else if key = ''tvg-logo'' then s\<lparr>LogoURL := TvgLogoParser E value\<rparr>
      else s)"

text \<open>\<open>strings.Replace\<close> with an empty replacement, once.\<close>

definition remove_first :: "string \<Rightarrow> string \<Rightarrow> string" where
  "remove_first s old = (case cut old s of None \<Rightarrow> s | Some (a, b) \<Rightarrow> a @ b)"

definition parse_attrs :: "parse_env \<Rightarrow> string \<Rightarrow> StreamInfo \<times> string" where
  "parse_attrs E line =
     foldl (\<lambda>(s, rest) (whole, k, v). (apply_attr E k v s, remove_first rest whole))
       (empty_stream, line) (find_attrs line)"

definition parse_title :: "parse_env \<Rightarrow> string \<Rightarrow> StreamInfo" where
  "parse_title E line =
     (let (s, rest) = parse_attrs E line; commaSplit = SplitN2 rest '','' in
      if length commaSplit > 1 then s\<lparr>Title := TvgNameParser E (TrimSpace (commaSplit ! 1))\<rparr> else s)"

section \<open>The store of URLs\<close>

text \<open>
  The directory of streams: per shard directory and file name the content of the file.  What ends
  up in a file that is written is up to the file system.  A file name with a slash in it names a
  path through a directory that nobody creates, so such a file cannot be written and is never
  found; empty path elements vanish.  Names are taken to be no longer than the file system allows:
  for a longer one \<open>os.Stat\<close> fails with an error that is not \<open>IsNotExist\<close>, and the channel is
  listed without its URL.  (Source indexes come from variable names and are
  taken to have no slash and no pattern character in them.)
\<close>

type_synonym streams_dir = "((string \<times> string) \<times> string) list"

definition path_elements :: "string \<Rightarrow> string list" where
  "path_elements name = filter (\<lambda>p. p \<noteq> []) (SplitChar (CHR ''/'') name)"

definition file_exists :: "streams_dir \<Rightarrow> string \<Rightarrow> string \<Rightarrow> bool" where
  "file_exists disk shard name = (case path_elements name of
     [n] \<Rightarrow> map_of disk (shard, n) \<noteq> None | _ \<Rightarrow> False)"

definition write_file ::
    "(string \<Rightarrow> string option) \<Rightarrow> streams_dir \<Rightarrow> string \<Rightarrow> string \<Rightarrow> string \<Rightarrow> streams_dir" where
  "write_file left_behind disk shard name content = (case path_elements name of
     [n] \<Rightarrow> (case left_behind content of None \<Rightarrow> disk | Some c \<Rightarrow> AList.update (shard, n) c disk)
   | _ \<Rightarrow> disk)"

record LineDetails =
  Content :: string
  LineNum :: int

definition parseLine ::
    "parse_env \<Rightarrow> (string \<Rightarrow> string option) \<Rightarrow> string \<Rightarrow> LineDetails \<Rightarrow> string \<Rightarrow> streams_dir
      \<Rightarrow> StreamInfo option \<times> streams_dir" where
  "parseLine E left_behind line nextLine m3uIndex disk =
     (let cleanUrl = TrimSpace (Content nextLine); s = parse_title E line in
      if Title s = [] then (None, disk)
      else let
        encodedUrl = EncodeToString StdAlphabet cleanUrl;
        base64Title = EncodeToString StdAlphabet (Title s);
        urlHash = sha3_hex E cleanUrl;
        shard = take 3 urlHash;
        fileName = base64Title @ ''_'' @ m3uIndex @ ''|'' @ urlHash;
        s1 = s\<lparr>SourceM3U := m3uIndex, SourceIndex := LineNum nextLine\<rparr> in
      if file_exists disk shard fileName then (Some (s1\<lparr>URLs := Some [(m3uIndex, [])]\<rparr>), disk)
      else (Some (s1\<lparr>URLs := Some [(m3uIndex, [(urlHash, Itoa (LineNum nextLine) @ '':::'' @ cleanUrl)])]\<rparr>),
            write_file left_behind disk shard fileName (Itoa (LineNum nextLine) @ '':::'' @ encodedUrl)))"

section \<open>The merged playlist\<close>

text \<open>\<open>utils.DetermineBaseURL\<close>: of a request, whether it came over TLS and its host.\<close>

definition DetermineBaseURL :: "environ \<Rightarrow> (bool \<times> string) option \<Rightarrow> string" where
  "DetermineBaseURL env r = (case LookupEnv env ''BASE_URL'' of
     Some customBase \<Rightarrow> TrimSuffix customBase ''/''
   | None \<Rightarrow> (case r of
        None \<Rightarrow> []
      | Some (tls, host) \<Rightarrow> (if tls then ''https://'' else ''http://'') @ host))"

definition GetFileExtensionFromUrl :: "parse_env \<Rightarrow> string \<Rightarrow> string option" where
  "GetFileExtensionFromUrl E u = map_option path_Ext (url_path E u)"

fun join_with :: "string \<Rightarrow> string list \<Rightarrow> string" where
  "join_with sep [] = []"
| "join_with sep [p] = p"
| "join_with sep (p # ps) = p @ sep @ join_with sep ps"

definition GetSubPathFromUrl :: "parse_env \<Rightarrow> string \<Rightarrow> string option" where
  "GetSubPathFromUrl E u = map_option (\<lambda>p. let segs = SplitChar (CHR ''/'') p in
     if length segs \<le> 1 then ''stream'' else join_with ''/'' (butlast (tl segs))) (url_path E u)"

definition GenerateStreamURL :: "parse_env \<Rightarrow> string \<Rightarrow> StreamInfo \<Rightarrow> string" where
  "GenerateStreamURL E baseUrl stream =
     (let inner = concat (map (map snd \<circ> snd) (case URLs stream of None \<Rightarrow> [] | Some us \<Rightarrow> us));
          extension = foldl (\<lambda>ext u. if ext = [] then (case GetFileExtensionFromUrl E u of None \<Rightarrow> [] | Some x \<Rightarrow> x)
                                     else ext) [] inner;
          subPaths = arrival E (concat (map (\<lambda>u. case GetSubPathFromUrl E u of None \<Rightarrow> [] | Some p \<Rightarrow> [p]) inner));
          finalUrl = (case subPaths of [] \<Rightarrow> [] | p # ps \<Rightarrow> baseUrl @ ''/p/'' @ p @ ''/'' @ EncodeSlug (slug_codec E) stream);
          finalUrl' = (if finalUrl = [] then baseUrl @ ''/p/stream/'' @ EncodeSlug (slug_codec E) stream else finalUrl)
      in finalUrl' @ (if Contains extension ''.m3u'' then [] else extension))"

definition tag :: "string \<Rightarrow> string \<Rightarrow> string list" where
  "tag name value = (if value = [] then [] else [name @ [CHR ''='', quote] @ value @ [quote]])"

definition extInfTags :: "StreamInfo \<Rightarrow> string list" where
  "extInfTags s = ''#EXTINF:-1'' # tag ''tvg-id'' (TvgID s) @ tag ''tvg-chno'' (TvgChNo s)
     @ tag ''tvg-logo'' (LogoURL s) @ tag ''tvg-group'' (Group s) @ tag ''group-title'' (Group s)
     @ tag ''tvg-type'' (TvgType s) @ tag ''tvg-name'' (Title s)"

definition formatStreamEntry :: "parse_env \<Rightarrow> string \<Rightarrow> StreamInfo \<Rightarrow> string" where
  "formatStreamEntry E baseURL s =
     join_with '' '' (extInfTags s) @ '','' @ Title s @ [newline] @ GenerateStreamURL E baseURL s @ [newline]"

section \<open>Reading back what was written\<close>

lemma cut_first:
  "sep \<noteq> [] \<Longrightarrow> hd sep \<notin> set p \<Longrightarrow> cut sep (p @ sep @ t) = Some (p, t)"
proof (induction p)
  case Nil
  then show ?case by (cases sep) (simp_all add: HasPrefix_def)
next
  case (Cons c p)
  then have "\<not> HasPrefix (c # p @ sep @ t) sep"
    by (cases sep) (auto simp: HasPrefix_def)
  with Cons show ?case by simp
qed

lemma cut_one: "c \<notin> set p \<Longrightarrow> cut [c] (p @ c # t) = Some (p, t)"
  using cut_first [of "[c]" p t] by simp

lemma cut_set: "cut sep s = Some (a, b) \<Longrightarrow> sep \<noteq> [] \<Longrightarrow> hd sep \<in> set s"
proof (induction s arbitrary: a b)
  case (Cons c cs)
  show ?case
  proof (cases "HasPrefix (c # cs) sep")
    case True
    then show ?thesis using Cons.prems by (cases sep) (auto simp: HasPrefix_def)
  next
    case False
    then show ?thesis using Cons by auto
  qed
qed simp

lemma find_attrs_none: "quote \<notin> set s \<Longrightarrow> find_attrs s = []"
proof (induction s rule: find_attrs.induct)
  case (1 s)
  show ?case
  proof (cases "s = []")
    case False
    let ?key = "takeWhile key_char s" and ?rest = "dropWhile key_char s"
    have q: "quoted ?rest = None"
    proof (rule ccontr)
      assume "quoted ?rest \<noteq> None"
      then obtain a b where "cut [quote] (drop 2 ?rest) = Some (a, b)"
        by (auto simp: quoted_def split: if_splits)
      then have "quote \<in> set (drop 2 ?rest)" using cut_set by fastforce
      then show False using "1.prems" by (metis in_set_dropD set_dropWhileD)
    qed
    show ?thesis
    proof (cases "?key = []")
      case True
      have "quote \<notin> set (tl s)" using "1.prems" by (metis list.set_sel(2) False)
      with "1.IH"(1) [OF False refl refl True] True False show ?thesis
        by (subst find_attrs.simps) simp
    next
      case nk: False
      have "quote \<notin> set ?rest" using "1.prems" by (metis set_dropWhileD)
      with "1.IH"(2) [OF False refl refl nk q] nk q False show ?thesis
        by (subst find_attrs.simps) (simp add: Let_def)
    qed
  qed (simp add: find_attrs.simps)
qed

lemma find_attrs_skip: "\<not> key_char c \<Longrightarrow> find_attrs (c # s) = find_attrs s"
  by (subst find_attrs.simps) simp

lemma find_attrs_word:
  assumes "w \<noteq> []" "list_all key_char w" "\<not> key_char c" "c \<noteq> CHR ''=''"
  shows "find_attrs (w @ c # s) = find_attrs (c # s)"
proof -
  have "takeWhile key_char (w @ c # s) = w" "dropWhile key_char (w @ c # s) = c # s"
    using assms by (simp_all add: list_all_iff takeWhile_append2 dropWhile_append2)
  moreover have "quoted (c # s) = None" using assms(4) by (simp add: quoted_def HasPrefix_def)
  ultimately show ?thesis using assms(1) by (subst find_attrs.simps) (simp add: Let_def)
qed

definition whole :: "string \<Rightarrow> string \<Rightarrow> string" where
  "whole n v = n @ [CHR ''='', quote] @ v @ [quote]"

lemma find_attrs_pair:
  assumes "n \<noteq> []" "list_all key_char n" "quote \<notin> set v"
  shows "find_attrs (whole n v @ s) = (whole n v, n, v) # find_attrs s"
proof -
  let ?r = "[CHR ''='', quote] @ v @ [quote] @ s"
  have "\<not> key_char (CHR ''='')" by code_simp
  then have "takeWhile key_char (n @ ?r) = n" "dropWhile key_char (n @ ?r) = ?r"
    using assms by (simp_all add: list_all_iff takeWhile_append2 dropWhile_append2)
  moreover have "quoted ?r = Some (v, s)"
    using assms(3) cut_one [of quote v s] by (simp add: quoted_def HasPrefix_def)
  ultimately have "find_attrs (n @ ?r) = (n @ [CHR ''='', quote] @ v @ [quote], n, v) # find_attrs s"
    using assms(1) by (subst find_attrs.simps) (simp add: Let_def)
  then show ?thesis by (simp add: whole_def)
qed

definition spaced :: "(string \<times> string) list \<Rightarrow> string" where
  "spaced ps = concat (map (\<lambda>(n, v). CHR '' '' # whole n v) ps)"

lemma find_attrs_spaced:
  assumes "\<forall>(n, v) \<in> set ps. n \<noteq> [] \<and> list_all key_char n \<and> quote \<notin> set v"
  shows "find_attrs (spaced ps @ s) = map (\<lambda>(n, v). (whole n v, n, v)) ps @ find_attrs s"
  using assms
proof (induction ps)
  case (Cons p ps)
  obtain n v where p: "p = (n, v)" by (cases p)
  have "\<not> key_char (CHR '' '')" by code_simp
  with Cons p show ?case
    by (simp add: spaced_def find_attrs_skip find_attrs_pair)
qed (simp add: spaced_def)

lemma remove_spaced:
  assumes "\<forall>(n, v) \<in> set ps. n \<noteq> [] \<and> hd n \<notin> set pre" "\<forall>(n, v) \<in> set ps. hd n \<noteq> CHR '' ''"
  shows "foldl (\<lambda>rest (n, v). remove_first rest (whole n v)) (pre @ spaced ps @ s) ps
     = pre @ replicate (length ps) (CHR '' '') @ s"
  using assms
proof (induction ps arbitrary: pre)
  case (Cons p ps)
  obtain n v where p: "p = (n, v)" by (cases p)
  have "hd (whole n v) = hd n" "whole n v \<noteq> []" using Cons.prems p by (simp_all add: whole_def)
  then have "cut (whole n v) ((pre @ '' '') @ whole n v @ spaced ps @ s) = Some (pre @ '' '', spaced ps @ s)"
    using Cons.prems p by (intro cut_first) auto
  then have "remove_first (pre @ spaced (p # ps) @ s) (whole n v) = (pre @ '' '') @ spaced ps @ s"
    by (simp add: remove_first_def p spaced_def)
  moreover have "foldl (\<lambda>rest (n, v). remove_first rest (whole n v)) ((pre @ '' '') @ spaced ps @ s) ps
      = (pre @ '' '') @ replicate (length ps) (CHR '' '') @ s"
    using Cons.prems by (intro Cons.IH) auto
  ultimately show ?case by (simp add: p)
qed (simp add: spaced_def)

definition given :: "string \<Rightarrow> string \<Rightarrow> (string \<times> string) list" where
  "given n v = (if v = [] then [] else [(n, v)])"

definition pairs_of :: "StreamInfo \<Rightarrow> (string \<times> string) list" where
  "pairs_of s = given ''tvg-id'' (TvgID s) @ given ''tvg-chno'' (TvgChNo s) @ given ''tvg-logo'' (LogoURL s)
     @ given ''tvg-group'' (Group s) @ given ''group-title'' (Group s) @ given ''tvg-type'' (TvgType s)
     @ given ''tvg-name'' (Title s)"

definition extinf_line :: "StreamInfo \<Rightarrow> string" where
  "extinf_line s = ''#EXTINF:-1'' @ spaced (pairs_of s) @ '','' @ Title s"

lemma join_with_Cons: "join_with sep (p # ps) = p @ concat (map (\<lambda>q. sep @ q) ps)"
  by (induction ps arbitrary: p) simp_all

lemma spaced_append: "spaced (ps @ qs) = spaced ps @ spaced qs"
  by (simp add: spaced_def)

lemma concat_tag: "concat (map (\<lambda>q. '' '' @ q) (tag n v)) = spaced (given n v)"
  by (simp add: tag_def given_def spaced_def whole_def)

text \<open>The entry of a channel is its line, then its URL.\<close>

lemma formatStreamEntry_line:
  "formatStreamEntry E base s = extinf_line s @ [newline] @ GenerateStreamURL E base s @ [newline]"
  unfolding formatStreamEntry_def extInfTags_def extinf_line_def pairs_of_def join_with_Cons
  by (simp only: map_append concat_append concat_tag spaced_append append_assoc)

definition plain :: "string \<Rightarrow> bool" where
  "plain v \<longleftrightarrow> quote \<notin> set v \<and> TrimSpace v = v"

lemma GeneralParser_plain: "quote \<notin> set v \<Longrightarrow> GeneralParser v = v"
  by (cases v) (auto simp: GeneralParser_def HasPrefix_def)

lemma key_names:
  "ToLower (TrimSpace ''tvg-id'') = ''tvg-id''" "ToLower (TrimSpace ''tvg-chno'') = ''tvg-chno''"
  "ToLower (TrimSpace ''tvg-logo'') = ''tvg-logo''" "ToLower (TrimSpace ''tvg-group'') = ''tvg-group''"
  "ToLower (TrimSpace ''group-title'') = ''group-title''" "ToLower (TrimSpace ''tvg-type'') = ''tvg-type''"
  "ToLower (TrimSpace ''tvg-name'') = ''tvg-name''"
  by (simp_all add: TrimSpace_visible visible_def lower_char_def)

text \<open>What the pair of one field does to a channel that does not have it yet.\<close>

definition apply_pairs :: "parse_env \<Rightarrow> StreamInfo \<Rightarrow> (string \<times> string) list \<Rightarrow> StreamInfo" where
  "apply_pairs E s ps = foldl (\<lambda>s (n, v). apply_attr E n v s) s ps"

lemma apply_pairs_append: "apply_pairs E s (ps @ qs) = apply_pairs E (apply_pairs E s ps) qs"
  by (simp add: apply_pairs_def)

lemma apply_given:
  "plain v \<Longrightarrow> TvgID s = [] \<Longrightarrow> apply_pairs E s (given ''tvg-id'' v) = s\<lparr>TvgID := v\<rparr>"
  "plain v \<Longrightarrow> TvgChNo s = [] \<Longrightarrow> apply_pairs E s (given ''tvg-chno'' v) = s\<lparr>TvgChNo := v\<rparr>"
  "plain v \<Longrightarrow> TvgType s = [] \<Longrightarrow> apply_pairs E s (given ''tvg-type'' v) = s\<lparr>TvgType := v\<rparr>"
  "plain v \<Longrightarrow> Group s = [] \<Longrightarrow> apply_pairs E s (given ''tvg-group'' v) = s\<lparr>Group := v\<rparr>"
  "plain v \<Longrightarrow> Group s = v \<Longrightarrow> apply_pairs E s (given ''group-title'' v) = s"
  "plain v \<Longrightarrow> LogoURL s = [] \<Longrightarrow> apply_pairs E s (given ''tvg-logo'' v)
      = s\<lparr>LogoURL := if v = [] then [] else TvgLogoParser E v\<rparr>"
  "plain v \<Longrightarrow> TvgNameParser E v = v \<Longrightarrow> Title s = [] \<Longrightarrow>
      apply_pairs E s (given ''tvg-name'' v) = s\<lparr>Title := v\<rparr>"
  by (cases s; simp add: given_def apply_pairs_def apply_attr_def Let_def key_names plain_def GeneralParser_plain)+

lemma find_attrs_extinf:
  assumes "\<forall>(n, v) \<in> set ps. n \<noteq> [] \<and> list_all key_char n \<and> quote \<notin> set v" "quote \<notin> set t"
  shows "find_attrs (''#EXTINF:-1'' @ spaced ps @ '','' @ t) = map (\<lambda>(n, v). (whole n v, n, v)) ps"
proof -
  let ?tail = "spaced ps @ '','' @ t"
  obtain c r where c: "?tail = c # r" "\<not> key_char c" "c \<noteq> CHR ''=''"
  proof -
    have "\<not> key_char (CHR '' '')" "\<not> key_char (CHR '','')" by code_simp+
    then show thesis
      using that by (cases ps) (auto simp: spaced_def split: prod.splits)
  qed
  have k: "\<not> key_char (CHR ''#'')" "list_all key_char ''EXTINF''" "\<not> key_char (CHR '':'')" "list_all key_char ''-1''"
    by code_simp+
  have "find_attrs (''#EXTINF:-1'' @ ?tail) = find_attrs (''EXTINF'' @ CHR '':'' # ''-1'' @ ?tail)"
    using k(1) by (simp add: find_attrs_skip)
  also have "\<dots> = find_attrs (''-1'' @ ?tail)"
    using k by (subst find_attrs_word) (simp_all add: find_attrs_skip)
  also have "\<dots> = find_attrs ?tail"
    unfolding c(1) using k c(2,3) by (intro find_attrs_word) simp_all
  also have "\<dots> = map (\<lambda>(n, v). (whole n v, n, v)) ps"
  proof -
    have "quote \<noteq> CHR '',''" by code_simp
    then have "find_attrs ('','' @ t) = []" using assms(2) by (intro find_attrs_none) simp
    then show ?thesis by (simp only: find_attrs_spaced [OF assms(1)] append_Nil2)
  qed
  finally show ?thesis .
qed

lemma parse_attrs_split:
  "foldl (\<lambda>(s, rest) (w, k, v). (apply_attr E k v s, remove_first rest w)) (s, r) (map (\<lambda>(n, v). (whole n v, n, v)) ps)
   = (apply_pairs E s ps, foldl (\<lambda>rest (n, v). remove_first rest (whole n v)) r ps)"
  by (induction ps arbitrary: s r) (auto simp: apply_pairs_def)

text \<open>C27. The line of a channel in the merged playlist, parsed as a source line: as long as no value has
  a double quote or outer white space and no title filter is configured, title, identifier, number,
  type and group come back as they were, whatever commas they contain; a logo that is an http link
  does not, it comes back as the relay link made for it, and any other logo comes back as it was.
  The fields the line does not carry (URLs, source, index) come back empty.\<close>

theorem playlist_line_roundtrip:
  assumes "Getenv (pe_environ E) ''TITLE_SUBSTR_FILTER'' = []"
    and "plain (Title s)" "plain (TvgID s)" "plain (TvgChNo s)" "plain (TvgType s)" "plain (LogoURL s)" "plain (Group s)"
  shows "\<exists>rest. formatStreamEntry E base s = extinf_line s @ [newline] @ rest
    \<and> parse_title E (extinf_line s) = s\<lparr>URLs := Some [], SourceM3U := [], SourceIndex := 0,
        LogoURL := (if LogoURL s = [] then [] else TvgLogoParser E (LogoURL s))\<rparr>
    \<and> ((\<forall>scheme host. url_origin E (LogoURL s) = Some (scheme, host) \<longrightarrow> scheme \<notin> {''http'', ''https''} \<or> host = [])
        \<longrightarrow> parse_title E (extinf_line s) = s\<lparr>URLs := Some [], SourceM3U := [], SourceIndex := 0\<rparr>)"
proof -
  let ?ps = "pairs_of s"
  have q: "\<forall>(n, v) \<in> set ?ps. n \<noteq> [] \<and> list_all key_char n \<and> quote \<notin> set v"
  proof -
    have "list_all (\<lambda>n. n \<noteq> [] \<and> list_all key_char n)
        [''tvg-id'', ''tvg-chno'', ''tvg-logo'', ''tvg-group'', ''group-title'', ''tvg-type'', ''tvg-name'']"
      by code_simp
    with assms(2-) show ?thesis by (auto simp: pairs_of_def given_def plain_def split: if_splits)
  qed
  have hd: "\<forall>(n, v) \<in> set ?ps. n \<noteq> [] \<and> hd n \<notin> set ''#EXTINF:-1''" "\<forall>(n, v) \<in> set ?ps. hd n \<noteq> CHR '' ''"
    by (auto simp: pairs_of_def given_def split: if_splits)
  have title: "quote \<notin> set (Title s)" using assms(2) by (simp add: plain_def)
  have name: "TvgNameParser E (Title s) = Title s"
    using assms(1,2) by (simp add: TvgNameParser_def GeneralParser_plain plain_def)
  let ?s = "apply_pairs E empty_stream ?ps"
  have attrs: "?s = s\<lparr>URLs := Some [], SourceM3U := [], SourceIndex := 0,
      LogoURL := (if LogoURL s = [] then [] else TvgLogoParser E (LogoURL s))\<rparr>"
    using assms(2-) name
    by (cases s) (simp add: pairs_of_def apply_pairs_append apply_given empty_stream_def)
  have "parse_attrs E (extinf_line s)
      = (?s, ''#EXTINF:-1'' @ replicate (length ?ps) (CHR '' '') @ '','' @ Title s)"
    unfolding parse_attrs_def extinf_line_def find_attrs_extinf [OF q title] parse_attrs_split
      remove_spaced [OF hd] ..
  moreover have "cut '','' ((''#EXTINF:-1'' @ replicate (length ?ps) (CHR '' '')) @ '','' @ Title s)
      = Some (''#EXTINF:-1'' @ replicate (length ?ps) (CHR '' ''), Title s)"
    by (rule cut_first) auto
  ultimately have "parse_title E (extinf_line s) = ?s\<lparr>Title := TvgNameParser E (TrimSpace (Title s))\<rparr>"
    by (simp add: parse_title_def SplitN2_def)
  also have "\<dots> = ?s" using assms(2) name attrs by (simp add: plain_def)
  finally have parsed: "parse_title E (extinf_line s) = ?s" .
  have "TvgLogoParser E (LogoURL s) = LogoURL s"
    if "\<forall>scheme host. url_origin E (LogoURL s) = Some (scheme, host) \<longrightarrow> scheme \<notin> {''http'', ''https''} \<or> host = []"
    using that assms(6) by (auto simp: TvgLogoParser_def GeneralParser_plain plain_def Let_def split: option.split)
  then have "?s = s\<lparr>URLs := Some [], SourceM3U := [], SourceIndex := 0\<rparr>"
    if "\<forall>scheme host. url_origin E (LogoURL s) = Some (scheme, host) \<longrightarrow> scheme \<notin> {''http'', ''https''} \<or> host = []"
    using that attrs by (cases s) simp
  with parsed attrs formatStreamEntry_line show ?thesis by metis
qed

definition plain_env :: parse_env where
  "plain_env = \<lparr>pe_environ = [(''M3U_URL_1'', ''http://a''), (''M3U_URL_10'', ''http://b'')],
     regex_delete = \<lambda>_. None, url_origin = \<lambda>_. None, url_path = \<lambda>_. None, join_path = \<lambda>_ _. None,
     sha3_hex = \<lambda>s. ''abc'' @ s, slug_codec = single_codec (empty_stream\<lparr>Title := ''News'', URLs := None\<rparr>), arrival = \<lambda>ps. ps\<rparr>"

theorem playlist_line_roundtrip_witness:
  "let s = empty_stream\<lparr>Title := ''News, 24'', Group := ''A,B'', TvgChNo := ''7''\<rparr> in
   \<exists>rest. formatStreamEntry plain_env ''http://h'' s = extinf_line s @ [newline] @ rest
    \<and> parse_title plain_env (extinf_line s) = s"
proof -
  let ?s = "empty_stream\<lparr>Title := ''News, 24'', Group := ''A,B'', TvgChNo := ''7''\<rparr>"
  have v: "plain ''News, 24'' \<and> plain ''A,B'' \<and> plain ''7'' \<and> plain []"
    by (simp add: plain_def quote_def TrimSpace_visible visible_def)
  have "Getenv (pe_environ plain_env) ''TITLE_SUBSTR_FILTER'' = []"
    by (simp add: plain_env_def Getenv_def LookupEnv_def)
  from playlist_line_roundtrip [OF this, of ?s "''http://h''"] v show ?thesis
    by (simp add: empty_stream_def)
qed

end
