(* ===== verification/Failover.thy ===== *)
theory Failover
  imports StreamHandler Parser
begin

text \<open>
  \<^verbatim>\<open>proxy/stream/failovers\<close>: a source that answers with a playlist is passed on line by line, each
  URL replaced by one of this server that carries the segment in its path.

  The JSON and compression libraries behind the slug of a segment are an argument, as is \<open>net/url\<close>.
  Every line makes at most one write; what it is answered is given by the number of the line.
\<close>

record M3U8Segment =
  SegURL :: string
  SegSource :: string

record seg_env =
  sg_env :: parse_env
  sg_urls :: url_lib
  seg_codec :: "M3U8Segment codec"

definition generateSegmentURL :: "seg_env \<Rightarrow> M3U8Segment \<Rightarrow> string" where
  "generateSegmentURL E s =
     (let baseUrl = DetermineBaseURL (pe_environ (sg_env E)) None;
          extension = (case GetFileExtensionFromUrl (sg_env E) (SegURL s) of None \<Rightarrow> [] | Some x \<Rightarrow> x)
      in baseUrl @ ''/segment/'' @ encodeSlug (seg_codec E) s @ extension)"

definition ParseSegmentId :: "seg_env \<Rightarrow> string \<Rightarrow> go_error + M3U8Segment" where
  "ParseSegmentId E i = decodeSlug (seg_codec E) i"

definition writeLine :: "nat \<times> go_error option \<Rightarrow> string \<Rightarrow> StreamClient \<Rightarrow> (go_error option \<times> StreamClient) outcome" where
  "writeLine answer line sc = bind_outcome (Write_client (line @ [newline]) answer sc) (\<lambda>((n, err), sc').
     Ok (case err of None \<Rightarrow> None | Some e \<Rightarrow> Some (Errorf ''write line error''), sc'))"

definition rewritten :: "seg_env \<Rightarrow> LoadBalancerResult \<Rightarrow> string \<Rightarrow> string \<Rightarrow> string" where
  "rewritten E lb base line =
     (if \<not> url_ok (sg_urls E) line then line
      else generateSegmentURL E
        \<lparr>SegURL = (if url_IsAbs (sg_urls E) line then url_String (sg_urls E) line else url_Resolve (sg_urls E) base line),
         SegSource = lbIndex lb @ ''|'' @ lbSubIndex lb\<rparr>)"

definition processURL ::
    "seg_env \<Rightarrow> LoadBalancerResult \<Rightarrow> string \<Rightarrow> string \<Rightarrow> nat \<times> go_error option \<Rightarrow> StreamClient
      \<Rightarrow> (go_error option \<times> StreamClient) outcome" where
  "processURL E lb base line answer sc = writeLine answer (rewritten E lb base line) sc"

definition processLine ::
    "seg_env \<Rightarrow> LoadBalancerResult \<Rightarrow> string \<Rightarrow> string \<Rightarrow> nat \<times> go_error option \<Rightarrow> StreamClient
      \<Rightarrow> (go_error option \<times> StreamClient) outcome" where
  "processLine E lb base line answer sc =
     (if line = [] then Ok (None, sc)
      else if hd line = CHR ''#'' then writeLine answer line sc
      else processURL E lb base line answer sc)"

fun process_lines ::
    "seg_env \<Rightarrow> LoadBalancerResult \<Rightarrow> string \<Rightarrow> (nat \<Rightarrow> nat \<times> go_error option) \<Rightarrow> nat \<Rightarrow> string list \<Rightarrow> StreamClient
      \<Rightarrow> (go_error option \<times> StreamClient) outcome" where
  "process_lines E lb base answers k [] sc = Ok (None, sc)"
| "process_lines E lb base answers k (l # ls) sc =
     bind_outcome (processLine E lb base l (answers k) sc) (\<lambda>(err, sc').
       case err of
         Some e \<Rightarrow> Ok (Some (Errorf ''process line error''), sc')
       | None \<Rightarrow> process_lines E lb base answers (Suc k) ls sc')"

text \<open>The scanner's own error, a line that is too long, is not looked at.\<close>

definition ProcessM3U8Stream ::
    "seg_env \<Rightarrow> LoadBalancerResult \<Rightarrow> string \<Rightarrow> (nat \<Rightarrow> nat \<times> go_error option) \<Rightarrow> StreamClient
      \<Rightarrow> (go_error option \<times> StreamClient) outcome" where
  "ProcessM3U8Stream E lb body answers sc =
     (let resp = lbResponse lb in
      if RequestPath resp = None then Panic ''nil pointer dereference''
      else if \<not> url_ok (sg_urls E) (RequestURL resp) then Ok (Some (Errorf (url_error (sg_urls E) (RequestURL resp))), sc)
      else process_lines E lb (RequestURL resp) answers 0 (fst (scan_lines body))
             (SetHeader ''Content-Type'' (header_Get (RespHeader resp) ''Content-Type'') sc))"

section \<open>The playlist the client gets\<close>

text \<open>What a line of the source becomes; an empty line vanishes.\<close>

definition line_out :: "seg_env \<Rightarrow> LoadBalancerResult \<Rightarrow> string \<Rightarrow> string \<Rightarrow> string" where
  "line_out E lb base line =
     (if line = [] then [] else (if hd line = CHR ''#'' then line else rewritten E lb base line) @ [newline])"

lemma writeLine_ok:
  assumes "IsWritable sc" "answer = (length line + 1, None)"
  shows "\<exists>sc'. writeLine answer line sc = Ok (None, sc') \<and> IsWritable sc'
    \<and> client_body sc' = client_body sc @ line @ [newline]"
proof -
  obtain sc' where "Write_client (line @ [newline]) answer sc = Ok (answer, sc')" "IsWritable sc'"
      "client_body sc' = client_body sc @ take (fst answer) (line @ [newline])"
    by (rule Write_client_ok [OF assms(1)])
  then show ?thesis by (simp add: writeLine_def assms(2))
qed

lemma process_lines_ok:
  assumes "IsWritable sc" and "\<forall>k < length ls. answers (k0 + k) = (length (line_out E lb base (ls ! k)), None)"
  shows "\<exists>sc'. process_lines E lb base answers k0 ls sc = Ok (None, sc') \<and> IsWritable sc'
    \<and> client_body sc' = client_body sc @ concat (map (line_out E lb base) ls)"
  using assms
proof (induction ls arbitrary: k0 sc)
  case (Cons l ls)
  have a: "answers k0 = (length (line_out E lb base l), None)" using Cons.prems(2) by force
  obtain sc1 where sc1: "processLine E lb base l (answers k0) sc = Ok (None, sc1)" "IsWritable sc1"
      "client_body sc1 = client_body sc @ line_out E lb base l"
  proof (cases "l = []")
    case True
    with Cons.prems(1) that show ?thesis by (simp add: processLine_def line_out_def)
  next
    case False
    let ?t = "if hd l = CHR ''#'' then l else rewritten E lb base l"
    have "answers k0 = (length ?t + 1, None)" using a False by (simp add: line_out_def)
    from writeLine_ok [OF Cons.prems(1) this] that False show ?thesis
      by (auto simp: processLine_def processURL_def line_out_def split: if_splits)
  qed
  have "\<forall>k < length ls. answers (Suc k0 + k) = (length (line_out E lb base (ls ! k)), None)"
    using Cons.prems(2) by (auto dest: spec [of _ "Suc _"])
  from Cons.IH [OF sc1(2) this] sc1(1,3) show ?case by auto
qed simp

lemma ProcessM3U8Stream_ok:
  assumes "IsWritable sc" "RequestPath (lbResponse lb) \<noteq> None" "url_ok (sg_urls E) (RequestURL (lbResponse lb))"
    and "scan_lines body = (ls, None)"
    and "\<forall>k < length ls. answers k = (length (line_out E lb (RequestURL (lbResponse lb)) (ls ! k)), None)"
  shows "\<exists>sc'. ProcessM3U8Stream E lb body answers sc = Ok (None, sc')
    \<and> client_body sc' = client_body sc @ concat (map (line_out E lb (RequestURL (lbResponse lb))) ls)"
proof -
  let ?sc = "SetHeader ''Content-Type'' (header_Get (RespHeader (lbResponse lb)) ''Content-Type'') sc"
  have "IsWritable ?sc" "client_body ?sc = client_body sc"
    using assms(1) by (simp_all add: SetHeader_def IsWritable_def client_body_def)
  with process_lines_ok [of ?sc ls answers 0 E lb "RequestURL (lbResponse lb)"] assms(2-5) show ?thesis
    by (auto simp: ProcessM3U8Stream_def Let_def)
qed

text \<open>A playlist passed on to a client that takes every write arrives whole: every line that is
  not empty, in order, comments unchanged and every URL, made absolute, replaced by a link to this
  server.\<close>

theorem playlist_is_rewritten:
  assumes "IsWritable sc" "RequestPath (lbResponse lb) \<noteq> None" "url_ok (sg_urls E) (RequestURL (lbResponse lb))"
    and "scan_lines body = (ls, None)"
    and "\<forall>k < length ls. answers k = (length (line_out E lb (RequestURL (lbResponse lb)) (ls ! k)), None)"
  shows "\<exists>sc'. ProcessM3U8Stream E lb body answers sc = Ok (None, sc')
    \<and> client_body sc' = client_body sc @ concat (map (line_out E lb (RequestURL (lbResponse lb))) ls)"
  using assms by (rule ProcessM3U8Stream_ok)

definition sample_seg_env :: seg_env where
  "sample_seg_env = \<lparr>sg_env = plain_env, sg_urls = sample_urls,
     seg_codec = single_codec \<lparr>SegURL = ''http://h/a.ts'', SegSource = ''1|a''\<rparr>\<rparr>"

definition playlist_lb :: LoadBalancerResult where
  "playlist_lb = \<lparr>lbResponse = \<lparr>StatusCode = 200, RespHeader = [], RequestPath = Some ''/l.m3u8'', RequestURL = ''http://h/l.m3u8''\<rparr>,
     lbURL = ''http://h/l.m3u8'', lbIndex = ''1'', lbSubIndex = ''a''\<rparr>"

definition sample_answers :: "nat \<Rightarrow> nat \<times> go_error option" where
  "sample_answers k = (if k = 0 then (8, None) else (13, None))"

lemma sample_slug: "encodeSlug (single_codec y) s = ''e30''"
  by (simp add: encodeSlug_def single_codec_def RawEncode_def Let_def pack3_def zero_byte_def URLAlphabet_def alphabet62_def)

lemma sample_out:
  "line_out sample_seg_env playlist_lb (RequestURL (lbResponse playlist_lb)) ''#EXTM3U'' = ''#EXTM3U'' @ [newline]"
  "line_out sample_seg_env playlist_lb (RequestURL (lbResponse playlist_lb)) ''a.ts'' = ''/segment/e30'' @ [newline]"
  by (simp_all add: sample_slug line_out_def rewritten_def sample_seg_env_def sample_urls_def generateSegmentURL_def
      DetermineBaseURL_def LookupEnv_def plain_env_def GetFileExtensionFromUrl_def)

lemma sample_client_ready:
  "IsWritable sample_client" "RequestPath (lbResponse playlist_lb) \<noteq> None"
  "url_ok (sg_urls sample_seg_env) (RequestURL (lbResponse playlist_lb))" "client_body sample_client = []"
  by (simp_all add: sample_client_def NewStreamClient_def IsWritable_def playlist_lb_def sample_seg_env_def
      sample_urls_def client_body_def)

lemma sample_answers_fit:
  "\<forall>k < length [''#EXTM3U'', ''a.ts'']. sample_answers k =
     (length (line_out sample_seg_env playlist_lb (RequestURL (lbResponse playlist_lb)) ([''#EXTM3U'', ''a.ts''] ! k)), None)"
  by (simp add: sample_out less_Suc_eq all_conj_distrib imp_conjR numeral_2_eq_2 sample_answers_def)

theorem playlist_is_rewritten_witness:
  "\<exists>sc'. ProcessM3U8Stream sample_seg_env playlist_lb sample_playlist sample_answers sample_client = Ok (None, sc')
    \<and> client_body sc' = ''#EXTM3U'' @ [newline] @ ''/segment/e30'' @ [newline]"
  using playlist_is_rewritten [OF sample_client_ready(1-3) sample_lines sample_answers_fit]
  by (simp add: sample_out sample_client_ready(4))

end
