(* ===== verification/Correlation.thy ===== *)
theory Correlation
  imports StreamClient
begin

text \<open>
  \<^verbatim>\<open>correlation/context.go\<close>, \<^verbatim>\<open>correlation/middleware.go\<close> and the copy of both in
  \<^verbatim>\<open>utils/correlation.go\<close>: the correlation ID of a request, kept in its context.

  A context maps keys to values, and a key of an unexported type is equal only to a key of the same
  type: the two packages declare a type each, so their keys differ although the texts are the
  same.
\<close>

datatype context_key = CorrelationKey string | UtilsKey string

type_synonym ctx_values = "(context_key \<times> string) list"

definition CorrelationIDKey :: context_key where
  "CorrelationIDKey = CorrelationKey ''correlation_id''"

definition WithCorrelationID :: "ctx_values \<Rightarrow> string \<Rightarrow> ctx_values" where
  "WithCorrelationID ctx i = (CorrelationIDKey, i) # ctx"

definition CorrelationIDFromContext :: "ctx_values \<Rightarrow> string option" where
  "CorrelationIDFromContext ctx = map_of ctx CorrelationIDKey"

definition utils_CorrelationIDKey :: context_key where
  "utils_CorrelationIDKey = UtilsKey ''correlation_id''"

definition utils_WithCorrelationID :: "ctx_values \<Rightarrow> string \<Rightarrow> ctx_values" where
  "utils_WithCorrelationID ctx i = (utils_CorrelationIDKey, i) # ctx"

definition utils_CorrelationIDFromContext :: "ctx_values \<Rightarrow> string option" where
  "utils_CorrelationIDFromContext ctx = map_of ctx utils_CorrelationIDKey"

text \<open>
  The middleware gives the next handler a request with a new context and a writer with a new
  header; \<open>fresh\<close> is the UUID generated when the client sent no ID.
\<close>

definition correlation_id :: "string \<Rightarrow> header \<Rightarrow> string" where
  "correlation_id fresh h =
     (let i = header_Get h ''X-Correlation-ID'' in if i = [] then fresh else i)"

definition Middleware :: "string \<Rightarrow> (ctx_values \<Rightarrow> Writer \<Rightarrow> 'r) \<Rightarrow> header \<Rightarrow> ctx_values \<Rightarrow> Writer \<Rightarrow> 'r" where
  "Middleware fresh handler h ctx w =
     (let i = correlation_id fresh h
      in handler (WithCorrelationID ctx i) (w\<lparr>wHeader := header_Set (wHeader w) ''X-Correlation-ID'' i\<rparr>))"

definition utils_Middleware :: "string \<Rightarrow> (ctx_values \<Rightarrow> Writer \<Rightarrow> 'r) \<Rightarrow> header \<Rightarrow> ctx_values \<Rightarrow> Writer \<Rightarrow> 'r" where
  "utils_Middleware fresh handler h ctx w =
     (let i = correlation_id fresh h
      in handler (utils_WithCorrelationID ctx i) (w\<lparr>wHeader := header_Set (wHeader w) ''X-Correlation-ID'' i\<rparr>))"

lemma found_by_its_own_package [simp]:
  "CorrelationIDFromContext (WithCorrelationID ctx i) = Some i"
  "utils_CorrelationIDFromContext (utils_WithCorrelationID ctx i) = Some i"
  by (simp_all add: CorrelationIDFromContext_def WithCorrelationID_def utils_CorrelationIDFromContext_def utils_WithCorrelationID_def)

lemma not_found_by_the_other [simp]:
  "utils_CorrelationIDFromContext (WithCorrelationID ctx i) = utils_CorrelationIDFromContext ctx"
  "CorrelationIDFromContext (utils_WithCorrelationID ctx i) = CorrelationIDFromContext ctx"
  by (simp_all add: CorrelationIDFromContext_def WithCorrelationID_def utils_CorrelationIDFromContext_def
      utils_WithCorrelationID_def CorrelationIDKey_def utils_CorrelationIDKey_def)

end
