(* ===== verification/HttpClient.thy ===== *)
theory HttpClient
  imports Correlation
begin

text \<open>
  The requests the program itself makes (\<^verbatim>\<open>utils/http.go\<close>, \<open>GetEnv\<close> of \<^verbatim>\<open>utils/env.go\<close>), and the
  fingerprints and checksums of \<^verbatim>\<open>utils/fingerprint.go\<close> and \<^verbatim>\<open>utils/checksum.go\<close>.

  What \<open>http.NewRequest\<close> accepts and what the server answers are arguments, as is SHA-256 in
  hexadecimal.
\<close>

record out_request =
  oq_method :: string
  oq_url :: string
  oq_header :: header
  oq_ctx :: ctx_values

definition GetEnv :: "environ \<Rightarrow> string \<Rightarrow> string" where
  "GetEnv env key =
     (if key = ''USER_AGENT'' then
        (case LookupEnv env ''USER_AGENT'' of
           None \<Rightarrow> ''IPTV Smarters/1.0.3 (iPad; iOS 16.6.1; Scale/2.00)''
         | Some userAgent \<Rightarrow> userAgent)
      else [])"

definition with_id :: "ctx_values \<Rightarrow> header \<Rightarrow> header" where
  "with_id ctx h = (case CorrelationIDFromContext ctx of
     None \<Rightarrow> h | Some i \<Rightarrow> header_Set h ''X-Correlation-ID'' i)"

text \<open>The redirect policy of \<open>HTTPClient\<close> changes the headers of the next request and always follows.\<close>

definition CheckRedirect :: "environ \<Rightarrow> out_request \<Rightarrow> out_request" where
  "CheckRedirect env req =
     req\<lparr>oq_header := with_id (oq_ctx req) (header_Set (oq_header req) ''User-Agent'' (GetEnv env ''USER_AGENT''))\<rparr>"

definition CustomHttpRequest ::
    "environ \<Rightarrow> (string \<Rightarrow> string \<Rightarrow> bool) \<Rightarrow> (out_request \<Rightarrow> go_error + Response) \<Rightarrow> string \<Rightarrow> string
      \<Rightarrow> go_error + Response" where
  "CustomHttpRequest env new_ok send mthd url =
     (if \<not> new_ok mthd url then Inl (Errorf ''http.NewRequest'')
      else send \<lparr>oq_method = mthd, oq_url = url,
                 oq_header = header_Set [] ''User-Agent'' (GetEnv env ''USER_AGENT''), oq_ctx = []\<rparr>)"

definition CustomHttpRequestWithContext ::
    "environ \<Rightarrow> (string \<Rightarrow> string \<Rightarrow> bool) \<Rightarrow> (out_request \<Rightarrow> go_error + Response) \<Rightarrow> ctx_values \<Rightarrow> string \<Rightarrow> string
      \<Rightarrow> go_error + Response" where
  "CustomHttpRequestWithContext env new_ok send ctx mthd url =
     (if \<not> new_ok mthd url then Inl (Errorf ''http.NewRequest'')
      else send \<lparr>oq_method = mthd, oq_url = url,
                 oq_header = with_id ctx (header_Set [] ''User-Agent'' (GetEnv env ''USER_AGENT'')), oq_ctx = ctx\<rparr>)"

section \<open>Who a request says it is\<close>

text \<open>The server sees the configured agent and the ID of the client's request, also after any
  number of redirects, whatever the client did to the headers between them.\<close>

definition introduces :: "environ \<Rightarrow> ctx_values \<Rightarrow> out_request \<Rightarrow> bool" where
  "introduces env ctx req \<longleftrightarrow> header_Get (oq_header req) ''User-Agent'' = GetEnv env ''USER_AGENT''
     \<and> (\<forall>i. CorrelationIDFromContext ctx = Some i \<longrightarrow> header_Get (oq_header req) ''X-Correlation-ID'' = i)"

lemma with_id_agent: "header_Get (with_id ctx h) ''User-Agent'' = header_Get h ''User-Agent''"
  by (simp add: with_id_def split: option.split)

lemma with_id_id: "CorrelationIDFromContext ctx = Some i \<Longrightarrow> header_Get (with_id ctx h) ''X-Correlation-ID'' = i"
  by (simp add: with_id_def)

lemma redirect_introduces: "introduces env (oq_ctx req) (CheckRedirect env req)"
  by (simp add: introduces_def CheckRedirect_def with_id_agent with_id_id)

lemma every_request_introduces_itself:
  assumes "new_ok mthd url"
  shows "\<exists>req. CustomHttpRequestWithContext env new_ok send ctx mthd url = send req \<and> introduces env ctx req
    \<and> oq_url req = url \<and> oq_method req = mthd"
  using assms by (force simp: CustomHttpRequestWithContext_def introduces_def with_id_agent with_id_id)

section \<open>Fingerprints\<close>

definition CalculateChecksum :: "(string \<Rightarrow> string) \<Rightarrow> string \<Rightarrow> string" where
  "CalculateChecksum sha256_hex data = sha256_hex data"

record fp_request =
  fp_addr :: string
  fp_header :: header
  fp_path :: string

definition client_ip :: "fp_request \<Rightarrow> string" where
  "client_ip r =
     (let ip = SplitChar (CHR '':'') (fp_addr r) ! 0; xff = header_Get (fp_header r) ''X-Forwarded-For''
      in if xff \<noteq> [] then xff else ip)"

definition GenerateFingerprint :: "(string \<Rightarrow> string) \<Rightarrow> fp_request \<Rightarrow> string" where
  "GenerateFingerprint sha256_hex r =
     sha256_hex (client_ip r @ ''|'' @ header_Get (fp_header r) ''User-Agent'' @ ''|''
       @ header_Get (fp_header r) ''Accept'' @ ''|'' @ header_Get (fp_header r) ''Accept-Language'' @ ''|'' @ fp_path r)"

text \<open>The port does not matter; of an address in brackets only the first group is left.\<close>

lemma client_ip_drops_port:
  "CHR '':'' \<notin> set host \<Longrightarrow> header_Get (fp_header r) ''X-Forwarded-For'' = [] \<Longrightarrow> fp_addr r = host @ CHR '':'' # port
    \<Longrightarrow> client_ip r = host"
proof -
  assume a: "CHR '':'' \<notin> set host" "header_Get (fp_header r) ''X-Forwarded-For'' = []" "fp_addr r = host @ CHR '':'' # port"
  have "SplitChar (CHR '':'') (fp_addr r) ! 0 = takeWhile (\<lambda>c. c \<noteq> CHR '':'') (fp_addr r)"
    by (simp add: hd_SplitChar hd_conv_nth [symmetric])
  also have "\<dots> = host" using a(1,3) by (subst a(3), subst takeWhile_append2) auto
  finally show ?thesis using a(2) by (simp add: client_ip_def)
qed

end
