(* ===== verification/Relay.thy ===== *)
theory Relay
  imports HttpClient Base64
begin

text \<open>
  \<open>io.Copy\<close>, with which a response's body goes to a client, and \<^verbatim>\<open>handlers/passthrough_http.go\<close>,
  which fetches the URL in its path and passes the answer on.

  A copy runs over a script of the source's reads (data, error) with what the write of that data
  answers; a script that ends leaves it running.
\<close>

record copy_tick =
  cp_data :: string
  cp_err :: "go_error option"
  cp_answer :: "nat \<times> go_error option"

fun io_Copy :: "(string \<Rightarrow> nat \<times> go_error option \<Rightarrow> 's \<Rightarrow> ((nat \<times> go_error option) \<times> 's) outcome)
    \<Rightarrow> copy_tick list \<Rightarrow> int \<Rightarrow> 's \<Rightarrow> ((int \<times> go_error option) option \<times> 's) outcome" where
  "io_Copy wr [] n s = Ok (None, s)"
| "io_Copy wr (t # ts) n s =
     (let next_read = (\<lambda>n s. case cp_err t of
              None \<Rightarrow> io_Copy wr ts n s
            | Some e \<Rightarrow> Ok (Some (n, if e = EOF then None else Some e), s)) in
      if cp_data t = [] then next_read n s
      else bind_outcome (wr (cp_data t) (cp_answer t) s) (\<lambda>((m, err), s').
        let bad = length (cp_data t) < m;
            nw = (if bad then 0 else m);
            ew = (if bad \<and> err = None then Some (Errorf ''invalid write result'') else err);
            n' = int64 (n + int nw)
        in case ew of
             Some e \<Rightarrow> Ok (Some (n', Some e), s')
           | None \<Rightarrow> if nw \<noteq> length (cp_data t) then Ok (Some (n', Some (Errorf ''short write'')), s')
                     else next_read n' s'))"

text \<open>Reads and writes without an error, up to the end of the source.\<close>

definition whole_copy :: "copy_tick list \<Rightarrow> bool" where
  "whole_copy ts \<longleftrightarrow> ts \<noteq> [] \<and> (\<forall>t \<in> set ts. cp_answer t = (length (cp_data t), None))
     \<and> (\<forall>t \<in> set (butlast ts). cp_err t = None) \<and> cp_err (last ts) = Some EOF"

definition copied :: "copy_tick list \<Rightarrow> string" where
  "copied ts = concat (map cp_data ts)"

text \<open>
  What the copy relies on: a write that accepts everything appends it, leaves the rest of the
  destination (\<open>frame\<close>) alone, and the destination ready for the next one.
\<close>

locale byte_sink =
  fixes wr :: "string \<Rightarrow> nat \<times> go_error option \<Rightarrow> 's \<Rightarrow> ((nat \<times> go_error option) \<times> 's) outcome"
    and ready :: "'s \<Rightarrow> bool"
    and content :: "'s \<Rightarrow> string"
    and frame :: "'s \<Rightarrow> 'f"
  assumes accept: "ready s \<Longrightarrow> \<exists>s'. wr d (length d, None) s = Ok ((length d, None), s')
    \<and> ready s' \<and> content s' = content s @ d \<and> frame s' = frame s"
begin

lemma copy_all:
  "ready s \<Longrightarrow> whole_copy ts \<Longrightarrow> \<exists>n' s'. io_Copy wr ts n s = Ok (Some (n', None), s')
    \<and> content s' = content s @ copied ts \<and> frame s' = frame s"
proof (induction ts arbitrary: n s)
  case Nil
  then show ?case by (simp add: whole_copy_def)
next
  case (Cons t ts)
  have a: "cp_answer t = (length (cp_data t), None)" using Cons.prems(2) by (simp add: whole_copy_def)
  have rest: "\<exists>n' s'. (case cp_err t of None \<Rightarrow> io_Copy wr ts n s
        | Some e \<Rightarrow> Ok (Some (n, if e = EOF then None else Some e), s)) = Ok (Some (n', None), s')
      \<and> content s' = content s @ copied ts \<and> frame s' = frame s" if "ready s" for n s
  proof (cases "ts = []")
    case True
    with Cons.prems(2) show ?thesis by (simp add: whole_copy_def copied_def)
  next
    case False
    with Cons.prems(2) have "whole_copy ts" "cp_err t = None" by (simp_all add: whole_copy_def)
    with Cons.IH [OF that this(1)] show ?thesis by simp
  qed
  show ?case
  proof (cases "cp_data t = []")
    case True
    with rest [OF Cons.prems(1)] show ?thesis by (simp add: copied_def)
  next
    case False
    obtain s1 where s1: "wr (cp_data t) (length (cp_data t), None) s = Ok ((length (cp_data t), None), s1)"
      "ready s1" "content s1 = content s @ cp_data t" "frame s1 = frame s"
      using accept [OF Cons.prems(1)] by blast
    with rest [OF s1(2), of "int64 (n + int (length (cp_data t)))"] False show ?thesis
      by (simp add: a Let_def copied_def)
  qed
qed

end

text \<open>The stream client once its headers are out.\<close>

interpretation client_sink: byte_sink Write_client "\<lambda>sc. IsWritable sc \<and> HeadersSent sc" client_body client_status
proof
  fix sc d
  assume "IsWritable sc \<and> HeadersSent sc"
  then have w: "IsWritable sc" "HeadersSent sc" by simp_all
  show "\<exists>sc'. Write_client d (length d, None) sc = Ok ((length d, None), sc')
      \<and> (IsWritable sc' \<and> HeadersSent sc') \<and> client_body sc' = client_body sc @ d \<and> client_status sc' = client_status sc"
    using Write_client_ok [OF w(1), of d "(length d, None)"] w(2) by fastforce
qed

text \<open>A response writer that has a status.\<close>

interpretation writer_sink: byte_sink w_Write "\<lambda>w. wStatus w \<noteq> []" wBody "\<lambda>w. (wHeader w, wStatus w)"
  by unfold_locales (simp add: w_Write_def)

section \<open>The passthrough handler\<close>

record pt_request =
  pt_method :: string
  pt_path :: string
  pt_header :: header
  pt_body :: string
  pt_context :: ctx_values

text \<open>
  From outside come the environment, whether \<open>http.NewRequest\<close> accepts a method and a URL, and what
  \<open>Do\<close> of an HTTP client returns for a request and its body: the client is given by its redirect
  policy, which \<open>Do\<close> applies to the request for each further hop.  The program's client has the
  policy \<open>CheckRedirect\<close>, which sees the context of the request.
\<close>

record upstream =
  up_environ :: environ
  new_request_ok :: "string \<Rightarrow> string \<Rightarrow> bool"
  do_request :: "(out_request \<Rightarrow> out_request) \<Rightarrow> out_request \<Rightarrow> string \<Rightarrow> go_error + (Response \<times> copy_tick list)"

definition onward_header :: "pt_request \<Rightarrow> header" where
  "onward_header r = (case utils_CorrelationIDFromContext (pt_context r) of
     None \<Rightarrow> pt_header r | Some cid \<Rightarrow> header_Set (pt_header r) ''X-Correlation-ID'' cid)"

definition onward_request :: "pt_request \<Rightarrow> string \<Rightarrow> out_request" where
  "onward_request r url =
     \<lparr>oq_method = pt_method r, oq_url = url, oq_header = onward_header r, oq_ctx = pt_context r\<rparr>"

definition Passthrough_ServeHTTP :: "upstream \<Rightarrow> pt_request \<Rightarrow> Writer \<Rightarrow> Writer outcome" where
  "Passthrough_ServeHTTP U r w =
     (if \<not> HasPrefix (pt_path r) ''/a/'' then Ok (http_Error ''Invalid URL provided'' 400 w)
      else let encodedURL = drop (length ''/a/'') (pt_path r) in
        if encodedURL = [] then Ok (http_Error ''No URL provided'' 400 w)
        else case DecodeString URLAlphabet encodedURL of
          None \<Rightarrow> Ok (http_Error ''Failed to decode original URL'' 400 w)
        | Some originalURL \<Rightarrow>
            if \<not> new_request_ok U (pt_method r) originalURL then Ok (http_Error ''Error creating request'' 500 w)
            else case do_request U (CheckRedirect (up_environ U)) (onward_request r originalURL) (pt_body r) of
              Inl e \<Rightarrow> Ok (http_Error ''Error fetching the requested resource'' 502 w)
            | Inr (resp, reads) \<Rightarrow>
                bind_outcome (io_Copy w_Write reads 0
                    (w_WriteHeader (StatusCode resp) (w\<lparr>wHeader := add_all (RespHeader resp) (wHeader w)\<rparr>)))
                  (\<lambda>(n, w'). Ok w'))"

text \<open>The handler as \<^verbatim>\<open>main.go\<close> registers it under \<^verbatim>\<open>/a/\<close>, for a request that has just arrived.\<close>

definition serve_passthrough :: "upstream \<Rightarrow> string \<Rightarrow> pt_request \<Rightarrow> Writer \<Rightarrow> Writer outcome" where
  "serve_passthrough U fresh r w =
     Middleware fresh (\<lambda>ctx. Passthrough_ServeHTTP U (r\<lparr>pt_context := ctx\<rparr>)) (pt_header r) [] w"

lemma passthrough_answer:
  assumes "u \<noteq> []" "pt_path r = ''/a/'' @ EncodeToString URLAlphabet u" "new_request_ok U (pt_method r) u"
    and "do_request U (CheckRedirect (up_environ U)) (onward_request r u) (pt_body r) = Inr (resp, reads)" "whole_copy reads"
  shows "\<exists>w'. Passthrough_ServeHTTP U r w = Ok w'
    \<and> wStatus w' = wStatus w @ [StatusCode resp] \<and> wHeader w' = add_all (RespHeader resp) (wHeader w)
    \<and> wBody w' = wBody w @ copied reads"
proof -
  let ?w = "w_WriteHeader (StatusCode resp) (w\<lparr>wHeader := add_all (RespHeader resp) (wHeader w)\<rparr>)"
  have d: "DecodeString URLAlphabet (EncodeToString URLAlphabet u) = Some u"
    by (rule DecodeString_EncodeToString [OF proper_URL])
  then have e: "EncodeToString URLAlphabet u \<noteq> []"
    using assms(1) EncodeToString_inj [OF proper_URL, of u "[]"] by simp
  have "wStatus ?w \<noteq> []" by (simp add: w_WriteHeader_def)
  from writer_sink.copy_all [OF this assms(5), of 0] d e assms(2-4) show ?thesis
    by (auto simp: Passthrough_ServeHTTP_def HasPrefix_def w_WriteHeader_def)
qed

text \<open>C31. A link to a logo, or any other link made by encoding a URL, is answered with what the server
  behind that very URL answers to the same method, body and headers, redirects followed: its
  status, its headers (after the correlation ID of the request) and its whole body.  Nothing
  restricts the URL.  The headers sent on are the client's own: a correlation ID generated here is
  not among them.  It is in the context of the request all the same, where the redirect policy
  finds it: the request for every further hop carries it, and the program's user agent in place of
  the client's.\<close>

theorem passthrough_relays_any_url:
  assumes "u \<noteq> []" "pt_path r = ''/a/'' @ EncodeToString URLAlphabet u" "new_request_ok U (pt_method r) u"
    and "i = correlation_id fresh (pt_header r)"
    and "do_request U (CheckRedirect (up_environ U)) \<lparr>oq_method = pt_method r, oq_url = u, oq_header = pt_header r,
        oq_ctx = WithCorrelationID [] i\<rparr> (pt_body r) = Inr (resp, reads)" "whole_copy reads"
  shows "\<exists>w'. serve_passthrough U fresh r w = Ok w'
    \<and> wStatus w' = wStatus w @ [StatusCode resp] \<and> wBody w' = wBody w @ copied reads
    \<and> wHeader w' = add_all (RespHeader resp)
        (header_Set (wHeader w) ''X-Correlation-ID'' i)
    \<and> (\<forall>hop. oq_ctx hop = WithCorrelationID [] i \<longrightarrow> introduces (up_environ U) (WithCorrelationID [] i) (CheckRedirect (up_environ U) hop))
    \<and> CorrelationIDFromContext (WithCorrelationID [] i) = Some i"
proof -
  let ?i = i
  let ?r = "r\<lparr>pt_context := WithCorrelationID [] ?i\<rparr>"
  have "onward_header ?r = pt_header r"
    by (simp add: onward_header_def) (simp add: utils_CorrelationIDFromContext_def)
  then have "\<exists>w'. Passthrough_ServeHTTP U ?r (w\<lparr>wHeader := header_Set (wHeader w) ''X-Correlation-ID'' ?i\<rparr>) = Ok w'
    \<and> wStatus w' = wStatus w @ [StatusCode resp]
    \<and> wHeader w' = add_all (RespHeader resp) (header_Set (wHeader w) ''X-Correlation-ID'' ?i)
    \<and> wBody w' = wBody w @ copied reads"
    using passthrough_answer [of u ?r U resp reads "w\<lparr>wHeader := header_Set (wHeader w) ''X-Correlation-ID'' ?i\<rparr>"] assms
    by (simp add: onward_request_def)
  moreover have "introduces (up_environ U) (WithCorrelationID [] i) (CheckRedirect (up_environ U) hop)"
    if "oq_ctx hop = WithCorrelationID [] i" for hop
    using redirect_introduces [of "up_environ U" hop] that by simp
  moreover have "CorrelationIDFromContext (WithCorrelationID [] i) = Some i"
    by (simp add: CorrelationIDFromContext_def WithCorrelationID_def)
  ultimately show ?thesis using assms(4) by (auto simp: serve_passthrough_def Middleware_def Let_def)
qed

definition sample_upstream :: upstream where
  "sample_upstream = \<lparr>up_environ = [], new_request_ok = \<lambda>_ _. True,
     do_request = \<lambda>redirect req b. if oq_url req = ''http://h/logo'' then
         Inr (\<lparr>StatusCode = 200, RespHeader = [(''Content-Type'', [''image/png''])], RequestPath = None, RequestURL = oq_url req\<rparr>,
              [\<lparr>cp_data = ''ab'', cp_err = None, cp_answer = (2, None)\<rparr>, \<lparr>cp_data = ''c'', cp_err = Some EOF, cp_answer = (1, None)\<rparr>])
       else Inl EOF\<rparr>"

definition logo_request :: pt_request where
  "logo_request = \<lparr>pt_method = ''GET'', pt_path = ''/a/'' @ EncodeToString URLAlphabet ''http://h/logo'', pt_header = [],
     pt_body = [], pt_context = []\<rparr>"

theorem passthrough_relays_any_url_witness:
  "\<exists>w'. serve_passthrough sample_upstream ''id'' logo_request \<lparr>wHeader = [], wStatus = [], wBody = []\<rparr> = Ok w'
    \<and> wStatus w' = [200] \<and> wBody w' = ''abc''"
  using passthrough_relays_any_url [where u = "''http://h/logo''" and U = sample_upstream and fresh = "''id''"
      and w = "\<lparr>wHeader = [], wStatus = [], wBody = []\<rparr>" and r = logo_request]
  by (force simp: sample_upstream_def logo_request_def whole_copy_def copied_def)

end
