(* ===== verification/ExitChannel.thy ===== *)
theory ExitChannel
  imports GoPrelude
begin

text \<open>
  The channel \<open>exitStatus\<close> of \<^verbatim>\<open>handlers/stream_http.go\<close>: in every turn of a request the handler makes
  one, starts the goroutine that runs \<open>ProxyStream\<close> and sends the status with which the stream ended
  (\<^verbatim>\<open>proxy/stream/stream_instance.go\<close>), and waits in a \<open>select\<close> for that status or for the end of its
  client's context.  The steps are those of Go's channels: a send hands its value to a receiver that
  waits, or puts it into a free slot of the channel's buffer, or blocks.
\<close>

section \<open>The goroutine, the channel and the handler\<close>

datatype sender = Serving | Sending int | Sent

datatype receiver = Selecting | Received int | LeftSelect

record exit_chan =
  queue :: "int list"
  goroutine :: sender
  handler :: receiver

definition exitStatus_cap :: nat where
  "exitStatus_cap = 0"

definition new_chan :: exit_chan where
  "new_chan = \<lparr>queue = [], goroutine = Serving, handler = Selecting\<rparr>"

text \<open>
  What can happen: the stream ends with a status, the goroutine tries to send it, the handler takes
  one from the buffer, and, when the client's context is done, the handler leaves the \<open>select\<close>.
  A step that is not possible changes nothing.
\<close>

datatype chan_event = Finishes int | Sends | Receives | Leaves

definition send :: "nat \<Rightarrow> int \<Rightarrow> exit_chan \<Rightarrow> exit_chan" where
  "send cap k x =
     (if handler x = Selecting \<and> queue x = [] then x\<lparr>goroutine := Sent, handler := Received k\<rparr>
      else if length (queue x) < cap then x\<lparr>goroutine := Sent, queue := queue x @ [k]\<rparr>
      else x)"

fun chan_move :: "nat \<Rightarrow> exit_chan \<Rightarrow> chan_event \<Rightarrow> exit_chan" where
  "chan_move cap x (Finishes k) = (if goroutine x = Serving then x\<lparr>goroutine := Sending k\<rparr> else x)"
| "chan_move cap x Sends = (case goroutine x of Sending k \<Rightarrow> send cap k x | _ \<Rightarrow> x)"
| "chan_move cap x Receives =
     (case queue x of
        k # q \<Rightarrow> if handler x = Selecting then x\<lparr>queue := q, handler := Received k\<rparr> else x
      | [] \<Rightarrow> x)"
| "chan_move cap x Leaves = (if handler x = Selecting then x\<lparr>handler := LeftSelect\<rparr> else x)"

definition chan_step :: "exit_chan \<Rightarrow> chan_event \<Rightarrow> exit_chan" where
  "chan_step = chan_move exitStatus_cap"

text \<open>A turn whose stream has ended with \<open>code\<close>, or is still running (\<open>None\<close>).\<close>

definition chan_run :: "int option \<Rightarrow> chan_event list \<Rightarrow> exit_chan" where
  "chan_run code es = foldl chan_step new_chan
     (filter (\<lambda>e. case e of Finishes k \<Rightarrow> code = Some k | _ \<Rightarrow> True) es)"

text \<open>A goroutine is lost when nothing that can still happen lets it get rid of its status.\<close>

definition lost :: "nat \<Rightarrow> exit_chan \<Rightarrow> bool" where
  "lost cap x \<longleftrightarrow> (\<forall>es. goroutine (foldl (chan_move cap) x es) \<noteq> Sent)"

section \<open>Who is lost\<close>

text \<open>Without a buffer the two meet or do not meet: what is sent is received, and nobody sends to a
  handler that has left.\<close>

definition chan_ok :: "exit_chan \<Rightarrow> bool" where
  "chan_ok x \<longleftrightarrow> queue x = [] \<and> (goroutine x = Sent \<longleftrightarrow> (\<exists>k. handler x = Received k))"

interpretation exits: event_machine chan_step chan_ok
proof
  fix x e
  assume "chan_ok x"
  then show "chan_ok (chan_step x e)"
    by (cases e) (auto simp: chan_step_def chan_ok_def exitStatus_cap_def send_def split: sender.split)
qed

lemma chan_run_ok: "chan_ok (chan_run code es)"
  unfolding chan_run_def by (rule exits.inv_run) (simp add: chan_ok_def new_chan_def)

lemma handler_left: "handler x = LeftSelect \<Longrightarrow> handler (foldl (chan_move cap) x es) = LeftSelect"
proof (induction es arbitrary: x)
  case (Cons e es)
  have "handler (chan_move cap x e) = LeftSelect"
    using Cons.prems by (cases e) (auto simp: send_def split: sender.split list.split)
  then show ?case using Cons.IH by simp
qed simp

lemma chan_run_left:
  assumes "handler (chan_run code es) = LeftSelect"
  shows "lost exitStatus_cap (chan_run code es)"
  unfolding lost_def
proof
  fix fs
  let ?x = "foldl chan_step (chan_run code es) fs"
  have "chan_ok ?x" by (rule exits.inv_run [OF chan_run_ok])
  moreover have "handler ?x = LeftSelect" using handler_left [OF assms] by (simp add: chan_step_def)
  ultimately show "goroutine (foldl (chan_move exitStatus_cap) (chan_run code es) fs) \<noteq> Sent"
    by (simp add: chan_ok_def chan_step_def)
qed

lemma chan_run_received:
  "handler (chan_run code es) = Received k \<Longrightarrow> goroutine (chan_run code es) = Sent \<and> \<not> lost exitStatus_cap (chan_run code es)"
  using chan_run_ok [of code es] unfolding lost_def chan_ok_def by (metis foldl_Nil)

text \<open>What the handler receives is the status of the stream.\<close>

lemma chan_run_status: "handler (chan_run code es) = Received k \<Longrightarrow> code = Some k"
proof -
  let ?good = "\<lambda>e. case e of Finishes k \<Rightarrow> code = Some k | _ \<Rightarrow> True"
  have "(\<forall>e \<in> set fs. ?good e) \<Longrightarrow> queue x = [] \<Longrightarrow> (\<forall>j. handler x = Received j \<longrightarrow> code = Some j) \<Longrightarrow>
      (\<forall>j. goroutine x = Sending j \<longrightarrow> code = Some j) \<Longrightarrow> handler (foldl chan_step x fs) = Received k \<Longrightarrow> code = Some k" for x fs
  proof (induction fs arbitrary: x)
    case (Cons e fs)
    have "queue (chan_step x e) = []" "\<forall>j. handler (chan_step x e) = Received j \<longrightarrow> code = Some j"
      "\<forall>j. goroutine (chan_step x e) = Sending j \<longrightarrow> code = Some j"
      using Cons.prems(1-4)
      by (cases e; auto simp: chan_step_def exitStatus_cap_def send_def split: sender.split)+
    then show ?case using Cons.IH [of "chan_step x e"] Cons.prems(1,5) by simp
  qed simp
  from this [of "filter ?good es" new_chan] show "handler (chan_run code es) = Received k \<Longrightarrow> code = Some k"
    by (simp add: chan_run_def new_chan_def)
qed

text \<open>One slot would do: with a buffer the goroutine is never lost, since it sends only once.\<close>

theorem buffered_goroutine_is_not_lost:
  assumes "0 < cap"
  shows "\<not> lost cap (foldl (chan_move cap) new_chan es)"
proof -
  let ?x = "foldl (chan_move cap) new_chan es"
  have "goroutine x = Sent \<or> queue x = [] \<Longrightarrow> goroutine (foldl (chan_move cap) x fs) = Sent \<or> queue (foldl (chan_move cap) x fs) = []" for x fs
  proof (induction fs arbitrary: x)
    case (Cons e fs)
    have "goroutine (chan_move cap x e) = Sent \<or> queue (chan_move cap x e) = []"
      using Cons.prems by (cases e) (auto simp: send_def split: sender.split list.split)
    then show ?case using Cons.IH by simp
  qed simp
  then have q: "goroutine ?x = Sent \<or> queue ?x = []" by (simp add: new_chan_def)
  have "goroutine (foldl (chan_move cap) ?x [Finishes 0, Sends]) = Sent"
    using q assms by (cases "goroutine ?x") (auto simp: send_def)
  then show ?thesis unfolding lost_def by blast
qed

theorem buffered_goroutine_is_not_lost_witness:
  "\<not> lost 1 (foldl (chan_move 1) new_chan [Leaves, Finishes 3])"
  by (rule buffered_goroutine_is_not_lost) simp

end
