(* ===== verification/StreamHTTP.thy ===== *)
theory StreamHTTP
  imports Registry LoadBalancer Failover Relay ExitChannel
begin

text \<open>
  A request for a stream from its arrival to its reply: \<^verbatim>\<open>handlers/stream_http.go\<close>, the proxy
  instance behind it (\<^verbatim>\<open>handlers/proxy_instance.go\<close>, \<^verbatim>\<open>proxy/stream/stream_instance.go\<close>), and
  requests for the segments of a rewritten playlist.

  The request's goroutine runs turn by turn: in each it gets a source (the one the shared buffer
  is fed from, or a new one from the load balancer), passes it on, and looks at the status with which
  that ended.  A \<open>stream_visit\<close> is the script of one turn: what other requests did to the registry and to
  the concurrency manager before it, what passing the source on meets, what happens on the channel of
  the turn's status, and whether the client goes while the request waits for its next turn.
\<close>

section \<open>Stream IDs in paths\<close>

definition extractStreamURL :: "string \<Rightarrow> string" where
  "extractStreamURL urlPath =
     (let parts = SplitChar (CHR ''.'') (path_Base urlPath)
      in if length parts = 0 then [] else TrimPrefix (parts ! 0) ''/'')"

section \<open>ProxyStream\<close>

text \<open>
  What one call meets: the client's address, the reads of a direct stream, for a shared one what
  happens between joining and taking the start and the turns of the reader, and, when the response turns out to be a playlist, the body that is left
  with the answers to the writes of its lines.
\<close>

record proxy_script =
  px_addr :: string
  px_direct :: "direct_tick list"
  px_joined :: "coord_act list"
  px_reader :: "reader_tick list"
  px_body :: string
  px_answers :: "nat \<Rightarrow> nat \<times> go_error option"

definition stream_result ::
    "LoadBalancerResult \<Rightarrow> proxy_script \<Rightarrow> string set \<Rightarrow> StreamClient \<Rightarrow> Coord
      \<Rightarrow> (StreamResult option \<times> StreamClient \<times> Coord) outcome" where
  "stream_result lb p inval sc c =
     (if StatusCode (lbResponse lb) = 206 \<or> HasSuffix (lbURL lb) ''.mp4'' then
        bind_outcome (HandleDirectStream lb (px_addr p) (px_direct p) sc) (\<lambda>(res, n, sc'). Ok (res, sc', c))
      else if lbURL lb \<notin> inval then
        bind_outcome (HandleStream lb (px_joined p) (px_reader p) sc c) (\<lambda>(started, res, sc', c'). Ok (res, sc', c'))
      else Ok (Some \<lparr>BytesWritten = 0, ResError = None, ResStatus = StatusIncompatible\<rparr>, sc, c))"

text \<open>
  The status sent to the channel (\<open>None\<close> as long as the stream runs), with the client, the
  coordinator and the set of URLs found incompatible.
\<close>

definition ProxyStream ::
    "seg_env \<Rightarrow> LoadBalancerResult \<Rightarrow> proxy_script \<Rightarrow> string set \<Rightarrow> StreamClient \<Rightarrow> Coord
      \<Rightarrow> (int option \<times> string set \<times> StreamClient \<times> Coord) outcome" where
  "ProxyStream E lb p inval sc c =
     bind_outcome (stream_result lb p inval sc c) (\<lambda>(res, sc1, c1).
       case res of
         None \<Rightarrow> Ok (None, inval, sc1, c1)
       | Some result \<Rightarrow>
           if ResStatus result = StatusIncompatible \<and> IsAnM3U8Media (lbResponse lb) then
             bind_outcome (ProcessM3U8Stream E lb (px_body p) (px_answers p) sc1) (\<lambda>(err, sc2).
               Ok (Some (case err of Some e \<Rightarrow> StatusIncompatible | None \<Rightarrow> StatusM3U8Parsed),
                   insert (lbURL lb) inval, sc2, c1))
           else Ok (Some (ResStatus result), inval, sc1, c1))"

section \<open>The proxy instance and the handler\<close>

definition NewLoadBalancerInstance :: "ConcurrencyManager \<Rightarrow> string list \<Rightarrow> nat \<Rightarrow> lb_state" where
  "NewLoadBalancerInstance cm indexes now =
     \<lparr>info = None, testedIndexes = Map.empty, Cm = cm, m3uIndexes = indexes, clock = now\<rparr>"

record server =
  sv_lb :: lb_env
  sv_seg :: seg_env

text \<open>
  What the request's goroutine sees: the registry, the concurrency manager, the process-wide slice
  of M3U indexes, the clock, its client, the address of its coordinator, and the channels of the
  turns that were made so far, with the goroutines that send on them.
\<close>

record http_state =
  hs_reg :: Registry
  hs_cm :: ConcurrencyManager
  hs_indexes :: "string list"
  hs_clock :: nat
  hs_client :: StreamClient
  hs_coord :: nat
  hs_chans :: "exit_chan list"

record stream_visit =
  v_world :: "Registry \<times> ConcurrencyManager \<Rightarrow> Registry \<times> ConcurrencyManager"
  v_script :: proxy_script
  v_chan :: "chan_event list"
  v_gone_wait :: bool

text \<open>The instance is new for every call, with a client and an index provider of its own.\<close>

definition LoadBalancer_call :: "server \<Rightarrow> http_request \<Rightarrow> http_state
    \<Rightarrow> ((go_error + LoadBalancerResult) \<times> http_state) outcome option" where
  "LoadBalancer_call S rq s =
     map_option (\<lambda>out. bind_outcome out (\<lambda>(r, l).
         Ok (r, s\<lparr>hs_cm := Cm l, hs_indexes := m3uIndexes l, hs_clock := clock l\<rparr>)))
       (Balance (sv_lb S\<lparr>has_client := True, has_provider := True\<rparr>) True (Some rq)
         (NewLoadBalancerInstance (hs_cm s) (hs_indexes s) (hs_clock s)))"

text \<open>The source of one turn; \<open>None\<close> is a load balancer that never returns.\<close>

definition select_source :: "server \<Rightarrow> http_request \<Rightarrow> string \<Rightarrow> http_state
    \<Rightarrow> ((go_error + LoadBalancerResult) \<times> http_state) outcome option" where
  "select_source S rq streamURL s =
     (case heap (hs_reg s) (hs_coord s) of
        None \<Rightarrow> Some (Panic ''nil pointer dereference'')
      | Some c \<Rightarrow>
          (case GetWriterLBResult c of
             None \<Rightarrow> LoadBalancer_call S rq s
           | Some lb \<Rightarrow>
               let s' =
                 (if lbURL lb = [] then s
                  else if GetActualURL c = [] then
                    s\<lparr>hs_reg := heap_upd (hs_coord s) (SetActualURL (lbURL lb)) (hs_reg s)\<rparr>
                  else if GetActualURL c \<noteq> lbURL lb then
                    let (a, r) = GetOrCreateCoordinator streamURL (lbURL lb) (hs_reg s)
                    in s\<lparr>hs_reg := r, hs_coord := a\<rparr>
                  else s)
               in Some (Ok (Inr lb, s'))))"

definition run_proxy :: "server \<Rightarrow> LoadBalancerResult \<Rightarrow> proxy_script \<Rightarrow> http_state \<Rightarrow> (int option \<times> http_state) outcome" where
  "run_proxy S lb p s =
     (case heap (hs_reg s) (hs_coord s) of
        None \<Rightarrow> Panic ''nil pointer dereference''
      | Some c \<Rightarrow>
          bind_outcome (ProxyStream (sv_seg S) lb p (Invalid (hs_cm s)) (hs_client s) c) (\<lambda>(code, inval, sc, c').
            Ok (code, s\<lparr>hs_client := sc, hs_cm := (hs_cm s)\<lparr>Invalid := inval\<rparr>,
                        hs_reg := heap_upd (hs_coord s) (\<lambda>_. c') (hs_reg s)\<rparr>)))"

text \<open>\<open>handleExitCodeWithLogger\<close>: whether the request is over.\<close>

definition handleExitCode :: "int \<Rightarrow> bool" where
  "handleExitCode code =
     (if code = StatusIncompatible \<or> code = StatusEOF \<or> code = StatusServerError then False
      else if code = StatusM3U8Parsed then True
      else if code = StatusM3U8ParseError then False
      else True)"

text \<open>
  How \<open>handleStream\<close> ends, and how a turn ends: by what the \<open>select\<close> on the channel and on the client's
  context gives.
\<close>

datatype visit_end = BadPath | LBFailed go_error | ClientGone | GoneWhileWaiting | Finished int

definition after_proxy :: "stream_visit \<Rightarrow> int option \<times> http_state \<Rightarrow> (visit_end option + unit) \<times> http_state" where
  "after_proxy v = (\<lambda>(code, s0).
     let x = chan_run code (v_chan v); s = s0\<lparr>hs_chans := hs_chans s0 @ [x]\<rparr> in
     case handler x of
       LeftSelect \<Rightarrow> (Inl (Some ClientGone), s)
     | Selecting \<Rightarrow> (Inl None, s)
     | Received k \<Rightarrow>
         if handleExitCode k then (Inl (Some (Finished k)), s)
         else if v_gone_wait v then (Inl (Some GoneWhileWaiting), s)
         else (Inr (), s))"

definition turn :: "server \<Rightarrow> http_request \<Rightarrow> string \<Rightarrow> stream_visit \<Rightarrow> http_state
    \<Rightarrow> ((visit_end option + unit) \<times> http_state) outcome option" where
  "turn S rq streamURL v s =
     (let (r, cm) = v_world v (hs_reg s, hs_cm s) in
      map_option (\<lambda>out. bind_outcome out (\<lambda>(res, s1).
          case res of
            Inl e \<Rightarrow> Ok (Inl (Some (LBFailed e)), s1)
          | Inr lb \<Rightarrow> bind_outcome (run_proxy S lb (v_script v) s1) (\<lambda>cs. Ok (after_proxy v cs))))
        (select_source S rq streamURL (s\<lparr>hs_reg := r, hs_cm := cm\<rparr>)))"

fun turns :: "server \<Rightarrow> http_request \<Rightarrow> string \<Rightarrow> stream_visit list \<Rightarrow> http_state
    \<Rightarrow> (visit_end option \<times> http_state) outcome option" where
  "turns S rq streamURL [] s = Some (Ok (None, s))"
| "turns S rq streamURL (v # vs) s =
     Option.bind (turn S rq streamURL v s) (\<lambda>out.
       case out of
         Panic m \<Rightarrow> Some (Panic m)
       | Ok (Inl fin, s') \<Rightarrow> Some (Ok (fin, s'))
       | Ok (Inr _, s') \<Rightarrow> turns S rq streamURL vs s')"

definition handleStream :: "server \<Rightarrow> http_request \<Rightarrow> stream_visit list \<Rightarrow> http_state
    \<Rightarrow> (visit_end option \<times> http_state) outcome option" where
  "handleStream S rq vs s =
     (case URLPath rq of
        None \<Rightarrow> Some (Panic ''nil pointer dereference'')
      | Some p \<Rightarrow>
          let streamURL = extractStreamURL p in
          if streamURL = [] then Some (Ok (Some BadPath, s))
          else let (a, r) = GetOrCreateCoordinator streamURL [] (hs_reg s)
               in turns S rq streamURL vs (s\<lparr>hs_reg := r, hs_coord := a\<rparr>))"

definition Stream_ServeHTTP :: "server \<Rightarrow> http_request \<Rightarrow> stream_visit list \<Rightarrow> Writer \<Rightarrow> http_state
    \<Rightarrow> (visit_end option \<times> http_state) outcome option" where
  "Stream_ServeHTTP S rq vs w s = handleStream S rq vs (s\<lparr>hs_client := NewStreamClient (Some w)\<rparr>)"

section \<open>Segments\<close>

text \<open>Adding to the map that \<open>Header()\<close> returns: the client's own before the headers are sent.\<close>

definition add_headers :: "header \<Rightarrow> StreamClient \<Rightarrow> StreamClient outcome" where
  "add_headers hs sc =
     (if concat (map snd hs) = [] then Ok sc
      else if \<not> HeadersSent sc then Ok (sc\<lparr>ResponseHeaders := add_all hs (ResponseHeaders sc)\<rparr>)
      else case respWriter sc of
        None \<Rightarrow> Panic ''nil pointer dereference''
      | Some w \<Rightarrow> Ok (sc\<lparr>respWriter := Some (w\<lparr>wHeader := add_all hs (wHeader w)\<rparr>)\<rparr>))"

definition reply_error :: "string \<Rightarrow> nat \<times> go_error option \<Rightarrow> StreamClient \<Rightarrow> StreamClient outcome" where
  "reply_error msg ans sc =
     bind_outcome (WriteHeader 500 sc) (\<lambda>sc1. bind_outcome (Write_client msg ans sc1) (\<lambda>(r, sc2). Ok sc2))"

text \<open>
  The text of an error (\<open>show_error\<close>), what a GET of a URL brings, and the answer to the write of
  an error message are arguments.
\<close>

definition handleSegmentStream ::
    "seg_env \<Rightarrow> (go_error \<Rightarrow> string) \<Rightarrow> (string \<Rightarrow> go_error + (Response \<times> copy_tick list))
      \<Rightarrow> string \<Rightarrow> nat \<times> go_error option \<Rightarrow> StreamClient \<Rightarrow> StreamClient outcome" where
  "handleSegmentStream E show_error fetch urlPath ans sc =
     (let streamId = extractStreamURL urlPath in
      if streamId = [] then Ok sc
      else case ParseSegmentId E streamId of
        Inl e \<Rightarrow> reply_error (''Segment parsing error: '' @ show_error e) ans sc
      | Inr segment \<Rightarrow>
          (case fetch (SegURL segment) of
             Inl e \<Rightarrow> reply_error (''Failed to fetch URL: '' @ show_error e) ans sc
           | Inr (resp, reads) \<Rightarrow>
               bind_outcome (add_headers (RespHeader resp) sc) (\<lambda>sc1.
               bind_outcome (WriteHeader (StatusCode resp) sc1) (\<lambda>sc2.
               bind_outcome (io_Copy Write_client reads 0 sc2) (\<lambda>(n, sc3). Ok sc3)))))"

definition ServeSegmentHTTP ::
    "seg_env \<Rightarrow> (go_error \<Rightarrow> string) \<Rightarrow> (string \<Rightarrow> go_error + (Response \<times> copy_tick list))
      \<Rightarrow> string \<Rightarrow> nat \<times> go_error option \<Rightarrow> Writer \<Rightarrow> StreamClient outcome" where
  "ServeSegmentHTTP E show_error fetch urlPath ans w =
     handleSegmentStream E show_error fetch urlPath ans (NewStreamClient (Some w))"

section \<open>Links lead back\<close>

lemma after_last_no: "d \<notin> set t \<Longrightarrow> after_last d (p @ d # t) = t"
proof -
  assume "d \<notin> set t"
  then have "takeWhile (\<lambda>c. c \<noteq> d) (rev t @ d # rev p) = rev t"
    by (subst takeWhile_append2) auto
  then show ?thesis by (simp add: after_last_def)
qed

lemma after_last_free: "d \<notin> set (after_last d s)"
  by (auto simp: after_last_def dest: set_takeWhileD)

lemma after_last_sub: "set (after_last d s) \<subseteq> set s"
  by (auto simp: after_last_def dest: set_takeWhileD)

lemma path_Ext_shape: "CHR ''/'' \<notin> set (path_Ext p)" "path_Ext p = [] \<or> hd (path_Ext p) = CHR ''.''"
  using after_last_free [of "CHR ''/''" p] after_last_sub [of "CHR ''.''" "after_last (CHR ''/'') p"]
  by (auto simp: path_Ext_def Let_def)

lemma strip_slashes_id: "q \<noteq> [] \<Longrightarrow> last q \<noteq> CHR ''/'' \<Longrightarrow> strip_slashes q = q"
  by (cases q rule: rev_cases) (simp_all add: strip_slashes_def)

lemma extract_last_element:
  assumes "x \<noteq> []" "CHR ''.'' \<notin> set x" "CHR ''/'' \<notin> set x" "CHR ''/'' \<notin> set e" "e = [] \<or> hd e = CHR ''.''"
  shows "extractStreamURL (p @ ''/'' @ x @ e) = x"
proof -
  let ?b = "x @ e"
  have b: "CHR ''/'' \<notin> set ?b" "?b \<noteq> []" using assms by simp_all
  have "last (p @ ''/'' @ ?b) = last ?b" by (metis append_assoc b(2) last_appendR)
  moreover have "last ?b \<noteq> CHR ''/''" using last_in_set [OF b(2)] b(1) by metis
  ultimately have "strip_slashes (p @ ''/'' @ ?b) = p @ ''/'' @ ?b"
    by (intro strip_slashes_id) simp_all
  then have base: "path_Base (p @ ''/'' @ ?b) = ?b"
    using after_last_no [OF b(1), of p] b(2) by (simp add: path_Base_def)
  have "takeWhile (\<lambda>c. c \<noteq> CHR ''.'') ?b = x"
  proof -
    have "\<And>c. c \<in> set x \<Longrightarrow> c \<noteq> CHR ''.''" using assms(2) by metis
    with assms(5) show ?thesis by (cases e) (simp_all add: takeWhile_append2)
  qed
  moreover have "\<not> HasPrefix x ''/''" using assms(1,3) by (cases x) (auto simp: HasPrefix_def)
  ultimately show ?thesis
    unfolding extractStreamURL_def base by (simp add: TrimPrefix_def hd_SplitChar hd_conv_nth [symmetric])
qed

lemma stream_id_of_balancer: "GetStreamId p = extractStreamURL p"
  by (simp add: GetStreamId_def extractStreamURL_def Let_def TrimPrefix_def hd_conv_nth)

lemma generated_extension:
  "\<exists>e. foldl (\<lambda>ext u. if ext = [] then (case GetFileExtensionFromUrl E u of None \<Rightarrow> [] | Some x \<Rightarrow> x) else ext) e0 us = e
    \<and> (CHR ''/'' \<notin> set e0 \<and> (e0 = [] \<or> hd e0 = CHR ''.'') \<longrightarrow> CHR ''/'' \<notin> set e \<and> (e = [] \<or> hd e = CHR ''.''))"
proof (induction us arbitrary: e0)
  case (Cons u us)
  let ?e = "if e0 = [] then (case GetFileExtensionFromUrl E u of None \<Rightarrow> [] | Some x \<Rightarrow> x) else e0"
  have "CHR ''/'' \<notin> set e0 \<and> (e0 = [] \<or> hd e0 = CHR ''.'') \<longrightarrow> CHR ''/'' \<notin> set ?e \<and> (?e = [] \<or> hd ?e = CHR ''.'')"
    using path_Ext_shape by (auto simp: GetFileExtensionFromUrl_def split: option.split)
  with Cons.IH [of ?e] show ?case by auto
qed simp

text \<open>The sub paths of the URLs of a channel, one of which its link gets, and the shape of the link.\<close>

definition sub_paths :: "parse_env \<Rightarrow> StreamInfo \<Rightarrow> string list" where
  "sub_paths E si = arrival E (concat (map (\<lambda>u. case GetSubPathFromUrl E u of None \<Rightarrow> [] | Some p \<Rightarrow> [p])
     (concat (map (map snd \<circ> snd) (case URLs si of None \<Rightarrow> [] | Some us \<Rightarrow> us)))))"

lemma link_shape:
  assumes "EncodeSlug (slug_codec E) si \<noteq> []"
  obtains sub ext where "GenerateStreamURL E base si = base @ ''/p/'' @ sub @ ''/'' @ EncodeSlug (slug_codec E) si @ ext"
    "CHR ''/'' \<notin> set ext" "ext = [] \<or> hd ext = CHR ''.''" "sub \<in> insert ''stream'' (set (sub_paths E si))"
proof -
  let ?sl = "EncodeSlug (slug_codec E) si"
  let ?inner = "concat (map (map snd \<circ> snd) (case URLs si of None \<Rightarrow> [] | Some us \<Rightarrow> us))"
  obtain e where e: "foldl (\<lambda>ext u. if ext = [] then (case GetFileExtensionFromUrl E u of None \<Rightarrow> [] | Some x \<Rightarrow> x)
      else ext) [] ?inner = e" "CHR ''/'' \<notin> set e" "e = [] \<or> hd e = CHR ''.''"
    using generated_extension [of E "[]" ?inner] by auto
  let ?x = "if Contains e ''.m3u'' then [] else e"
  have x: "CHR ''/'' \<notin> set ?x" "?x = [] \<or> hd ?x = CHR ''.''" using e by auto
  obtain sub where "GenerateStreamURL E base si = base @ ''/p/'' @ sub @ ''/'' @ ?sl @ ?x"
    "sub \<in> insert ''stream'' (set (sub_paths E si))"
  proof (cases "sub_paths E si")
    case Nil
    with that [of "''stream''"] show thesis
      unfolding GenerateStreamURL_def Let_def sub_paths_def e(1) by simp
  next
    case (Cons p ps)
    with that [of p] assms(1) show thesis
      unfolding GenerateStreamURL_def Let_def sub_paths_def e(1) by simp
  qed
  with that x show thesis by blast
qed

lemma link_has_slug:
  assumes "EncodeSlug (slug_codec E) si \<noteq> []" "CHR ''.'' \<notin> set (EncodeSlug (slug_codec E) si)"
    "CHR ''/'' \<notin> set (EncodeSlug (slug_codec E) si)"
  obtains path where "GenerateStreamURL E base si = base @ path" "extractStreamURL path = EncodeSlug (slug_codec E) si"
proof -
  let ?sl = "EncodeSlug (slug_codec E) si"
  obtain sub ext where g: "GenerateStreamURL E base si = base @ ''/p/'' @ sub @ ''/'' @ ?sl @ ext"
    and x: "CHR ''/'' \<notin> set ext" "ext = [] \<or> hd ext = CHR ''.''"
    by (rule link_shape [OF assms(1)])
  have "extractStreamURL ((''/p/'' @ sub) @ ''/'' @ ?sl @ ext) = ?sl"
    by (rule extract_last_element [OF assms x])
  with that g show thesis by simp
qed

text \<open>The link of a channel in the merged playlist leads back to the channel, whatever sub path and
  extension were chosen for it: the handler and the load balancer find the same slug in the path
  of the request, and decoding it gives the channel, without URLs, as its JSON keeps it.\<close>

theorem stream_link_leads_back:
  assumes "carries (slug_codec E) si (json_info si)"
  shows "\<exists>path. GenerateStreamURL E base si = base @ path \<and> GetStreamId path = extractStreamURL path
    \<and> DecodeSlug (slug_codec E) (extractStreamURL path) = Inr ((json_info si)\<lparr>URLs := Some []\<rparr>)"
proof -
  let ?sl = "EncodeSlug (slug_codec E) si"
  from encodeSlug_shape [OF assms] have sl: "?sl \<noteq> []" "CHR ''.'' \<notin> set ?sl" "CHR ''/'' \<notin> set ?sl"
    by (simp_all add: EncodeSlug_def)
  obtain path where "GenerateStreamURL E base si = base @ path" "extractStreamURL path = ?sl"
    by (rule link_has_slug [OF sl])
  with Decode_EncodeSlug [OF assms] show ?thesis by (auto simp: stream_id_of_balancer)
qed

definition news_info :: StreamInfo where
  "news_info = empty_stream\<lparr>Title := ''News'', URLs := None\<rparr>"

lemma news_info_json: "json_info news_info = news_info"
  by (simp add: json_info_def news_info_def empty_stream_def json_string_ascii)

lemma news_info_carried: "carries (slug_codec plain_env) x news_info"
  by (simp add: plain_env_def news_info_def single_codec_carries)

theorem stream_link_leads_back_witness:
  "\<exists>path. GenerateStreamURL plain_env ''http://h'' news_info = ''http://h'' @ path \<and> GetStreamId path = extractStreamURL path
    \<and> DecodeSlug (slug_codec plain_env) (extractStreamURL path) = Inr (news_info\<lparr>URLs := Some []\<rparr>)"
  using stream_link_leads_back [of plain_env news_info "''http://h''"] news_info_carried
  by (simp add: news_info_json)

lemma new_client_headers:
  obtains sc where "add_headers h (NewStreamClient (Some w)) = Ok sc" "IsWritable sc" "\<not> HeadersSent sc"
    "client_body sc = wBody w" "client_status sc = wStatus w"
proof
  let ?sc = "if concat (map snd h) = [] then NewStreamClient (Some w)
    else (NewStreamClient (Some w))\<lparr>ResponseHeaders := add_all h []\<rparr>"
  show "add_headers h (NewStreamClient (Some w)) = Ok ?sc"
    by (simp add: add_headers_def NewStreamClient_def)
  show "IsWritable ?sc" "\<not> HeadersSent ?sc" "client_body ?sc = wBody w" "client_status ?sc = wStatus w"
    by (simp_all add: NewStreamClient_def IsWritable_def client_body_def client_status_def)
qed

text \<open>C25. A segment's link leads to the segment: the request for it fetches exactly the segment's URL and
  gets the status and the whole body of the answer, whatever base URL is configured.\<close>

theorem segment_link_fetches_segment:
  assumes "carries (seg_codec E) seg seg" "fetch (SegURL seg) = Inr (resp, reads)" "whole_copy reads"
  shows "\<exists>path sc. generateSegmentURL E seg = DetermineBaseURL (pe_environ (sg_env E)) None @ path
    \<and> ServeSegmentHTTP E sh fetch path ans w = Ok sc
    \<and> client_status sc = wStatus w @ [StatusCode resp] \<and> client_body sc = wBody w @ copied reads"
proof -
  let ?ext = "case GetFileExtensionFromUrl (sg_env E) (SegURL seg) of None \<Rightarrow> [] | Some x \<Rightarrow> x"
  let ?path = "''/segment/'' @ encodeSlug (seg_codec E) seg @ ?ext"
  have "CHR ''/'' \<notin> set ?ext" "?ext = [] \<or> hd ?ext = CHR ''.''"
    using path_Ext_shape by (auto simp: GetFileExtensionFromUrl_def split: option.split)
  from extract_last_element [OF encodeSlug_shape [OF assms(1)] this, of "''/segment''"]
  have x: "extractStreamURL ?path = encodeSlug (seg_codec E) seg" by simp
  obtain sc1 where sc1: "add_headers (RespHeader resp) (NewStreamClient (Some w)) = Ok sc1"
      "IsWritable sc1" "\<not> HeadersSent sc1" "client_body sc1 = wBody w" "client_status sc1 = wStatus w"
    by (rule new_client_headers)
  obtain sc2 where sc2: "WriteHeader (StatusCode resp) sc1 = Ok sc2" "IsWritable sc2" "HeadersSent sc2"
      "client_body sc2 = client_body sc1"
      "client_status sc2 = client_status sc1 @ (if HeadersSent sc1 then [] else [StatusCode resp])"
    by (rule WriteHeader_ok [OF sc1(2)])
  obtain n sc3 where sc3: "io_Copy Write_client reads 0 sc2 = Ok (Some (n, None), sc3)"
      "client_body sc3 = client_body sc2 @ copied reads" "client_status sc3 = client_status sc2"
    using client_sink.copy_all [OF conjI [OF sc2(2,3)] assms(3), of 0] by blast
  have "ServeSegmentHTTP E sh fetch ?path ans w = Ok sc3"
    using encodeSlug_shape(1) [OF assms(1)] decode_encodeSlug [OF assms(1)] assms(2) sc1(1) sc2(1) sc3(1)
    by (simp add: ServeSegmentHTTP_def handleSegmentStream_def Let_def x ParseSegmentId_def del: append.simps)
  moreover have "generateSegmentURL E seg = DetermineBaseURL (pe_environ (sg_env E)) None @ ?path"
    by (simp add: generateSegmentURL_def Let_def)
  ultimately show ?thesis using sc1 sc2 sc3 by auto
qed

theorem segment_link_fetches_segment_witness:
  "\<exists>path sc. generateSegmentURL sample_seg_env \<lparr>SegURL = ''http://h/a.ts'', SegSource = ''1|a''\<rparr>
      = DetermineBaseURL (pe_environ (sg_env sample_seg_env)) None @ path
    \<and> ServeSegmentHTTP sample_seg_env (\<lambda>_. ''e'')
        (\<lambda>u. Inr (\<lparr>StatusCode = 206, RespHeader = [], RequestPath = None, RequestURL = u\<rparr>,
           [\<lparr>cp_data = ''ab'', cp_err = Some EOF, cp_answer = (2, None)\<rparr>]))
        path (0, None) \<lparr>wHeader = [], wStatus = [], wBody = []\<rparr> = Ok sc
    \<and> client_status sc = [206] \<and> client_body sc = ''ab''"
  using segment_link_fetches_segment [where E = sample_seg_env and seg = "\<lparr>SegURL = ''http://h/a.ts'', SegSource = ''1|a''\<rparr>"
      and fetch = "\<lambda>u. Inr (\<lparr>StatusCode = 206, RespHeader = [], RequestPath = None, RequestURL = u\<rparr>,
           [\<lparr>cp_data = ''ab'', cp_err = Some EOF, cp_answer = (2, None)\<rparr>])" and sh = "\<lambda>_. ''e''" and ans = "(0, None)"
      and w = "\<lparr>wHeader = [], wStatus = [], wBody = []\<rparr>"]
  by (force simp: sample_seg_env_def single_codec_carries whole_copy_def copied_def)

section \<open>How requests end\<close>

lemma select_source_chans:
  "select_source S rq x s = Some (Ok (r, s')) \<Longrightarrow> hs_chans s' = hs_chans s"
  by (auto simp: select_source_def LoadBalancer_call_def Let_def panic_simps
      split: option.splits outcome.splits prod.splits if_splits)

lemma run_proxy_chans: "run_proxy S lb p s = Ok (code, s') \<Longrightarrow> hs_chans s' = hs_chans s"
  by (auto simp: run_proxy_def panic_simps split: option.splits)

definition lost_of :: "http_state \<Rightarrow> exit_chan list" where
  "lost_of s = filter (lost exitStatus_cap) (hs_chans s)"

lemma after_proxy_lost:
  assumes "after_proxy v (code, s) = (r, s')"
  shows "case r of
      Inl (Some e) \<Rightarrow> lost_of s' = lost_of s @ (if e = ClientGone then [last (hs_chans s')] else [])
    | Inl None \<Rightarrow> True | Inr _ \<Rightarrow> lost_of s' = lost_of s"
proof (cases "handler (chan_run code (v_chan v))")
  case LeftSelect
  with chan_run_left [OF LeftSelect] assms show ?thesis by (auto simp: after_proxy_def Let_def lost_of_def)
next
  case (Received k)
  with chan_run_received [OF Received] assms show ?thesis
    by (auto simp: after_proxy_def Let_def lost_of_def split: if_splits)
qed (use assms in \<open>auto simp: after_proxy_def Let_def\<close>)

lemma turn_lost:
  assumes "turn S rq x v s = Some (Ok (r, s'))"
  shows "case r of
      Inl (Some e) \<Rightarrow> lost_of s' = lost_of s @ (if e = ClientGone then [last (hs_chans s')] else [])
    | Inl None \<Rightarrow> True | Inr _ \<Rightarrow> lost_of s' = lost_of s"
proof -
  obtain rg cm where w: "v_world v (hs_reg s, hs_cm s) = (rg, cm)" by fastforce
  let ?s0 = "s\<lparr>hs_reg := rg, hs_cm := cm\<rparr>"
  from assms w obtain res s1 where 1: "select_source S rq x ?s0 = Some (Ok (res, s1))"
    and 2: "(case res of Inl e \<Rightarrow> Ok (Inl (Some (LBFailed e)), s1)
      | Inr lb \<Rightarrow> bind_outcome (run_proxy S lb (v_script v) s1) (\<lambda>cs. Ok (after_proxy v cs))) = Ok (r, s')"
    by (auto simp: turn_def panic_simps)
  from select_source_chans [OF 1] have l: "lost_of s1 = lost_of s" by (simp add: lost_of_def)
  show ?thesis
  proof (cases res)
    case (Inl e)
    with 2 l show ?thesis by auto
  next
    case (Inr lb)
    with 2 obtain code s2 where 3: "run_proxy S lb (v_script v) s1 = Ok (code, s2)" "after_proxy v (code, s2) = (r, s')"
      by (auto simp: panic_simps)
    from run_proxy_chans [OF 3(1)] l have "lost_of s2 = lost_of s" by (simp add: lost_of_def)
    with after_proxy_lost [OF 3(2)] show ?thesis by (simp cong: option.case_cong sum.case_cong)
  qed
qed

lemma turns_lost:
  "turns S rq x vs s = Some (Ok (Some e, s')) \<Longrightarrow>
    lost_of s' = lost_of s @ (if e = ClientGone then [last (hs_chans s')] else [])"
proof (induction vs arbitrary: s)
  case (Cons v vs)
  then obtain out where t: "turn S rq x v s = Some out"
    and o: "(case out of Panic m \<Rightarrow> Some (Panic m) | Ok (Inl fin, s') \<Rightarrow> Some (Ok (fin, s'))
       | Ok (Inr _, s') \<Rightarrow> turns S rq x vs s') = Some (Ok (Some e, s'))"
    by (auto simp: bind_eq_Some_conv)
  from o obtain r s1 where out: "out = Ok (r, s1)" by (cases out) auto
  note tt = turn_lost [OF t [unfolded out]]
  show ?case
  proof (cases r)
    case (Inl fin)
    with o out tt show ?thesis by simp
  next
    case (Inr u)
    with o out have "turns S rq x vs s1 = Some (Ok (Some e, s'))" by simp
    from Cons.IH [OF this] tt Inr show ?thesis by simp
  qed
qed simp

text \<open>C32. However a request ends, on whichever of its turns and with whatever interleaving of the stream's
  end, the send on \<open>exitStatus\<close> and the \<open>select\<close>: when its client leaves while a stream is being served,
  exactly one goroutine is lost, that of the last turn, whose send nothing can ever complete any
  more; when it ends in any other way, none.\<close>

theorem leaving_client_loses_goroutine:
  assumes "Stream_ServeHTTP S rq vs w s = Some (Ok (Some e, s'))"
  shows "filter (lost exitStatus_cap) (hs_chans s') = filter (lost exitStatus_cap) (hs_chans s)
    @ (if e = ClientGone then [last (hs_chans s')] else [])"
proof -
  from assms(1) obtain p where p: "URLPath rq = Some p"
    by (auto simp: Stream_ServeHTTP_def handleStream_def split: option.splits)
  show ?thesis
  proof (cases "extractStreamURL p = []")
    case True
    with assms p show ?thesis by (auto simp: Stream_ServeHTTP_def handleStream_def Let_def)
  next
    case False
    obtain a r where "GetOrCreateCoordinator (extractStreamURL p) [] (hs_reg s) = (a, r)" by fastforce
    with assms p False have "turns S rq (extractStreamURL p) vs
        (s\<lparr>hs_client := NewStreamClient (Some w), hs_reg := r, hs_coord := a\<rparr>) = Some (Ok (Some e, s'))"
      by (simp add: Stream_ServeHTTP_def handleStream_def Let_def)
    from turns_lost [OF this] show ?thesis by (simp add: lost_of_def)
  qed
qed

lemma turn_without_source:
  assumes "v_world v (hs_reg s, hs_cm s) = (hs_reg s, hs_cm s)" "select_source S rq x s = Some (Ok (Inl e, s'))"
  shows "turn S rq x v s = Some (Ok (Inl (Some (LBFailed e)), s'))"
  using assms by (simp add: turn_def)

text \<open>C33. A request for a stream that nobody watches and none of whose sources ever answers with
  status 200 ends after exactly \<open>MAX_RETRIES\<close> laps over the sources (none if the number is negative; 0
  stands for no limit and is excluded), without a byte, a header or a status sent to the client:
  \<open>net/http\<close> turns that into an empty answer with status 200.\<close>

theorem dead_stream_is_an_empty_reply:
  assumes "slice_sorter (sort_indexes (sv_lb S))"
    and "\<forall>t m u r. answer (sv_lb S) t m u = HttpOk r \<longrightarrow> StatusCode r \<noteq> 200"
    and "\<forall>t. \<not> ctx_done (sv_lb S) t" "no_nil (hs_cm s)" "distinct (hs_indexes s)"
    and "Method rq \<noteq> []" "URLPath rq = Some p" "extractStreamURL p \<noteq> []"
    and "map_of (entries (hs_reg s)) (extractStreamURL p) = None" "\<forall>x. v_world v x = x"
    and "parse_slug (sv_lb S) (extractStreamURL p) = Inr si" "URLs si = Some us" "\<exists>u \<in> set us. snd u \<noteq> []"
    and "MaxRetries (lb_config (sv_lb S)) \<noteq> 0" "MaxRetries (lb_config (sv_lb S)) < 9223372036854775808"
  defines "E \<equiv> sv_lb S\<lparr>has_client := True, has_provider := True\<rparr>"
    and "l \<equiv> (NewLoadBalancerInstance (hs_cm s) (hs_indexes s) (hs_clock s))\<lparr>info := Some si\<rparr>"
  shows "\<exists>l' s'. (failed_lap E (Method rq) (extractStreamURL p) ^^ nat (MaxRetries (lb_config (sv_lb S)))) l l'
    \<and> Stream_ServeHTTP S rq (v # vs) w s
      = Some (Ok (Some (LBFailed (Errorf ''error fetching stream: exhausted all streams'')), s'))
    \<and> hs_cm s' = Cm l' \<and> hs_indexes s' = m3uIndexes l' \<and> hs_clock s' = clock l'
    \<and> hs_client s' = NewStreamClient (Some w)"
proof -
  let ?sid = "extractStreamURL p" let ?c0 = "NewStreamCoordinator ?sid (reg_config (hs_reg s))"
  obtain a r where g: "GetOrCreateCoordinator ?sid [] (hs_reg s) = (a, r)" "heap r a = Some ?c0"
    using assms(9) by (simp add: GetOrCreateCoordinator_def lookup_coordinator_def create_coordinator_def Let_def set_url_def)
  let ?s = "s\<lparr>hs_client := NewStreamClient (Some w), hs_reg := r, hs_coord := a\<rparr>"
  let ?l = "NewLoadBalancerInstance (hs_cm s) (hs_indexes s) (hs_clock s)"
  have "si\<lparr>URLs := Some us\<rparr> = si" using assms(12) by simp
  then have f: "fetchBackendUrls E (GetStreamId p) ?l = (None, l)"
    using assms(11-13) by (auto simp: fetchBackendUrls_def stream_id_of_balancer Let_def E_def l_def)
  have E: "slice_sorter (sort_indexes E)" "never_ok E" "\<forall>t. \<not> ctx_done E t" "lb_config E = lb_config (sv_lb S)"
    using assms(1-3) by (simp_all add: E_def never_ok_def)
  have i: "no_nil (Cm ?l)" "distinct (m3uIndexes ?l)" using assms(4,5) by (simp_all add: NewLoadBalancerInstance_def)
  obtain l' where b: "(failed_lap E (Method rq) ?sid ^^ nat (MaxRetries (lb_config (sv_lb S)))) l l'"
    "Balance E True (Some rq) ?l = Some (Ok (Inl (Errorf ''error fetching stream: exhausted all streams''), l'))"
    using Balance_exhausted [OF E(1-3) i assms(6,7) f] assms(14,15) unfolding E(4) stream_id_of_balancer by blast
  let ?s' = "?s\<lparr>hs_cm := Cm l', hs_indexes := m3uIndexes l', hs_clock := clock l'\<rparr>"
  have "GetWriterLBResult ?c0 = None" by (simp add: GetWriterLBResult_def NewStreamCoordinator_def)
  then have "select_source S rq ?sid ?s = Some (Ok (Inl (Errorf ''error fetching stream: exhausted all streams''), ?s'))"
    using b(2) g(2) by (simp add: select_source_def LoadBalancer_call_def E_def)
  then have "turn S rq ?sid v ?s = Some (Ok (Inl (Some (LBFailed (Errorf ''error fetching stream: exhausted all streams''))), ?s'))"
    using assms(10) by (intro turn_without_source) simp_all
  then show ?thesis
    using assms(7,8) g(1) b(1) by (intro exI [of _ l'] exI [of _ ?s']) (simp add: Stream_ServeHTTP_def handleStream_def Let_def)
qed

text \<open>C26. Once the URL of a playlist is known to be incompatible with the shared buffer, a request that is given it
  gets the playlist rewritten, line by line, and is then finished; the coordinator is not
  touched, and the URL stays marked.\<close>

theorem marked_playlist_bypasses_buffer:
  assumes "IsAnM3U8Media (lbResponse lb)" "StatusCode (lbResponse lb) \<noteq> 206" "\<not> HasSuffix (lbURL lb) ''.mp4''"
    and "lbURL lb \<in> inval" "IsWritable sc"
    and "RequestPath (lbResponse lb) \<noteq> None" "url_ok (sg_urls E) (RequestURL (lbResponse lb))"
    and "scan_lines (px_body p) = (ls, None)"
    and "\<forall>k < length ls. px_answers p k = (length (line_out E lb (RequestURL (lbResponse lb)) (ls ! k)), None)"
  shows "\<exists>sc'. ProxyStream E lb p inval sc c = Ok (Some StatusM3U8Parsed, inval, sc', c)
    \<and> client_body sc' = client_body sc @ concat (map (line_out E lb (RequestURL (lbResponse lb))) ls)
    \<and> handleExitCode StatusM3U8Parsed"
proof -
  from ProcessM3U8Stream_ok [OF assms(5-9)] obtain sc' where
    "ProcessM3U8Stream E lb (px_body p) (px_answers p) sc = Ok (None, sc')"
    "client_body sc' = client_body sc @ concat (map (line_out E lb (RequestURL (lbResponse lb))) ls)" by blast
  with assms(1-4) show ?thesis
    by (simp add: ProxyStream_def stream_result_def insert_absorb handleExitCode_def status_defs)
qed

definition sample_script :: proxy_script where
  "sample_script = \<lparr>px_addr = ''c'', px_direct = [], px_joined = [], px_reader = [], px_body = sample_playlist, px_answers = sample_answers\<rparr>"

definition sample_server :: server where
  "sample_server = \<lparr>sv_lb = sample_env\<lparr>parse_slug := \<lambda>_. Inr LoadBalancer.sample_info\<rparr>, sv_seg = sample_seg_env\<rparr>"

definition sample_http :: http_state where
  "sample_http = \<lparr>hs_reg = NewStreamRegistry sample_config, hs_cm = NewConcurrencyManager, hs_indexes = [''1'', ''2''],
     hs_clock = 0, hs_client = NewStreamClient None, hs_coord = 0, hs_chans = []\<rparr>"

definition sample_visit :: stream_visit where
  "sample_visit = \<lparr>v_world = \<lambda>x. x, v_script = sample_script, v_chan = [], v_gone_wait = False\<rparr>"

definition sample_writer :: Writer where
  "sample_writer = \<lparr>wHeader = [], wStatus = [], wBody = []\<rparr>"

definition sample_request :: http_request where
  "sample_request = \<lparr>Method = ''GET'', URLPath = Some ''/p/stream/slug.ts''\<rparr>"

lemma sample_request_id: "extractStreamURL ''/p/stream/slug.ts'' = ''slug''"
  using extract_last_element [of "''slug''" "''.ts''" "''/p/stream''"] by simp

definition dead_start :: lb_state where
  "dead_start = (NewLoadBalancerInstance (hs_cm sample_http) (hs_indexes sample_http) (hs_clock sample_http))
     \<lparr>info := Some LoadBalancer.sample_info\<rparr>"

theorem dead_stream_is_an_empty_reply_witness:
  "\<exists>l' s'. (failed_lap (sv_lb sample_server\<lparr>has_client := True, has_provider := True\<rparr>) ''GET'' ''slug'' ^^ 2) dead_start l'
    \<and> Stream_ServeHTTP sample_server sample_request (sample_visit # []) sample_writer sample_http
      = Some (Ok (Some (LBFailed (Errorf ''error fetching stream: exhausted all streams'')), s'))
    \<and> hs_cm s' = Cm l' \<and> hs_indexes s' = m3uIndexes l' \<and> hs_clock s' = clock l'
    \<and> hs_client s' = NewStreamClient (Some sample_writer)"
proof -
  have 1: "slice_sorter (sort_indexes (sv_lb sample_server))"
    using sample_env_facts(1) by (simp add: sample_server_def)
  have 2: "\<forall>t m u r. answer (sv_lb sample_server) t m u = HttpOk r \<longrightarrow> StatusCode r \<noteq> 200"
    "\<forall>t. \<not> ctx_done (sv_lb sample_server) t" by (simp_all add: sample_server_def sample_env_def)
  have 3: "no_nil (hs_cm sample_http)" "distinct (hs_indexes sample_http)"
    using sample_env_facts(5) by (simp_all add: sample_http_def sample_state_def)
  have 4: "Method sample_request \<noteq> []" "URLPath sample_request = Some ''/p/stream/slug.ts''"
    by (simp_all add: sample_request_def)
  have 5: "extractStreamURL ''/p/stream/slug.ts'' \<noteq> []"
    "map_of (entries (hs_reg sample_http)) (extractStreamURL ''/p/stream/slug.ts'') = None" "\<forall>x. v_world sample_visit x = x"
    by (simp_all add: sample_request_id sample_http_def NewStreamRegistry_def sample_visit_def)
  have 6: "parse_slug (sv_lb sample_server) (extractStreamURL ''/p/stream/slug.ts'') = Inr LoadBalancer.sample_info"
    "URLs LoadBalancer.sample_info = Some (the (URLs LoadBalancer.sample_info))"
    "\<exists>u \<in> set (the (URLs LoadBalancer.sample_info)). snd u \<noteq> []"
    by (simp_all add: sample_server_def LoadBalancer.sample_info_def)
  have 7: "MaxRetries (lb_config (sv_lb sample_server)) = 2" by (simp add: sample_server_def sample_env_def)
  from dead_stream_is_an_empty_reply [OF 1 2 3 4 5 6, of "[]" sample_writer] show ?thesis
    unfolding 7 sample_request_id dead_start_def by (simp add: sample_request_def)
qed

text \<open>A client that leaves while it is given a marked, empty playlist that another request feeds from.\<close>

definition leaving_visit :: stream_visit where
  "leaving_visit = \<lparr>v_world = \<lambda>_. ((NewStreamRegistry sample_config)\<lparr>
       heap := [0 \<mapsto> (NewStreamCoordinator ''slug'' sample_config)\<lparr>LBResultOnWrite := Some playlist_lb\<rparr>]\<rparr>,
       NewConcurrencyManager\<lparr>Invalid := {''http://h/l.m3u8''}\<rparr>),
     v_script = sample_script\<lparr>px_body := []\<rparr>, v_chan = [Leaves, Finishes StatusM3U8Parsed, Sends], v_gone_wait = False\<rparr>"

lemma leaving_client_run:
  "\<exists>s'. Stream_ServeHTTP sample_server sample_request [leaving_visit] sample_writer sample_http = Some (Ok (Some ClientGone, s'))"
proof -
  have "IsAnM3U8Media (lbResponse playlist_lb)"
    by (simp add: playlist_lb_def IsAnM3U8Media_def path_Ext_def after_last_def lower_char_def char_of_def bit_iff_odd)
  moreover have "scan_lines [] = ([], None)" by (simp add: scan_lines_def scan_tokens_def raw_lines_def)
  moreover have "fst (GetOrCreateCoordinator ''slug'' [] (hs_reg sample_http)) = 0"
    by (simp add: sample_http_def NewStreamRegistry_def GetOrCreateCoordinator_def lookup_coordinator_def
        create_coordinator_def Let_def set_url_def)
  ultimately show ?thesis
    by (simp add: Stream_ServeHTTP_def handleStream_def sample_request_def sample_request_id Let_def turn_def leaving_visit_def
        split_beta select_source_def GetWriterLBResult_def GetActualURL_def NewStreamCoordinator_def playlist_lb_def
        run_proxy_def heap_upd_def ProxyStream_def stream_result_def HasSuffix_def ProcessM3U8Stream_def
        sample_server_def sample_seg_env_def sample_urls_def sample_script_def SetActualURL_def after_proxy_def
        chan_run_def chan_step_def new_chan_def exitStatus_cap_def send_def)
qed

theorem leaving_client_loses_goroutine_witness:
  "\<exists>s' x. Stream_ServeHTTP sample_server sample_request [leaving_visit] sample_writer sample_http = Some (Ok (Some ClientGone, s'))
    \<and> filter (lost exitStatus_cap) (hs_chans s') = [x]"
proof -
  from leaving_client_run obtain s' where
    r: "Stream_ServeHTTP sample_server sample_request [leaving_visit] sample_writer sample_http = Some (Ok (Some ClientGone, s'))" ..
  from leaving_client_loses_goroutine [OF r] r show ?thesis by (simp add: sample_http_def)
qed

theorem marked_playlist_bypasses_buffer_witness:
  "\<exists>sc'. ProxyStream sample_seg_env playlist_lb sample_script {''http://h/l.m3u8''} sample_client (NewStreamCoordinator ''s'' sample_config)
      = Ok (Some StatusM3U8Parsed, {''http://h/l.m3u8''}, sc', NewStreamCoordinator ''s'' sample_config)
    \<and> client_body sc' = ''#EXTM3U'' @ [newline] @ ''/segment/e30'' @ [newline]"
proof -
  have p: "scan_lines (px_body sample_script) = ([''#EXTM3U'', ''a.ts''], None)" "px_answers sample_script = sample_answers"
    using sample_lines by (simp_all add: sample_script_def)
  have "IsAnM3U8Media (lbResponse playlist_lb)" "StatusCode (lbResponse playlist_lb) \<noteq> 206"
    "\<not> HasSuffix (lbURL playlist_lb) ''.mp4''" "lbURL playlist_lb \<in> {''http://h/l.m3u8''}"
    by (simp_all add: playlist_lb_def IsAnM3U8Media_def path_Ext_def after_last_def HasSuffix_def lower_char_def char_of_def bit_iff_odd)
  from marked_playlist_bypasses_buffer [OF this sample_client_ready(1-3) p(1) sample_answers_fit [folded p(2)]]
  show ?thesis by (simp add: sample_out sample_client_ready(4)) blast
qed

section \<open>A stream is served\<close>

lemma new_coordinator:
  assumes "map_of (entries r) sid = None"
  obtains a r' where "GetOrCreateCoordinator sid [] r = (a, r')" "heap r' a = Some (NewStreamCoordinator sid (reg_config r))"
  using assms by (simp add: GetOrCreateCoordinator_def lookup_coordinator_def create_coordinator_def Let_def set_url_def)

lemma new_coordinator_ok:
  "0 < SharedBufferSize cfg \<Longrightarrow> SharedBufferSize cfg < 9223372036854775808 \<Longrightarrow> coord_ok (NewStreamCoordinator sid cfg)"
  by (simp add: coord_ok_def ring_ok_def NewStreamCoordinator_def)

lemma turn_found:
  assumes "\<forall>x. v_world v x = x" "select_source S rq x s = Some (Ok (Inr lb, s1))" "run_proxy S lb (v_script v) s1 = Ok cs"
  shows "turn S rq x v s = Some (Ok (after_proxy v cs))"
  using assms by (simp add: turn_def)

text \<open>The way of a request whose source the load balancer has found and whose first turn is that of the
  first client of a stream, whose writer puts \<open>ws\<close> and ends with error \<open>e\<close> and status \<open>st\<close>.\<close>

definition uses_buffer :: "ConcurrencyManager \<Rightarrow> LoadBalancerResult \<Rightarrow> int \<Rightarrow> bool" where
  "uses_buffer cm lb st \<longleftrightarrow> StatusCode (lbResponse lb) \<noteq> 206 \<and> \<not> HasSuffix (lbURL lb) ''.mp4'' \<and> lbURL lb \<notin> Invalid cm
     \<and> \<not> (st = StatusIncompatible \<and> IsAnM3U8Media (lbResponse lb))"

lemma first_request_served:
  assumes p: "URLPath rq = Some p" "extractStreamURL p \<noteq> []" "map_of (entries (hs_reg s)) (extractStreamURL p) = None"
    and v: "\<forall>x. v_world v x = x" "handler (chan_run (Some st) (v_chan v)) = Received st" "\<not> v_gone_wait v"
    and b: "Balance (sv_lb S\<lparr>has_client := True, has_provider := True\<rparr>) True (Some rq)
        (NewLoadBalancerInstance (hs_cm s) (hs_indexes s) (hs_clock s)) = Some (Ok (Inr lb, l))" "uses_buffer (hs_cm s) lb st" "no_nil (hs_cm s)" "distinct (hs_indexes s)" "slice_sorter (sort_indexes (sv_lb S))"
    and n: "1 < SharedBufferSize (reg_config (hs_reg s))" "SharedBufferSize (reg_config (hs_reg s)) < 9223372036854775808"
    and ws: "px_joined (v_script v) @ concat (map r_acts (px_reader (v_script v))) = map AWrite ws @ [AWriteError e st t]"
      "px_reader (v_script v) \<noteq> []"
      "keeps_up lb (nat (SharedBufferSize (reg_config (hs_reg s)))) [last (newChunkData # map act_chunk (px_joined (v_script v)))]
        (px_reader (v_script v))"
      "\<forall>ch \<in> set ws. \<not> is_error ch" "e \<noteq> None \<or> st \<noteq> 0" "int (Suc (length ws)) < 9223372036854775808"
      "int (length (chunk_bytes (delivered ws))) < 9223372036854775808"
  shows "\<exists>s'. Stream_ServeHTTP S rq [v] w s = Some (Ok (if handleExitCode st then Some (Finished st) else None, s'))
    \<and> client_body (hs_client s') = wBody w @ chunk_bytes (delivered (drop (length (px_joined (v_script v)) - 1) ws))
    \<and> lost_of s' = lost_of s
    \<and> (\<exists>c. heap (hs_reg s') (hs_coord s') = Some c \<and> ClientCount c = 0 \<and> WriterCtx c = None)"
proof -
  let ?sid = "extractStreamURL p" let ?c0 = "NewStreamCoordinator ?sid (reg_config (hs_reg s))"
  let ?sc = "NewStreamClient (Some w)" let ?got = "chunk_bytes (delivered (drop (length (px_joined (v_script v)) - 1) ws))"
  obtain a r where g: "GetOrCreateCoordinator ?sid [] (hs_reg s) = (a, r)" "heap r a = Some ?c0"
    by (rule new_coordinator [OF p(3)])
  let ?s = "s\<lparr>hs_client := ?sc, hs_reg := r, hs_coord := a\<rparr>"
  let ?s1 = "?s\<lparr>hs_cm := Cm l, hs_indexes := m3uIndexes l, hs_clock := clock l\<rparr>"
  have "GetWriterLBResult ?c0 = None" by (simp add: GetWriterLBResult_def NewStreamCoordinator_def)
  then have sel: "select_source S rq ?sid ?s = Some (Ok (Inr lb, ?s1))"
    using b(1) g(2) by (simp add: select_source_def LoadBalancer_call_def)
  have c0: "coord_ok ?c0" "ClientCount ?c0 = 0" "\<not> WriterActive ?c0" "writeSeq ?c0 = 0" "1 < length (slots ?c0)"
    "length (slots ?c0) = nat (SharedBufferSize (reg_config (hs_reg s)))"
    using n new_coordinator_ok by (simp_all add: NewStreamCoordinator_def)
  have sc: "IsWritable ?sc" "client_body ?sc = wBody w"
    by (simp_all add: IsWritable_def NewStreamClient_def client_body_def)
  obtain sc' c' where h: "HandleStream lb (px_joined (v_script v)) (px_reader (v_script v)) ?sc ?c0
      = Ok (True, Some \<lparr>BytesWritten = int (length ?got), ResError = e, ResStatus = st\<rparr>, sc', c')"
    "client_body sc' = wBody w @ ?got" "ClientCount c' = 0" "WriterCtx c' = None"
    using first_client_gets_whole_stream [OF c0(1-5) ws(1,2) ws(3) [folded c0(6)] ws(4-6) sc(1) ws(7)] unfolding sc(2)
    by (elim exE conjE) (rule that)
  let ?s2 = "?s1\<lparr>hs_client := sc', hs_cm := (Cm l)\<lparr>Invalid := Invalid (Cm l)\<rparr>, hs_reg := heap_upd a (\<lambda>_. c') r\<rparr>"
  let ?s3 = "?s2\<lparr>hs_chans := hs_chans s @ [chan_run (Some st) (v_chan v)]\<rparr>"
  have inv: "Invalid (Cm l) = Invalid (hs_cm s)"
    by (rule Balance_sound [OF _ _ _ b(1)]) (use b(3-5) in \<open>simp_all add: NewLoadBalancerInstance_def\<close>)
  have run: "run_proxy S lb (v_script v) ?s1 = Ok (Some st, ?s2)"
    using g(2) h(1) b(2) inv by (auto simp: run_proxy_def ProxyStream_def stream_result_def uses_buffer_def)
  have "turn S rq ?sid v ?s = Some (Ok (after_proxy v (Some st, ?s2)))"
    by (rule turn_found [OF v(1) sel run])
  then have "Stream_ServeHTTP S rq [v] w s = Some (Ok (if handleExitCode st then Some (Finished st) else None, ?s3))"
    using p(1,2) g(1) v(2,3) by (simp add: Stream_ServeHTTP_def handleStream_def after_proxy_def Let_def)
  moreover have "heap (heap_upd a (\<lambda>_. c') r) a = Some c'" using g(2) by (simp add: heap_upd_def)
  moreover have "lost_of ?s3 = lost_of s" using chan_run_received [OF v(2)] by (simp add: lost_of_def)
  ultimately show ?thesis using h(2-4) by (intro exI [of _ ?s3]) simp
qed

end
