(* ===== verification/Sorting.thy ===== *)
theory Sorting
  imports Json "HOL-Library.List_Lexorder" "HOL-Library.Char_ord"
begin

text \<open>
  \<^verbatim>\<open>sourceproc/sorting.go\<close>: the manager that collects the channels of all sources, merges those
  of one title and hands them out in order.  Channels are spread over 4096 shards by the hash of
  their title; a shard has a JSON file, a set of titles seen and a buffer of channels not yet in
  the file.

  The hash (\<open>xxhash\<close>) is an argument.  \<open>xsync.MapOf.Compute\<close> runs its callback under the lock of
  the key, so operations on one shard are one after the other.  What the file system answers
  during an operation is the record \<open>sort_io\<close>; the buffered JSON is kept as the value it decodes
  to, and a map is a list of entries with distinct keys, which a loop over the map takes in the
  order of the list, one of the orders Go may choose.  Strings are compared byte by byte, which
  is the order \<open>HOL-Library.List_Lexorder\<close> puts on lists of \<open>HOL-Library.Char_ord\<close> characters.
\<close>

section \<open>Sort keys\<close>

definition sanitize_char :: "char \<Rightarrow> string" where
  "sanitize_char c = (if c \<in> set (''/:*?<>|'' @ [char_of (92 :: nat), char_of (34 :: nat)]) then ''_''
     else if c = CHR '' '' then [] else [c])"

definition sanitizeField :: "string \<Rightarrow> string" where
  "sanitizeField value = take 100 (concat (map sanitize_char value))"

definition reverseLexicographical :: "string \<Rightarrow> string" where
  "reverseLexicographical value = CHR ''~'' # value"

definition normalizeStringField :: "string \<Rightarrow> string \<Rightarrow> string" where
  "normalizeStringField value direction =
     (if direction = ''desc'' then reverseLexicographical value else sanitizeField value)"

definition normalizeNumericField :: "string \<Rightarrow> nat \<Rightarrow> string \<Rightarrow> string" where
  "normalizeNumericField value width direction =
     (case Atoi value of (num, ok) \<Rightarrow>
        if \<not> ok then sanitizeField value
        else if direction = ''desc'' then zero_pad width (int64 (2147483647 - num))
        else zero_pad width num)"

definition getSortKey :: "StreamInfo \<Rightarrow> string \<Rightarrow> string \<Rightarrow> string" where
  "getSortKey s key direction =
     (if key = ''tvg-id'' then normalizeNumericField (TvgID s) 10 direction
      else if key \<in> {''tvg-chno'', ''channel-id'', ''channel-number''}
      then normalizeNumericField (TvgChNo s) 10 direction
      else if key \<in> {''tvg-group'', ''group-title''} then normalizeStringField (Group s) direction
      else if key = ''tvg-type'' then normalizeStringField (TvgType s) direction
      else if key = ''source'' then normalizeNumericField (SourceM3U s) 5 direction
      else normalizeStringField (Title s) direction)"

section \<open>Merging two channels of one title\<close>

definition fill :: "string \<Rightarrow> string \<Rightarrow> string" where
  "fill old new = (if old = [] then new else old)"

definition merge_urls :: "(string \<times> url_map) list \<Rightarrow> (string \<times> url_map) list \<Rightarrow> (string \<times> url_map) list" where
  "merge_urls base new = foldl (\<lambda>b (key, value).
     AList.update key (case map_of b key of
         None \<Rightarrow> value
       | Some old \<Rightarrow> foldl (\<lambda>o' (k, v). AList.update k v o') old value) b) base new"

definition mergeStreamInfoAttributes :: "StreamInfo \<Rightarrow> StreamInfo \<Rightarrow> StreamInfo outcome" where
  "mergeStreamInfoAttributes base new =
     (case URLs new of
        None \<Rightarrow> Panic ''nil pointer dereference''
      | Some us \<Rightarrow>
          let earlier = (SourceM3U new < SourceM3U base
                \<or> SourceM3U new = SourceM3U base \<and> SourceIndex new < SourceIndex base) in
          Ok \<lparr>Title = fill (Title base) (Title new), TvgID = fill (TvgID base) (TvgID new),
              TvgChNo = fill (TvgChNo base) (TvgChNo new), TvgType = fill (TvgType base) (TvgType new),
              LogoURL = fill (LogoURL base) (LogoURL new), Group = fill (Group base) (Group new),
              URLs = Some (merge_urls (case URLs base of None \<Rightarrow> [] | Some b \<Rightarrow> b) us),
              SourceM3U = (if earlier then SourceM3U new else SourceM3U base),
              SourceIndex = (if earlier then SourceIndex new else SourceIndex base)\<rparr>)"

section \<open>Shards\<close>

definition mutexShards :: nat where
  "mutexShards = 4096"

record shardData =
  index :: "string \<Rightarrow> bool"
  buffer :: "(string \<times> StreamInfo) list"

text \<open>
  A shard file holds the members of a JSON object in their order, or what is left of one when
  writing it failed half-way.
\<close>

datatype shard_file = Missing | Broken | Members "(string \<times> StreamInfo) list"

record SortingManager =
  shardMap :: "nat \<Rightarrow> shardData option"
  sortingKey :: string
  sortingDir :: string
  files :: "nat \<Rightarrow> shard_file"

text \<open>
  Whether the calls to the file system succeed during an operation: \<open>os.Stat\<close>, the
  \<open>k\<close>-th \<open>os.Open\<close>, \<open>os.Create\<close>, and writing the encoded object.
\<close>

record sort_io =
  stat_ok :: bool
  open_ok :: "nat \<Rightarrow> bool"
  create_ok :: bool
  encode_ok :: bool

definition newSortingManager :: "environ \<Rightarrow> (nat \<Rightarrow> shard_file) \<Rightarrow> SortingManager" where
  "newSortingManager env disk = \<lparr>shardMap = \<lambda>_. None, sortingKey = Getenv env ''SORTING_KEY'',
     sortingDir = ToLower (Getenv env ''SORTING_DIRECTION''), files = disk\<rparr>"

definition Close :: "SortingManager \<Rightarrow> SortingManager" where
  "Close m = m\<lparr>files := \<lambda>_. Missing\<rparr>"

definition readShard :: "bool \<Rightarrow> nat \<Rightarrow> SortingManager \<Rightarrow> go_error + (string \<times> StreamInfo) list" where
  "readShard ok i m = (if \<not> ok then Inl (Errorf ''open'')
     else case files m i of
       Missing \<Rightarrow> Inr []
     | Broken \<Rightarrow> Inl (Errorf ''failed to decode shard'')
     | Members ms \<Rightarrow> Inr (decode_members ms))"

text \<open>\<open>encoding/json\<close> writes the members of a map by ascending key.\<close>

definition encode_members :: "(string \<times> StreamInfo) list \<Rightarrow> (string \<times> StreamInfo) list" where
  "encode_members es = map (\<lambda>(k, v). (json_string k, json_info v)) (sort_key fst es)"

definition writeShard ::
    "sort_io \<Rightarrow> nat \<Rightarrow> (string \<times> StreamInfo) list \<Rightarrow> SortingManager \<Rightarrow> go_error option \<times> SortingManager" where
  "writeShard io i es m =
     (if \<not> create_ok io then (Some (Errorf ''failed to create shard file''), m)
      else if \<not> encode_ok io
      then (Some (Errorf ''failed to encode shard''), m\<lparr>files := (files m)(i := Broken)\<rparr>)
      else (None, m\<lparr>files := (files m)(i := Members (encode_members es))\<rparr>))"

definition handleExisting ::
    "nat \<Rightarrow> sort_io \<Rightarrow> nat \<Rightarrow> string \<Rightarrow> StreamInfo \<Rightarrow> SortingManager \<Rightarrow> (go_error option \<times> SortingManager) outcome" where
  "handleExisting r io i title s m =
     (case readShard (open_ok io r) i m of
        Inl e \<Rightarrow> Ok (Some e, m)
      | Inr es \<Rightarrow>
          (case map_of es title of
             Some existing \<Rightarrow> bind_outcome (mergeStreamInfoAttributes existing s)
               (\<lambda>merged. Ok (writeShard io i (AList.update title merged es) m))
           | None \<Rightarrow> Ok (writeShard io i (AList.update title s es) m)))"

definition flushShard ::
    "nat \<Rightarrow> sort_io \<Rightarrow> nat \<Rightarrow> shardData \<Rightarrow> SortingManager \<Rightarrow> go_error option \<times> shardData \<times> SortingManager" where
  "flushShard r io i d m =
     (if buffer d = [] then (None, d, m)
      else case readShard (open_ok io r) i m of
        Inl e \<Rightarrow> (Some e, d, m)
      | Inr es \<Rightarrow>
          (case writeShard io i (foldl (\<lambda>es (title, s). AList.update title s es) es (buffer d)) m of
             (Some e, m') \<Rightarrow> (Some e, d, m')
           | (None, m') \<Rightarrow> (None, d\<lparr>buffer := []\<rparr>, m')))"

definition put_shard :: "nat \<Rightarrow> shardData \<Rightarrow> SortingManager \<Rightarrow> SortingManager" where
  "put_shard i d m = m\<lparr>shardMap := (shardMap m)(i \<mapsto> d)\<rparr>"

text \<open>The end of \<open>AddToSorter\<close>: into the buffer, and out to the file when there are 250.\<close>

definition buffer_entry ::
    "nat \<Rightarrow> sort_io \<Rightarrow> nat \<Rightarrow> string \<Rightarrow> StreamInfo \<Rightarrow> shardData \<Rightarrow> SortingManager \<Rightarrow> go_error option \<times> SortingManager" where
  "buffer_entry r io i title s d m =
     (let d1 = d\<lparr>buffer := AList.update title (json_info s) (buffer d),
                 index := (index d)(title := True)\<rparr> in
      if length (buffer d1) \<ge> 250
      then (case flushShard r io i d1 m of (e, d2, m2) \<Rightarrow> (e, put_shard i d2 m2))
      else (None, put_shard i d1 m))"

definition shard_of :: "nat \<Rightarrow> SortingManager \<Rightarrow> shardData" where
  "shard_of i m = (case shardMap m i of None \<Rightarrow> \<lparr>index = \<lambda>_. False, buffer = []\<rparr> | Some d \<Rightarrow> d)"

definition AddToSorter ::
    "(string \<Rightarrow> nat) \<Rightarrow> sort_io \<Rightarrow> StreamInfo \<Rightarrow> SortingManager \<Rightarrow> (go_error option \<times> SortingManager) outcome" where
  "AddToSorter hash io s m =
     (let i = hash (Title s) mod mutexShards;
          title = sanitizeField (Title s);
          d = shard_of i m in
      if index d title then handleExisting 0 io i title s (put_shard i d m)
      else if stat_ok io \<and> files m i \<noteq> Missing then
        (case readShard (open_ok io 0) i m of
           Inl e \<Rightarrow> Ok (Some e, put_shard i d m)
         | Inr es \<Rightarrow>
             let d1 = d\<lparr>index := \<lambda>t. t \<in> fst ` set es \<or> index d t\<rparr> in
             if index d1 title then handleExisting 1 io i title s (put_shard i d1 m)
             else Ok (buffer_entry 1 io i title s d1 m))
      else Ok (buffer_entry 0 io i title s d m))"

section \<open>Handing the channels out\<close>

fun flush_all :: "(nat \<Rightarrow> sort_io) \<Rightarrow> nat list \<Rightarrow> SortingManager \<Rightarrow> SortingManager" where
  "flush_all gio [] m = m"
| "flush_all gio (i # is) m =
     flush_all gio is (case shardMap m i of
         None \<Rightarrow> m
       | Some d \<Rightarrow> (case flushShard 0 (gio i) i d m of (e, d', m') \<Rightarrow> put_shard i d' m'))"

fun collect :: "(nat \<Rightarrow> sort_io) \<Rightarrow> nat list \<Rightarrow> SortingManager \<Rightarrow> go_error + StreamInfo list" where
  "collect gio [] m = Inr []"
| "collect gio (i # is) m =
     (if files m i = Missing \<and> open_ok (gio i) 1 then collect gio is m
      else case readShard (open_ok (gio i) 1) i m of
        Inl e \<Rightarrow> Inl e
      | Inr es \<Rightarrow> (case collect gio is m of Inl e \<Rightarrow> Inl e | Inr rest \<Rightarrow> Inr (map snd es @ rest)))"

definition GetSortedEntries ::
    "((StreamInfo \<Rightarrow> StreamInfo \<Rightarrow> bool) \<Rightarrow> StreamInfo list \<Rightarrow> StreamInfo list) \<Rightarrow> (nat \<Rightarrow> sort_io)
      \<Rightarrow> SortingManager \<Rightarrow> (go_error + StreamInfo list) \<times> SortingManager" where
  "GetSortedEntries srt gio m =
     (let m1 = flush_all gio [0..<mutexShards] m in
      (case collect gio [0..<mutexShards] m1 of
         Inl e \<Rightarrow> Inl e
       | Inr entries \<Rightarrow>
           Inr (srt (\<lambda>a b. getSortKey a (sortingKey m) (sortingDir m)
                          < getSortKey b (sortingKey m) (sortingDir m)) entries), m1))"

section \<open>Numbers in keys\<close>

text \<open>Digit strings of one length are ordered as their values are.\<close>

lemma digits_val_append: "digits_val (xs @ ys) = digits_val xs * 10 ^ length ys + digits_val ys"
proof (induction ys rule: rev_induct)
  case (snoc y ys)
  show ?case
    unfolding append_assoc [symmetric] digits_val_snoc snoc.IH by (simp add: algebra_simps)
qed (simp add: digits_val_def)

lemma digits_val_Cons: "digits_val (c # cs) = digit_val c * 10 ^ length cs + digits_val cs"
  using digits_val_append [of "[c]" cs] by (simp add: digits_val_def)

lemma digits_val_bound: "list_all is_digit ds \<Longrightarrow> digits_val ds < 10 ^ length ds"
proof (induction ds)
  case (Cons d ds)
  then have "digit_val d \<le> 9" by (auto simp: is_digit_def digit_val_def)
  then have "digit_val d * 10 ^ length ds \<le> 9 * 10 ^ length ds" by simp
  moreover have "digits_val ds < 10 ^ length ds" using Cons by simp
  moreover have "(10 :: nat) ^ length (d # ds) = 10 * 10 ^ length ds" by simp
  ultimately show ?case unfolding digits_val_Cons by linarith
qed (simp add: digits_val_def)

lemma digits_less_iff:
  "length xs = length ys \<Longrightarrow> list_all is_digit xs \<Longrightarrow> list_all is_digit ys
    \<Longrightarrow> xs < ys \<longleftrightarrow> digits_val xs < digits_val ys"
proof (induction xs ys rule: list_induct2)
  case (Cons x xs y ys)
  let ?p = "10 ^ length ys :: nat"
  have b: "digits_val xs < ?p" "digits_val ys < ?p"
    using digits_val_bound [of xs] digits_val_bound [of ys] Cons by simp_all
  have dv: "x < y \<longleftrightarrow> digit_val x < digit_val y" "x = y \<longleftrightarrow> digit_val x = digit_val y"
    using Cons.prems by (auto simp: is_digit_def digit_val_def less_char_def eq_diff_iff)
  have less: "digit_val a * ?p + u < digit_val b * ?p + v"
    if "digit_val a < digit_val b" "u < ?p" for a b u v
  proof -
    have "(digit_val a + 1) * ?p \<le> digit_val b * ?p" using that(1) by (intro mult_right_mono) simp_all
    then show ?thesis using that(2) by simp
  qed
  consider "digit_val x < digit_val y" | "digit_val x = digit_val y" | "digit_val y < digit_val x"
    by linarith
  then show ?case
  proof cases
    case 1
    then show ?thesis using less b Cons dv by (simp add: digits_val_Cons)
  next
    case 2
    then show ?thesis using Cons dv by (simp add: digits_val_Cons)
  next
    case 3
    then show ?thesis using less [OF 3 b(2), of "digits_val xs"] Cons dv by (simp add: digits_val_Cons)
  qed
qed simp

lemma length_nat_digits_le: "0 < w \<Longrightarrow> n < 10 ^ w \<Longrightarrow> length (nat_digits n) \<le> w"
proof (induction n arbitrary: w rule: nat_digits.induct)
  case (1 n)
  show ?case
  proof (cases "n < 10")
    case True
    then show ?thesis using 1 by (subst nat_digits.simps) simp
  next
    case False
    then obtain v where w: "w = Suc v" "0 < v" using "1.prems" by (cases w; cases "w - 1") auto
    then have "n div 10 < 10 ^ v" using "1.prems" by (simp add: less_mult_imp_div_less)
    with "1.IH" [OF False w(2)] w False show ?thesis by (subst nat_digits.simps) simp
  qed
qed

lemma digits_val_zeros: "digits_val (replicate k (CHR ''0'') @ ds) = digits_val ds"
  by (induction k) (simp_all add: digits_val_Cons digit_val_def)

lemma zero_pad_less_iff:
  assumes "0 < w" "0 \<le> a" "a < 10 ^ w" "0 \<le> b" "b < 10 ^ w"
  shows "zero_pad w a < zero_pad w b \<longleftrightarrow> a < b"
proof -
  have len: "length (nat_digits (nat x)) \<le> w" if "0 \<le> x" "x < 10 ^ w" for x :: int
    using assms(1) that by (intro length_nat_digits_le) (simp_all add: nat_less_iff)
  have dig: "list_all is_digit (zero_pad w x)" if "0 \<le> x" for x
    using that nat_digits_all_digits [of "nat x"]
    by (auto simp: zero_pad_def list_all_iff) (simp add: is_digit_def)
  have "zero_pad w a < zero_pad w b \<longleftrightarrow> digits_val (zero_pad w a) < digits_val (zero_pad w b)"
    by (rule digits_less_iff) (use assms len dig in \<open>auto simp: zero_pad_def\<close>)
  with assms show ?thesis by (auto simp: zero_pad_def digits_val_zeros)
qed

section \<open>No channel is lost, none is doubled\<close>

text \<open>The workers of \<open>processStreams\<close> hand every channel they receive to \<open>AddToSorter\<close>.\<close>

fun add_streams ::
    "(string \<Rightarrow> nat) \<Rightarrow> (sort_io \<times> StreamInfo) list \<Rightarrow> SortingManager
      \<Rightarrow> (go_error option list \<times> SortingManager) outcome" where
  "add_streams hash [] m = Ok ([], m)"
| "add_streams hash ((io, s) # ss) m =
     bind_outcome (AddToSorter hash io s m) (\<lambda>(e, m1).
     bind_outcome (add_streams hash ss m1) (\<lambda>(es, m2). Ok (e # es, m2)))"

text \<open>
  A channel belongs to the shard of its title and, there, to the key its title is stored under.
  \<open>keyed S m\<close> relates the state to the set \<open>S\<close> of the channels added so far: the keys of a shard,
  in its file and its buffer, are those of the channels of \<open>S\<close>, and what is stored under a key
  carries the title of one of them.
\<close>

definition key_of :: "(string \<Rightarrow> nat) \<Rightarrow> StreamInfo \<Rightarrow> nat \<times> string" where
  "key_of hash s = (hash (Title s) mod mutexShards, json_string (sanitizeField (Title s)))"

definition all_ok :: sort_io where
  "all_ok = \<lparr>stat_ok = True, open_ok = \<lambda>_. True, create_ok = True, encode_ok = True\<rparr>"

definition shard_entries :: "shard_file \<Rightarrow> (string \<times> StreamInfo) list" where
  "shard_entries f = (case f of Members ms \<Rightarrow> decode_members ms | _ \<Rightarrow> [])"

definition stems :: "(string \<Rightarrow> nat) \<Rightarrow> StreamInfo set \<Rightarrow> nat \<Rightarrow> string \<Rightarrow> StreamInfo \<Rightarrow> bool" where
  "stems hash S i k v \<longleftrightarrow>
     (\<exists>s \<in> S. key_of hash s = (i, json_string k) \<and> json_string (Title v) = json_string (Title s))"

definition buffered :: "SortingManager \<Rightarrow> nat \<Rightarrow> (string \<times> StreamInfo) list" where
  "buffered m i = (case shardMap m i of None \<Rightarrow> [] | Some d \<Rightarrow> buffer d)"

definition keyed :: "(string \<Rightarrow> nat) \<Rightarrow> StreamInfo set \<Rightarrow> SortingManager \<Rightarrow> bool" where
  "keyed hash S m \<longleftrightarrow> (\<forall>i.
      files m i \<noteq> Broken
    \<and> (\<forall>(k, v) \<in> set (shard_entries (files m i)). json_string k = k \<and> json_info v = v \<and> stems hash S i k v)
    \<and> (\<forall>(k, v) \<in> set (buffered m i). stems hash S i k v)
    \<and> fst ` set (shard_entries (files m i)) \<union> json_string ` fst ` set (buffered m i)
        = {k. (i, k) \<in> key_of hash ` S})"

lemma stems_mono: "stems hash S i k v \<Longrightarrow> stems hash (insert s S) i k v"
  by (auto simp: stems_def)

lemma stems_self:
  "stems hash (insert s S) (hash (Title s) mod mutexShards) (sanitizeField (Title s)) s"
  by (auto simp: stems_def key_of_def)

lemma stems_json: "stems hash S i (json_string k) (json_info v) \<longleftrightarrow> stems hash S i k v"
  by (simp add: stems_def)

lemma keyed_empty: "(\<forall>i. files m i = Missing) \<Longrightarrow> (\<forall>i. shardMap m i = None) \<Longrightarrow> keyed hash {} m"
  by (simp add: keyed_def shard_entries_def buffered_def)

lemma keyed_same_buffer:
  assumes "keyed hash S m" "buffer d = buffered m i"
  shows "keyed hash S (put_shard i d m)"
  using assms by (simp add: keyed_def buffered_def put_shard_def)

lemma encode_members_keys: "fst ` set (encode_members es) = json_string ` fst ` set es"
  by (force simp: encode_members_def)

lemma in_encode_members:
  "(k, v) \<in> set (encode_members es) \<Longrightarrow> \<exists>k' v'. (k', v') \<in> set es \<and> k = json_string k' \<and> v = json_info v'"
  by (force simp: encode_members_def)

lemma readShard_ok:
  "files m i \<noteq> Broken \<Longrightarrow> readShard (open_ok all_ok r) i m = Inr (shard_entries (files m i))"
  by (auto simp: readShard_def all_ok_def shard_entries_def split: shard_file.split)

lemma writeShard_ok:
  "writeShard all_ok i es m = (None, m\<lparr>files := (files m)(i := Members (encode_members es))\<rparr>)"
  by (simp add: writeShard_def all_ok_def)

text \<open>Rewriting the file of a shard keeps the relation when its entries and the buffer fit.\<close>

lemma keyed_write:
  assumes m: "keyed hash S m" and S: "S \<subseteq> S'"
    and es: "\<And>k v. (k, v) \<in> set es \<Longrightarrow> stems hash S' i k v"
    and b: "\<And>k v. (k, v) \<in> set (buffered m' i) \<Longrightarrow> stems hash S' i k v"
    and keys: "json_string ` fst ` set es \<union> json_string ` fst ` set (buffered m' i) = {k. (i, k) \<in> key_of hash ` S'}"
    and m': "files m' = (files m)(i := Members (encode_members es))"
    and other: "\<And>j. j \<noteq> i \<Longrightarrow> shardMap m' j = shardMap m j"
    and new: "\<And>s. s \<in> S' - S \<Longrightarrow> fst (key_of hash s) = i"
  shows "keyed hash S' m'"
  unfolding keyed_def
proof (intro allI)
  fix j
  have mono: "stems hash S j k v \<Longrightarrow> stems hash S' j k v" for k v
    using S by (auto simp: stems_def)
  show "files m' j \<noteq> Broken
    \<and> (\<forall>(k, v) \<in> set (shard_entries (files m' j)). json_string k = k \<and> json_info v = v \<and> stems hash S' j k v)
    \<and> (\<forall>(k, v) \<in> set (buffered m' j). stems hash S' j k v)
    \<and> fst ` set (shard_entries (files m' j)) \<union> json_string ` fst ` set (buffered m' j)
        = {k. (j, k) \<in> key_of hash ` S'}"
  proof (cases "j = i")
    case True
    have "json_string k = k \<and> json_info v = v \<and> stems hash S' i k v"
      if "(k, v) \<in> set (shard_entries (files m' i))" for k v
    proof -
      have "(k, v) \<in> set (encode_members es)"
        using that m' by (auto simp: shard_entries_def dest: in_decode_members)
      then obtain k' v' where "(k', v') \<in> set es" "k = json_string k'" "v = json_info v'"
        using in_encode_members by blast
      then show ?thesis using es by (simp add: stems_json)
    qed
    moreover have "fst ` set (shard_entries (files m' i)) = json_string ` fst ` set es"
      using m' by (simp add: shard_entries_def dom_decode_members encode_members_keys)
    ultimately show ?thesis using True m' keys b by auto
  next
    case False
    have "{k. (j, k) \<in> key_of hash ` S'} = {k. (j, k) \<in> key_of hash ` S}"
    proof -
      have "x \<in> S" if "x \<in> S'" "key_of hash x = (j, k)" for x k
        using that False new [of x] by (cases "x \<in> S") simp_all
      with S show ?thesis by (auto simp: image_iff) metis+
    qed
    moreover have "buffered m' j = buffered m j" "files m' j = files m j"
      using False other m' by (simp_all add: buffered_def)
    moreover have "files m j \<noteq> Broken
      \<and> (\<forall>(k, v) \<in> set (shard_entries (files m j)). json_string k = k \<and> json_info v = v \<and> stems hash S j k v)
      \<and> (\<forall>(k, v) \<in> set (buffered m j). stems hash S j k v)
      \<and> fst ` set (shard_entries (files m j)) \<union> json_string ` fst ` set (buffered m j)
          = {k. (j, k) \<in> key_of hash ` S}"
      using m unfolding keyed_def by blast
    ultimately show ?thesis by (auto intro: mono)
  qed
qed

lemma keyedD:
  assumes "keyed hash S m"
  shows "files m i \<noteq> Broken"
    "(k, v) \<in> set (shard_entries (files m i)) \<Longrightarrow> stems hash S i k v"
    "(k, v) \<in> set (shard_entries (files m i)) \<Longrightarrow> json_string k = k \<and> json_info v = v"
    "(k, v) \<in> set (buffered m i) \<Longrightarrow> stems hash S i k v"
    "fst ` set (shard_entries (files m i)) \<union> json_string ` fst ` set (buffered m i) = {k. (i, k) \<in> key_of hash ` S}"
  using assms unfolding keyed_def by blast+

lemma json_keys_entries:
  "keyed hash S m \<Longrightarrow> json_string ` fst ` set (shard_entries (files m i)) = fst ` set (shard_entries (files m i))"
  using keyedD(3) [of hash S m _ _ i] by (force simp: image_iff)

lemma put_shard_simps [simp]:
  "files (put_shard i d m) = files m" "buffered (put_shard i d m) j = (if j = i then buffer d else buffered m j)"
  "sortingKey (put_shard i d m) = sortingKey m" "sortingDir (put_shard i d m) = sortingDir m"
  by (auto simp: put_shard_def buffered_def)

lemma put_shard_same [simp]: "put_shard i d' (put_shard i d m) = put_shard i d' m"
  by (simp add: put_shard_def)

lemma keyed_insert_write:
  assumes m: "keyed hash S m" and i: "i = hash (Title s) mod mutexShards"
    and t: "title = sanitizeField (Title s)" and x: "stems hash (insert s S) i title x"
  shows "keyed hash (insert s S)
    (m\<lparr>files := (files m)(i := Members (encode_members (AList.update title x (shard_entries (files m i)))))\<rparr>)"
proof (rule keyed_write [OF m])
  let ?es = "AList.update title x (shard_entries (files m i))"
  let ?m = "m\<lparr>files := (files m)(i := Members (encode_members ?es))\<rparr>"
  have buf: "buffered ?m i = buffered m i" by (simp add: buffered_def)
  show "stems hash (insert s S) i k v" if "(k, v) \<in> set ?es" for k v
    using in_set_update [OF that] x keyedD(2) [OF m] by (auto intro: stems_mono)
  show "stems hash (insert s S) i k v" if "(k, v) \<in> set (buffered ?m i)" for k v
    using that keyedD(4) [OF m] buf by (auto intro: stems_mono)
  have "json_string ` fst ` set ?es = insert (json_string title) (fst ` set (shard_entries (files m i)))"
    using json_keys_entries [OF m, of i] by (simp add: dom_update)
  moreover have "{k. (i, k) \<in> key_of hash ` insert s S} = insert (json_string title) {k. (i, k) \<in> key_of hash ` S}"
    using i t by (auto simp: key_of_def)
  ultimately show "json_string ` fst ` set ?es \<union> json_string ` fst ` set (buffered ?m i)
      = {k. (i, k) \<in> key_of hash ` insert s S}"
    using keyedD(5) [OF m, of i] buf by simp
qed (use i in \<open>auto simp: key_of_def\<close>)

lemma merge_Ok:
  "URLs s \<noteq> None \<Longrightarrow> \<exists>v. mergeStreamInfoAttributes b s = Ok v \<and> Title v = fill (Title b) (Title s)"
  by (auto simp: mergeStreamInfoAttributes_def Let_def)

lemma handleExisting_ok:
  assumes m: "keyed hash S m" and i: "i = hash (Title s) mod mutexShards"
    and t: "title = sanitizeField (Title s)" and u: "URLs s \<noteq> None"
  shows "\<exists>m'. handleExisting r all_ok i title s m = Ok (None, m') \<and> keyed hash (insert s S) m'
    \<and> sortingKey m' = sortingKey m \<and> sortingDir m' = sortingDir m"
proof -
  let ?es = "shard_entries (files m i)"
  have self: "stems hash (insert s S) i title s" using stems_self i t by simp
  show ?thesis
  proof (cases "map_of ?es title")
    case None
    then show ?thesis
      using keyed_insert_write [where x = s, OF m i t self] keyedD(1) [OF m]
      by (simp add: handleExisting_def readShard_ok writeShard_ok)
  next
    case (Some b)
    obtain v where v: "mergeStreamInfoAttributes b s = Ok v" "Title v = fill (Title b) (Title s)"
      using merge_Ok [OF u] by blast
    have "stems hash (insert s S) i title b"
      using keyedD(2) [OF m map_of_SomeD [OF Some]] by (rule stems_mono)
    with self v(2) have "stems hash (insert s S) i title v"
      by (auto simp: stems_def fill_def)
    then show ?thesis
      using keyed_insert_write [where x = v, OF m i t] keyedD(1) [OF m] Some v
      by (simp add: handleExisting_def readShard_ok writeShard_ok)
  qed
qed

lemma flushShard_ok:
  assumes m: "keyed hash S (put_shard i d m)"
  shows "\<exists>d' m'. flushShard r all_ok i d m = (None, d', m') \<and> keyed hash S (put_shard i d' m') \<and> buffer d' = []
    \<and> shardMap m' = shardMap m \<and> sortingKey m' = sortingKey m \<and> sortingDir m' = sortingDir m"
proof (cases "buffer d = []")
  case True
  with m show ?thesis by (simp add: flushShard_def)
next
  case False
  let ?es = "foldl (\<lambda>es (title, s). AList.update title s es) (shard_entries (files m i)) (buffer d)"
  let ?d = "d\<lparr>buffer := []\<rparr>"
  let ?m = "m\<lparr>files := (files m)(i := Members (encode_members ?es))\<rparr>"
  have "keyed hash S (put_shard i ?d ?m)"
  proof (rule keyed_write [OF m order.refl])
    show "stems hash S i k v" if "(k, v) \<in> set ?es" for k v
      using foldl_update_members [OF that] keyedD(2,4) [OF m, of k v i] by auto
    show "json_string ` fst ` set ?es \<union> json_string ` fst ` set (buffered (put_shard i ?d ?m) i)
        = {k. (i, k) \<in> key_of hash ` S}"
      using keyedD(5) [OF m, of i] json_keys_entries [OF m, of i]
      by (simp add: foldl_update_keys image_Un)
    show "stems hash S i k v" if "(k, v) \<in> set (buffered (put_shard i ?d ?m) i)" for k v
      using that by simp
  qed (simp_all add: put_shard_def)
  with False keyedD(1) [OF m, of i] show ?thesis
    by (simp add: flushShard_def readShard_ok writeShard_ok)
qed

lemma buffer_entry_ok:
  assumes m: "keyed hash S (put_shard i d m)" and i: "i = hash (Title s) mod mutexShards"
    and t: "title = sanitizeField (Title s)"
  shows "\<exists>m'. buffer_entry r all_ok i title s d m = (None, m') \<and> keyed hash (insert s S) m'
    \<and> sortingKey m' = sortingKey m \<and> sortingDir m' = sortingDir m"
proof -
  let ?d = "d\<lparr>buffer := AList.update title (json_info s) (buffer d), index := (index d)(title := True)\<rparr>"
  have k: "keyed hash (insert s S) (put_shard i ?d m)"
    unfolding keyed_def
  proof (intro allI)
    fix j
    have new: "{k. (j, k) \<in> key_of hash ` insert s S}
        = {k. (j, k) \<in> key_of hash ` S} \<union> (if j = i then {json_string title} else {})"
      using i t by (auto simp: key_of_def)
    have buf: "stems hash (insert s S) j k v" if "(k, v) \<in> set (buffered (put_shard i ?d m) j)" for k v
    proof -
      note p = that
      consider "j = i" "k = title" "v = json_info s" | "(k, v) \<in> set (buffered (put_shard i d m) j)"
        using p in_set_update [of "(k, v)" title "json_info s" "buffer d"]
        by (cases "j = i") auto
      then show ?thesis
      proof cases
        case 1
        then show ?thesis using stems_self [of hash s S] i t by (simp add: stems_def)
      qed (use keyedD(4) [OF m] in \<open>blast intro: stems_mono\<close>)
    qed
    have keys: "fst ` set (shard_entries (files m j)) \<union> json_string ` fst ` set (buffered (put_shard i ?d m) j)
        = {k. (j, k) \<in> key_of hash ` insert s S}"
      unfolding new keyedD(5) [OF m, of j, symmetric]
      by (cases "j = i") (simp_all add: dom_update)
    show "files (put_shard i ?d m) j \<noteq> Broken
      \<and> (\<forall>(k, v) \<in> set (shard_entries (files (put_shard i ?d m) j)).
            json_string k = k \<and> json_info v = v \<and> stems hash (insert s S) j k v)
      \<and> (\<forall>(k, v) \<in> set (buffered (put_shard i ?d m) j). stems hash (insert s S) j k v)
      \<and> fst ` set (shard_entries (files (put_shard i ?d m) j)) \<union> json_string ` fst ` set (buffered (put_shard i ?d m) j)
          = {k. (j, k) \<in> key_of hash ` insert s S}"
      using keyedD(1-3) [where i = j, OF m] buf keys by (auto intro: stems_mono simp del: put_shard_simps(2))
  qed
  obtain d' m' where f: "flushShard r all_ok i ?d m = (None, d', m')" "keyed hash (insert s S) (put_shard i d' m')"
      "sortingKey m' = sortingKey m" "sortingDir m' = sortingDir m"
    using flushShard_ok [OF k] by blast
  with k show ?thesis by (simp add: buffer_entry_def Let_def)
qed

lemma AddToSorter_ok:
  assumes m: "keyed hash S m" and u: "URLs s \<noteq> None"
  shows "\<exists>m'. AddToSorter hash all_ok s m = Ok (None, m') \<and> keyed hash (insert s S) m'
    \<and> sortingKey m' = sortingKey m \<and> sortingDir m' = sortingDir m"
proof -
  let ?i = "hash (Title s) mod mutexShards"
  let ?d = "shard_of ?i m"
  have put: "keyed hash S (put_shard ?i d m)" if "buffer d = buffer ?d" for d
    using that by (intro keyed_same_buffer [OF m]) (simp add: buffered_def shard_of_def split: option.splits)
  have existing: "\<exists>m'. handleExisting r all_ok ?i (sanitizeField (Title s)) s (put_shard ?i d m) = Ok (None, m')
      \<and> keyed hash (insert s S) m' \<and> sortingKey m' = sortingKey m \<and> sortingDir m' = sortingDir m"
    if "buffer d = buffer ?d" for r d
    using handleExisting_ok [where i = ?i, OF put [OF that] refl refl u, of r] by simp
  have buffering: "\<exists>m'. buffer_entry r all_ok ?i (sanitizeField (Title s)) s d m = (None, m')
      \<and> keyed hash (insert s S) m' \<and> sortingKey m' = sortingKey m \<and> sortingDir m' = sortingDir m"
    if "buffer d = buffer ?d" for r d
    using buffer_entry_ok [where i = ?i, OF put [OF that] refl refl, of r] by simp
  have io: "stat_ok all_ok" by (simp add: all_ok_def)
  note read = readShard_ok [where i = ?i and r = 0, OF keyedD(1) [OF m]]
  let ?new = "\<lambda>t. t \<in> fst ` set (shard_entries (files m ?i)) \<or> index ?d t"
  consider "index ?d (sanitizeField (Title s))"
    | "\<not> index ?d (sanitizeField (Title s))" "files m ?i = Missing"
    | "\<not> index ?d (sanitizeField (Title s))" "files m ?i \<noteq> Missing" "?new (sanitizeField (Title s))"
    | "\<not> index ?d (sanitizeField (Title s))" "files m ?i \<noteq> Missing" "\<not> ?new (sanitizeField (Title s))"
    by blast
  then show ?thesis
  proof cases
    case 1
    then show ?thesis using existing [OF refl, of 0] by (simp only: AddToSorter_def Let_def if_True)
  next
    case 2
    then show ?thesis using buffering [OF refl, of 0] by (simp add: AddToSorter_def Let_def)
  next
    case 3
    then show ?thesis using existing [of "?d\<lparr>index := ?new\<rparr>" 1] io read
      by (simp add: AddToSorter_def Let_def)
  next
    case 4
    then show ?thesis using buffering [of "?d\<lparr>index := ?new\<rparr>" 1] io read
      by (simp add: AddToSorter_def Let_def)
  qed
qed

lemma add_all_ok:
  "keyed hash S m \<Longrightarrow> \<forall>s \<in> set ss. URLs s \<noteq> None \<Longrightarrow>
    \<exists>m'. add_streams hash (map (Pair all_ok) ss) m = Ok (replicate (length ss) None, m')
      \<and> keyed hash (S \<union> set ss) m' \<and> sortingKey m' = sortingKey m \<and> sortingDir m' = sortingDir m"
proof (induction ss arbitrary: S m)
  case (Cons s ss)
  obtain m1 where "AddToSorter hash all_ok s m = Ok (None, m1)" "keyed hash (insert s S) m1"
      "sortingKey m1 = sortingKey m" "sortingDir m1 = sortingDir m"
    using AddToSorter_ok [OF Cons.prems(1), of s] Cons.prems(2) by auto
  with Cons.IH [of "insert s S" m1] Cons.prems(2) show ?case by auto
qed simp

lemma flush_all_ok:
  "keyed hash S m \<Longrightarrow> keyed hash S (flush_all (\<lambda>_. all_ok) is m)
    \<and> (\<forall>i. i \<in> set is \<or> buffered m i = [] \<longrightarrow> buffered (flush_all (\<lambda>_. all_ok) is m) i = [])"
proof (induction "is" arbitrary: m)
  case (Cons i "is")
  show ?case
  proof (cases "shardMap m i")
    case None
    then show ?thesis using Cons.IH [OF Cons.prems] by (auto simp: buffered_def)
  next
    case (Some d)
    have "keyed hash S (put_shard i d m)"
      by (rule keyed_same_buffer [OF Cons.prems]) (simp add: buffered_def Some)
    then obtain d' m' where f: "flushShard 0 all_ok i d m = (None, d', m')" "keyed hash S (put_shard i d' m')"
        "buffer d' = []" "shardMap m' = shardMap m"
      using flushShard_ok by blast
    then have "buffered m' = buffered m" by (simp add: buffered_def fun_eq_iff)
    with Cons.IH [OF f(2)] f Some show ?thesis by auto
  qed
qed simp

lemma collect_ok:
  "keyed hash S m \<Longrightarrow> collect (\<lambda>_. all_ok) is m = Inr (concat (map (\<lambda>i. map snd (shard_entries (files m i))) is))"
proof (induction "is")
  case (Cons i "is")
  then show ?case
    using readShard_ok [where i = i and r = 1, OF keyedD(1) [OF Cons.prems]]
    by (auto simp: shard_entries_def)
qed simp

definition listed :: "SortingManager \<Rightarrow> ((nat \<times> string) \<times> StreamInfo) list" where
  "listed m = concat (map (\<lambda>i. map (\<lambda>(k, v). ((i, k), v)) (shard_entries (files m i))) [0..<mutexShards])"

lemma distinct_shard_entries: "distinct (map fst (shard_entries f))"
  by (cases f) (simp_all add: shard_entries_def distinct_decode_members)

lemma listed_keys:
  assumes "keyed hash S m" "\<And>i. i < mutexShards \<Longrightarrow> buffered m i = []"
  shows "distinct (map fst (listed m))" "fst ` set (listed m) = key_of hash ` S"
    "(p, v) \<in> set (listed m) \<Longrightarrow> \<exists>s \<in> S. key_of hash s = p \<and> Title v = json_string (Title s)"
proof -
  have "map fst (listed m) = concat (map (\<lambda>i. map (Pair i) (map fst (shard_entries (files m i)))) [0..<mutexShards])"
    by (simp add: listed_def map_concat comp_def split_beta)
  moreover have "distinct (concat (map (\<lambda>i. map (Pair i) (map fst (shard_entries (files m i)))) js))"
    if "distinct js" for js :: "nat list"
    using that distinct_shard_entries by (induction js) (auto simp: distinct_map inj_on_def)
  ultimately show "distinct (map fst (listed m))" by simp
  have "k \<in> fst ` set (shard_entries (files m i)) \<longleftrightarrow> (i, k) \<in> key_of hash ` S" if "i < mutexShards" for i k
    using keyedD(5) [OF assms(1), of i] assms(2) [OF that] by auto
  moreover have "fst (key_of hash s) < mutexShards" for s
    by (simp add: key_of_def mutexShards_def)
  moreover have "fst ` set (listed m) = {(i, k). i < mutexShards \<and> k \<in> fst ` set (shard_entries (files m i))}"
    by (force simp: listed_def)
  ultimately show "fst ` set (listed m) = key_of hash ` S"
    by (auto simp: image_iff) (metis fst_conv)+
  show "\<exists>s \<in> S. key_of hash s = p \<and> Title v = json_string (Title s)" if pv: "(p, v) \<in> set (listed m)"
  proof -
    obtain i k where p: "p = (i, k)" "(k, v) \<in> set (shard_entries (files m i))"
      using pv by (auto simp: listed_def)
    have "json_string k = k" "Title (json_info v) = Title v"
      using keyedD(3) [OF assms(1) p(2)] by simp_all
    moreover obtain s where "s \<in> S" "key_of hash s = (i, json_string k)" "json_string (Title v) = json_string (Title s)"
      using keyedD(2) [OF assms(1) p(2)] unfolding stems_def by blast
    ultimately show ?thesis using p(1) by auto
  qed
qed

lemma GetSortedEntries_ok:
  assumes m: "keyed hash S m" and srt: "slice_sorter srt"
  shows "\<exists>out m'. GetSortedEntries srt (\<lambda>_. all_ok) m = (Inr out, m') \<and> keyed hash S m'
    \<and> (\<forall>i < mutexShards. buffered m' i = []) \<and> mset out = mset (map snd (listed m'))"
proof -
  let ?m = "flush_all (\<lambda>_. all_ok) [0..<mutexShards] m"
  have k: "keyed hash S ?m" "\<forall>i < mutexShards. buffered ?m i = []"
    using flush_all_ok [OF m, of "[0..<mutexShards]"] by auto
  have "map snd (listed ?m) = concat (map (\<lambda>i. map snd (shard_entries (files ?m i))) [0..<mutexShards])"
    by (simp add: listed_def map_concat comp_def split_beta)
  with k collect_ok [OF k(1), of "[0..<mutexShards]"] show ?thesis
    by (simp add: GetSortedEntries_def Let_def slice_sorter.mset_srt [OF srt] del: mset_map)
qed

lemma new_manager_keyed: "keyed hash {} (newSortingManager env (\<lambda>_. Missing))"
  by (rule keyed_empty) (simp_all add: newSortingManager_def)

lemma listed_no_urls:
  assumes "keyed hash S m" "(p, v) \<in> set (listed m)"
  shows "URLs v = None"
proof -
  obtain i k where "(k, v) \<in> set (shard_entries (files m i))"
    using assms(2) by (auto simp: listed_def)
  then have "json_info v = v" using keyedD(3) [OF assms(1)] by blast
  then show ?thesis by (metis json_info_sel(9))
qed

lemma sort_run_ok:
  assumes "slice_sorter srt" and "\<forall>s \<in> set ss. URLs s \<noteq> None"
  shows "\<exists>m out m' ps.
      add_streams hash (map (Pair all_ok) ss) (newSortingManager env (\<lambda>_. Missing)) = Ok (replicate (length ss) None, m)
    \<and> GetSortedEntries srt (\<lambda>_. all_ok) m = (Inr out, m')
    \<and> mset (map snd ps) = mset out \<and> distinct (map fst ps)
    \<and> set (map fst ps) = key_of hash ` set ss
    \<and> (\<forall>(p, v) \<in> set ps. (\<exists>s \<in> set ss. key_of hash s = p \<and> Title v = json_string (Title s)) \<and> URLs v = None)"
proof -
  obtain m where m: "add_streams hash (map (Pair all_ok) ss) (newSortingManager env (\<lambda>_. Missing))
      = Ok (replicate (length ss) None, m)" "keyed hash (set ss) m"
    using add_all_ok [OF new_manager_keyed assms(2)] by auto
  obtain out m' where g: "GetSortedEntries srt (\<lambda>_. all_ok) m = (Inr out, m')" "keyed hash (set ss) m'"
      "\<forall>i < mutexShards. buffered m' i = []" "mset out = mset (map snd (listed m'))"
    using GetSortedEntries_ok [OF m(2) assms(1)] by blast
  have "(\<exists>s \<in> set ss. key_of hash s = p \<and> Title v = json_string (Title s)) \<and> URLs v = None"
    if "(p, v) \<in> set (listed m')" for p v
    using listed_keys(3) [OF g(2) _ that] g(3) listed_no_urls [OF g(2) that] by blast
  with m(1) g(1,4) listed_keys(1,2) [OF g(2)] g(3) show ?thesis
    by (intro exI [of _ m] exI [of _ out] exI [of _ m'] exI [of _ "listed m'"]) auto
qed

lemma sorted_by_key:
  assumes "slice_sorter srt" "GetSortedEntries srt gio m = (Inr out, m')"
  shows "sorted (map (\<lambda>s. getSortKey s (sortingKey m) (sortingDir m)) out)"
  using assms(2) slice_sorter.srt_key_sorted [OF assms(1), of "\<lambda>s. getSortKey s (sortingKey m) (sortingDir m)"]
  by (auto simp: GetSortedEntries_def Let_def split: sum.splits)

text \<open>C18. With a file system that does its work, every channel that was added is handed out, and
  no two entries handed out share a title: the entries correspond one to one to the pairs of
  shard and sanitized title of the channels added, and each carries the title of one of
  those.  They come in ascending order of the key that \<^verbatim>\<open>SORTING_KEY\<close> and \<^verbatim>\<open>SORTING_DIRECTION\<close>
  select.\<close>

theorem every_channel_listed_once:
  assumes "slice_sorter srt" and "\<forall>s \<in> set ss. URLs s \<noteq> None"
  shows "\<exists>errs m out m' ps.
      add_streams hash (map (Pair all_ok) ss) (newSortingManager env (\<lambda>_. Missing)) = Ok (errs, m)
    \<and> set errs \<subseteq> {None}
    \<and> GetSortedEntries srt (\<lambda>_. all_ok) m = (Inr out, m')
    \<and> sorted (map (\<lambda>s. getSortKey s (Getenv env ''SORTING_KEY'') (ToLower (Getenv env ''SORTING_DIRECTION''))) out)
    \<and> mset (map snd ps) = mset out \<and> distinct (map fst ps)
    \<and> set (map fst ps) = key_of hash ` set ss
    \<and> (\<forall>(p, v) \<in> set ps. \<exists>s \<in> set ss. key_of hash s = p \<and> Title v = json_string (Title s))"
proof -
  let ?new = "newSortingManager env (\<lambda>_. Missing)"
  obtain m out m' ps where r:
      "add_streams hash (map (Pair all_ok) ss) ?new = Ok (replicate (length ss) None, m)"
      "GetSortedEntries srt (\<lambda>_. all_ok) m = (Inr out, m')" "mset (map snd ps) = mset out"
      "distinct (map fst ps)" "set (map fst ps) = key_of hash ` set ss"
      "\<forall>(p, v) \<in> set ps. (\<exists>s \<in> set ss. key_of hash s = p \<and> Title v = json_string (Title s)) \<and> URLs v = None"
    using sort_run_ok [OF assms] by blast
  have "sortingKey m = sortingKey ?new" "sortingDir m = sortingDir ?new"
    using add_all_ok [OF new_manager_keyed assms(2), of hash env] r(1) by auto
  then have keys: "sorted (map (\<lambda>s. getSortKey s (Getenv env ''SORTING_KEY'') (ToLower (Getenv env ''SORTING_DIRECTION''))) out)"
    using sorted_by_key [OF assms(1) r(2)] by (simp add: newSortingManager_def)
  have "set (replicate (length ss) None) \<subseteq> {None :: go_error option}" by auto
  moreover have "\<forall>(p, v) \<in> set ps. \<exists>s \<in> set ss. key_of hash s = p \<and> Title v = json_string (Title s)"
    using r(6) by blast
  ultimately show ?thesis using r(1-5) keys by blast
qed

definition sample_info :: StreamInfo where
  "sample_info = \<lparr>Title = ''News 1'', TvgID = [], TvgChNo = ''10'', TvgType = [], LogoURL = [], Group = [],
     URLs = Some [], SourceM3U = ''1'', SourceIndex = 4\<rparr>"

theorem every_channel_listed_once_witness:
  "let ss = [sample_info, sample_info\<lparr>Title := ''News 2''\<rparr>, sample_info\<lparr>Group := ''g''\<rparr>] in
   \<exists>errs m out m' ps.
      add_streams length (map (Pair all_ok) ss) (newSortingManager [(''SORTING_KEY'', ''tvg-chno'')] (\<lambda>_. Missing)) = Ok (errs, m)
    \<and> set errs \<subseteq> {None}
    \<and> GetSortedEntries insertion_sort (\<lambda>_. all_ok) m = (Inr out, m')
    \<and> sorted (map (\<lambda>s. getSortKey s (Getenv [(''SORTING_KEY'', ''tvg-chno'')] ''SORTING_KEY'')
        (ToLower (Getenv [(''SORTING_KEY'', ''tvg-chno'')] ''SORTING_DIRECTION''))) out)
    \<and> mset (map snd ps) = mset out \<and> distinct (map fst ps)
    \<and> set (map fst ps) = key_of length ` set ss
    \<and> (\<forall>(p, v) \<in> set ps. \<exists>s \<in> set ss. key_of length s = p \<and> Title v = json_string (Title s))"
  unfolding Let_def
  by (rule every_channel_listed_once [OF insertion.slice_sorter_axioms]) (simp add: sample_info_def)

section \<open>The order in which they are handed out\<close>

definition chno :: "StreamInfo \<Rightarrow> int" where
  "chno v = fst (Atoi (TvgChNo v))"

lemma chno_key:
  assumes "key \<in> {''tvg-chno'', ''channel-id'', ''channel-number''}" "snd (Atoi (TvgChNo v))"
  shows "getSortKey v key dir = (if dir = ''desc'' then zero_pad 10 (int64 (2147483647 - chno v)) else zero_pad 10 (chno v))"
  using assms by (auto simp: getSortKey_def normalizeNumericField_def chno_def split: prod.split)

text \<open>Sorting by channel number is numeric although the keys are strings: when the numbers are
  between 0 and 9999999999 (2147483647 for \<open>desc\<close>), channel 9 comes before channel 10, and with
  the direction \<open>desc\<close> after it.\<close>

theorem channel_numbers_sort_numerically:
  assumes "slice_sorter srt"
    and key: "sortingKey m \<in> {''tvg-chno'', ''channel-id'', ''channel-number''}"
    and "GetSortedEntries srt gio m = (Inr out, m')"
    and nums: "\<forall>v \<in> set out. snd (Atoi (TvgChNo v)) \<and> 0 \<le> chno v
      \<and> chno v \<le> (if sortingDir m = ''desc'' then 2147483647 else 9999999999)"
  shows "if sortingDir m = ''desc'' then sorted (rev (map chno out)) else sorted (map chno out)"
proof -
  have pad: "zero_pad 10 a \<le> zero_pad 10 b \<longleftrightarrow> a \<le> b"
    if "0 \<le> a" "a \<le> 9999999999" "0 \<le> b" "b \<le> 9999999999" for a b :: int
    using zero_pad_less_iff [of 10 b a] that by (simp add: not_less [symmetric])
  have keys: "sorted_wrt (\<lambda>v w. getSortKey v (sortingKey m) (sortingDir m) \<le> getSortKey w (sortingKey m) (sortingDir m)) out"
    using sorted_by_key [OF assms(1,3)] by (simp add: sorted_map)
  show ?thesis
  proof (cases "sortingDir m = ''desc''")
    case True
    have "chno w \<le> chno v" if "v \<in> set out" "w \<in> set out"
        "getSortKey v (sortingKey m) (sortingDir m) \<le> getSortKey w (sortingKey m) (sortingDir m)" for v w
    proof -
      have "0 \<le> chno v" "chno v \<le> 2147483647" "0 \<le> chno w" "chno w \<le> 2147483647"
        "snd (Atoi (TvgChNo v))" "snd (Atoi (TvgChNo w))"
        using nums True that(1,2) by auto
      with that(3) True key show ?thesis
        using pad [of "2147483647 - chno v" "2147483647 - chno w"] by (simp only: chno_key) simp
    qed
    then have "sorted_wrt (\<lambda>v w. chno w \<le> chno v) out"
      by (rule sorted_wrt_mono_rel [OF _ keys])
    with True show ?thesis by (simp add: sorted_wrt_rev sorted_wrt_map flip: rev_map)
  next
    case False
    have "sorted_wrt (\<lambda>v w. chno v \<le> chno w) out"
      by (rule sorted_wrt_mono_rel [OF _ keys])
        (use nums False key in \<open>simp add: chno_key pad\<close>)
    with False show ?thesis by (simp add: sorted_map)
  qed
qed

text \<open>A manager with one shard on disk, for concrete runs.\<close>

definition on_disk :: "string \<Rightarrow> string \<Rightarrow> (string \<times> StreamInfo) list \<Rightarrow> SortingManager" where
  "on_disk key dir ms = \<lparr>shardMap = \<lambda>_. None, sortingKey = key, sortingDir = dir,
     files = (\<lambda>_. Missing)(0 := Members ms)\<rparr>"

lemma flush_all_none: "\<forall>i \<in> set is. shardMap m i = None \<Longrightarrow> flush_all gio is m = m"
  by (induction "is") simp_all

lemma collect_missing:
  "\<forall>i \<in> set is. files m i = Missing \<and> open_ok (gio i) 1 \<Longrightarrow> collect gio is m = Inr []"
  by (induction "is") simp_all

lemma GetSortedEntries_on_disk:
  "GetSortedEntries srt (\<lambda>_. all_ok) (on_disk key dir ms)
    = (Inr (srt (\<lambda>a b. getSortKey a key dir < getSortKey b key dir) (map snd (decode_members ms))), on_disk key dir ms)"
proof -
  have "flush_all (\<lambda>_. all_ok) [0..<mutexShards] (on_disk key dir ms) = on_disk key dir ms"
    by (rule flush_all_none) (simp add: on_disk_def)
  moreover have "collect (\<lambda>_. all_ok) (0 # [1..<mutexShards]) (on_disk key dir ms) = Inr (map snd (decode_members ms))"
    using collect_missing [of "[1..<mutexShards]" "on_disk key dir ms" "\<lambda>_. all_ok"]
    by (simp add: readShard_def on_disk_def all_ok_def)
  moreover have "[0..<mutexShards] = 0 # [1..<mutexShards]"
    unfolding One_nat_def by (rule upt_conv_Cons) (simp add: mutexShards_def)
  ultimately show ?thesis
    by (simp add: GetSortedEntries_def Let_def, simp add: on_disk_def)
qed

definition nine_ten :: "(string \<times> StreamInfo) list" where
  "nine_ten = [(''a'', sample_info\<lparr>URLs := None\<rparr>), (''b'', sample_info\<lparr>URLs := None, TvgChNo := ''9''\<rparr>)]"

lemma nine_ten_sorted:
  "insertion_sort (\<lambda>a b. getSortKey a ''tvg-chno'' [] < getSortKey b ''tvg-chno'' []) (map snd (decode_members nine_ten))
    = [snd (nine_ten ! 1), snd (nine_ten ! 0)]"
  by code_simp

theorem channel_numbers_sort_numerically_witness:
  "sorted (map chno [snd (nine_ten ! 1), snd (nine_ten ! 0)])"
proof -
  have "\<forall>v \<in> set [snd (nine_ten ! 1), snd (nine_ten ! 0)]. snd (Atoi (TvgChNo v)) \<and> 0 \<le> chno v
      \<and> chno v \<le> 9999999999"
    by code_simp
  then show ?thesis
    using channel_numbers_sort_numerically [OF insertion.slice_sorter_axioms _
        GetSortedEntries_on_disk [of insertion_sort "''tvg-chno''" "[]" nine_ten, unfolded nine_ten_sorted]]
    by (simp add: on_disk_def)
qed

text \<open>The direction \<open>desc\<close> does not reverse the order of text fields: it only puts a tilde in
  front of every key, so channels sorted by group still come out by ascending group.\<close>

theorem desc_keeps_text_ascending:
  assumes "slice_sorter srt" "sortingKey m \<in> {''tvg-group'', ''group-title''}" "sortingDir m = ''desc''"
    and "GetSortedEntries srt gio m = (Inr out, m')"
  shows "sorted (map Group out)"
proof -
  have "getSortKey v (sortingKey m) (sortingDir m) = CHR ''~'' # Group v" for v
    using assms(2,3) by (auto simp: getSortKey_def normalizeStringField_def reverseLexicographical_def)
  with sorted_by_key [OF assms(1,4)] show ?thesis
    by (simp add: sorted_map)
qed

definition two_groups :: "(string \<times> StreamInfo) list" where
  "two_groups = [(''a'', sample_info\<lparr>URLs := None, Group := ''Sports''\<rparr>), (''b'', sample_info\<lparr>URLs := None, Group := ''News''\<rparr>)]"

lemma two_groups_sorted:
  "insertion_sort (\<lambda>a b. getSortKey a ''tvg-group'' ''desc'' < getSortKey b ''tvg-group'' ''desc'')
     (map snd (decode_members two_groups)) = [snd (two_groups ! 1), snd (two_groups ! 0)]"
  by code_simp

theorem desc_keeps_text_ascending_witness:
  "sorted (map Group [snd (two_groups ! 1), snd (two_groups ! 0)])"
  using desc_keeps_text_ascending [OF insertion.slice_sorter_axioms _ _
      GetSortedEntries_on_disk [of insertion_sort "''tvg-group''" "''desc''" two_groups, unfolded two_groups_sorted]]
  by (simp add: on_disk_def)

section \<open>Merging\<close>

lemma flush_all_append: "flush_all gio (xs @ ys) m = flush_all gio ys (flush_all gio xs m)"
  by (induction xs arbitrary: m) simp_all

lemma collect_append:
  "collect gio xs m = Inr as \<Longrightarrow> collect gio ys m = Inr bs \<Longrightarrow> collect gio (xs @ ys) m = Inr (as @ bs)"
  by (induction xs arbitrary: as) (auto split: if_splits sum.splits)

lemma upt_split_at: "i < n \<Longrightarrow> [0..<n] = [0..<i] @ i # [Suc i..<n]"
  using upt_add_eq_append [of 0 i "n - i"] by (simp add: upt_conv_Cons)

text \<open>Flushing and collecting when only shard \<open>i\<close> has anything in it.\<close>

lemma GetSortedEntries_single:
  assumes "i < mutexShards" "shardMap m = (\<lambda>_. None)(i := Some d)" "files m = (\<lambda>_. Missing)(i := f)"
    and "flushShard 0 all_ok i d m = (None, d', m')"
    and m': "files m' = (\<lambda>_. Missing)(i := Members ms)" "shardMap m' = shardMap m"
    and "slice_sorter srt" "map snd (decode_members ms) = [v]"
  shows "\<exists>m''. GetSortedEntries srt (\<lambda>_. all_ok) m = (Inr [v], m'')"
proof -
  have "flush_all (\<lambda>_. all_ok) [0..<i] m = m"
    by (rule flush_all_none) (simp add: assms(2))
  moreover have "flush_all (\<lambda>_. all_ok) [Suc i..<mutexShards] (put_shard i d' m') = put_shard i d' m'"
    by (rule flush_all_none) (simp add: m' assms(2) put_shard_def)
  ultimately have f: "flush_all (\<lambda>_. all_ok) [0..<mutexShards] m = put_shard i d' m'"
    using assms(1,2,4) by (simp add: upt_split_at flush_all_append)
  have "collect (\<lambda>_. all_ok) [0..<i] (put_shard i d' m') = Inr []"
    by (rule collect_missing) (simp add: m' all_ok_def)
  moreover have "collect (\<lambda>_. all_ok) [Suc i..<mutexShards] (put_shard i d' m') = Inr []"
    by (rule collect_missing) (simp add: m' all_ok_def)
  ultimately have "collect (\<lambda>_. all_ok) [0..<mutexShards] (put_shard i d' m') = Inr ([] @ [v])"
    unfolding upt_split_at [OF assms(1)]
    by (intro collect_append) (simp_all add: m' all_ok_def readShard_def assms(8))
  moreover have "srt lt [v] = [v]" for lt
    using slice_sorter.mset_srt [OF assms(7), of lt "[v]"] by simp
  ultimately show ?thesis using f by (simp add: GetSortedEntries_def Let_def)
qed

text \<open>When a title comes a second time while its first channel is still in the buffer of the
  shard, the attributes of the second are lost: it goes to the file, and the flush overwrites it
  there.  What is handed out is the first channel alone, whatever it lacked.\<close>

theorem buffered_duplicate_loses_attributes:
  assumes "slice_sorter srt" "Title s' = Title s" "valid_utf8 (sanitizeField (Title s))"
  shows "\<exists>m m'. add_streams hash [(all_ok, s), (all_ok, s')] (newSortingManager env (\<lambda>_. Missing)) = Ok ([None, None], m)
    \<and> GetSortedEntries srt (\<lambda>_. all_ok) m = (Inr [json_info s], m')"
proof -
  let ?m0 = "newSortingManager env (\<lambda>_. Missing)"
  let ?i = "hash (Title s) mod mutexShards"
  let ?t = "sanitizeField (Title s)"
  let ?d = "\<lparr>index = (\<lambda>_. False)(?t := True), buffer = [(?t, json_info s)]\<rparr>"
  let ?m1 = "put_shard ?i ?d ?m0"
  let ?ms = "encode_members [(?t, s')]"
  let ?m2 = "?m1\<lparr>files := (files ?m1)(?i := Members ?ms)\<rparr>"
  have js: "json_string ?t = ?t" using assms(3) by (simp add: valid_utf8_def)
  have ms: "?ms = [(?t, json_info s')]" by (simp add: encode_members_def js)
  have "AddToSorter hash all_ok s ?m0 = Ok (None, ?m1)"
    by (simp add: AddToSorter_def Let_def newSortingManager_def shard_of_def buffer_entry_def put_shard_def)
  moreover have "AddToSorter hash all_ok s' ?m1 = Ok (None, ?m2)"
    by (simp add: AddToSorter_def Let_def newSortingManager_def shard_of_def put_shard_def assms(2)
        handleExisting_def readShard_def writeShard_ok) (simp add: all_ok_def writeShard_def)
  ultimately have add: "add_streams hash [(all_ok, s), (all_ok, s')] ?m0 = Ok ([None, None], ?m2)"
    by simp
  let ?ms3 = "encode_members [(?t, json_info s)]"
  have "flushShard 0 all_ok ?i ?d ?m2 = (None, ?d\<lparr>buffer := []\<rparr>, ?m2\<lparr>files := (files ?m2)(?i := Members ?ms3)\<rparr>)"
    by (simp add: flushShard_def readShard_ok shard_entries_def ms writeShard_ok decode_members_def)
  moreover have "map snd (decode_members ?ms3) = [json_info s]"
    by (simp add: encode_members_def js decode_members_def)
  ultimately have "\<exists>m'. GetSortedEntries srt (\<lambda>_. all_ok) ?m2 = (Inr [json_info s], m')"
    using assms(1)
    by (intro GetSortedEntries_single [where i = ?i and d = ?d and f = "Members ?ms" and ms = ?ms3
            and d' = "?d\<lparr>buffer := []\<rparr>" and m' = "?m2\<lparr>files := (files ?m2)(?i := Members ?ms3)\<rparr>"])
      (simp_all add: mutexShards_def put_shard_def newSortingManager_def)
  with add show ?thesis by blast
qed

theorem buffered_duplicate_loses_attributes_witness:
  "\<exists>m m'. add_streams length [(all_ok, sample_info), (all_ok, sample_info\<lparr>Group := ''News''\<rparr>)]
       (newSortingManager [] (\<lambda>_. Missing)) = Ok ([None, None], m)
    \<and> GetSortedEntries insertion_sort (\<lambda>_. all_ok) m = (Inr [json_info sample_info], m')"
proof -
  have "valid_utf8 (sanitizeField (Title sample_info))" by code_simp
  then show ?thesis
    by (intro buffered_duplicate_loses_attributes [OF insertion.slice_sorter_axioms]) simp_all
qed

text \<open>When the first channel of a title is already in the file, a second one is merged into it:
  every attribute the first one lacks is taken from the second, and the pair of source and line
  becomes the smaller one (sources compared as strings).\<close>

theorem duplicate_on_disk_is_merged:
  assumes "files m i = Members ms" "i = hash (Title s) mod mutexShards"
    and t: "title = sanitizeField (Title s)" "map_of (decode_members ms) title = Some b"
    and canonical: "\<forall>k \<in> fst ` set ms. valid_utf8 k"
    and u: "URLs s \<noteq> None"
  shows "\<exists>m' v. AddToSorter hash all_ok s m = Ok (None, m')
    \<and> map_of (shard_entries (files m' i)) title = Some (json_info v)
    \<and> Title v = fill (Title b) (Title s) \<and> TvgID v = fill (TvgID b) (TvgID s)
    \<and> TvgChNo v = fill (TvgChNo b) (TvgChNo s) \<and> TvgType v = fill (TvgType b) (TvgType s)
    \<and> LogoURL v = fill (LogoURL b) (LogoURL s) \<and> Group v = fill (Group b) (Group s)
    \<and> (SourceM3U v, SourceIndex v) \<in> {(SourceM3U b, SourceIndex b), (SourceM3U s, SourceIndex s)}
    \<and> \<not> (SourceM3U s < SourceM3U v \<or> SourceM3U s = SourceM3U v \<and> SourceIndex s < SourceIndex v)"
proof -
  obtain v where v: "mergeStreamInfoAttributes b s = Ok v" using merge_Ok [OF u] by blast
  let ?es = "AList.update title v (decode_members ms)"
  have r: "readShard (open_ok all_ok r) i m' = Inr (decode_members ms)" if "files m' = files m" for r m'
    using that assms(1) by (simp add: readShard_def all_ok_def)
  have h: "\<exists>m'. handleExisting r all_ok i title s (put_shard i d m) = Ok (None, m')
      \<and> files m' i = Members (encode_members ?es)" for r d
    using r [of "put_shard i d m"] t(2) v by (simp add: handleExisting_def writeShard_ok)
  have mem: "title \<in> fst ` set (decode_members ms)" using t(2) by (metis domI dom_map_of_conv_image_fst)
  have "\<exists>m'. AddToSorter hash all_ok s m = Ok (None, m') \<and> files m' i = Members (encode_members ?es)"
  proof (cases "index (shard_of i m) title")
    case True
    then show ?thesis
      using h [of 0 "shard_of i m"] by (simp only: AddToSorter_def Let_def assms(2) [symmetric] t(1) [symmetric] if_True)
  next
    case False
    moreover have "stat_ok all_ok" by (simp add: all_ok_def)
    ultimately show ?thesis
      using h [of 1] r [of m 0] mem assms(1)
      by (simp add: AddToSorter_def Let_def flip: assms(2) t(1))
  qed
  then obtain m' where m': "AddToSorter hash all_ok s m = Ok (None, m')"
      "files m' i = Members (encode_members ?es)" by blast
  have "map_of (shard_entries (files m' i)) title = Some (json_info v)"
  proof -
    have can: "json_string k = k" if "k \<in> fst ` set ?es" for k
      using that canonical mem by (auto simp: dom_update dom_decode_members valid_utf8_def)
    have enc: "encode_members ?es = map (\<lambda>(k, v). (k, json_info v)) (sort_key fst ?es)"
      using can by (force simp: encode_members_def)
    have perm: "mset (map fst (sort_key fst ?es)) = mset (map fst ?es)"
      by (metis mset_map mset_sort)
    have "distinct (map fst ?es)"
      by (simp add: distinct_update distinct_decode_members)
    then have "distinct (map fst (sort_key fst ?es))"
      by (simp only: mset_eq_imp_distinct_iff [OF perm])
    then have d: "distinct (map fst (encode_members ?es))"
      by (simp add: enc comp_def split_beta)
    have "(title, v) \<in> set ?es"
      by (rule map_of_SomeD) (simp add: update_conv)
    then have "(title, json_info v) \<in> set (encode_members ?es)" by (force simp: enc)
    with d show ?thesis
      by (simp add: m'(2) shard_entries_def map_of_decode_members rev_map [symmetric])
  qed
  with m'(1) v show ?thesis
    by (intro exI [of _ m'] exI [of _ v])
      (auto simp: mergeStreamInfoAttributes_def Let_def split: option.splits if_splits)
qed

theorem duplicate_on_disk_is_merged_witness:
  "\<exists>m' v. AddToSorter (\<lambda>_. 0) all_ok (sample_info\<lparr>Group := ''News''\<rparr>) (on_disk [] [] [(''News1'', sample_info)]) = Ok (None, m')
    \<and> map_of (shard_entries (files m' 0)) ''News1'' = Some (json_info v)
    \<and> Group v = ''News'' \<and> TvgChNo v = ''10''"
proof -
  have t: "''News1'' = sanitizeField (Title (sample_info\<lparr>Group := ''News''\<rparr>))" by code_simp
  have c: "valid_utf8 ''News1''" by code_simp
  from duplicate_on_disk_is_merged [where i = 0 and hash = "\<lambda>_. 0" and m = "on_disk [] [] [(''News1'', sample_info)]"
      and ms = "[(''News1'', sample_info)]" and b = sample_info, OF _ _ t]
  show ?thesis
    using c by (auto simp: on_disk_def decode_members_def sample_info_def fill_def)
qed

end
