(* ===== verification/StreamStore.thy ===== *)
theory StreamStore
  imports Parser
begin

text \<open>
  \<^verbatim>\<open>sourceproc/filter.go\<close>: which channels pass the configured filters, and how a request finds the
  URLs of a channel again: the slug gives the title, and for every source index the files whose
  name starts with the encoded title and the index are read back.
\<close>

section \<open>Filters\<close>

text \<open>A compiled expression is the predicate it decides; one that does not compile is dropped.\<close>

type_synonym regexes = "(string \<Rightarrow> bool) list"

definition compileRegexes :: "(string \<Rightarrow> (string \<Rightarrow> bool) option) \<Rightarrow> string list \<Rightarrow> regexes" where
  "compileRegexes compile filters = List.map_filter compile filters"

definition matchAny :: "regexes \<Rightarrow> string \<Rightarrow> bool" where
  "matchAny regexes s = list_ex (\<lambda>re. re s) regexes"

record filters =
  includeGroups :: regexes
  includeTitle :: regexes
  excludeGroups :: regexes
  excludeTitle :: regexes

definition initFilters :: "(string \<Rightarrow> (string \<Rightarrow> bool) option) \<Rightarrow> environ \<Rightarrow> filters" where
  "initFilters compile env =
     \<lparr>includeGroups = compileRegexes compile (GetFilters env ''INCLUDE_GROUPS''),
      includeTitle = compileRegexes compile (GetFilters env ''INCLUDE_TITLE''),
      excludeGroups = compileRegexes compile (GetFilters env ''EXCLUDE_GROUPS''),
      excludeTitle = compileRegexes compile (GetFilters env ''EXCLUDE_TITLE'')\<rparr>"

definition allFiltersEmpty :: "filters \<Rightarrow> bool" where
  "allFiltersEmpty fs \<longleftrightarrow> includeGroups fs = [] \<and> includeTitle fs = []
     \<and> excludeGroups fs = [] \<and> excludeTitle fs = []"

definition checkFilter :: "filters \<Rightarrow> StreamInfo \<Rightarrow> bool" where
  "checkFilter fs s =
     (if allFiltersEmpty fs then True
      else if matchAny (includeGroups fs) (Group s) \<or> matchAny (includeTitle fs) (Title s) then True
      else if matchAny (excludeGroups fs) (Group s) \<or> matchAny (excludeTitle fs) (Title s) then False
      else includeGroups fs = [] \<and> includeTitle fs = [])"

section \<open>Finding the URLs of a channel\<close>

text \<open>
  \<open>filepath.Glob\<close> on the pattern \<^verbatim>\<open><streams>/*/<title>_<index>*\<close>: the paths in order.  An encoded title
  with a slash in the middle asks for a directory within a shard, and there is none.  The index of
  a source, the end of the name of an environment variable, has none of the pattern characters
  of \<open>Glob\<close>, so the pattern is well formed and \<open>loadStreamURLs\<close> does not fail.
\<close>

definition glob :: "streams_dir \<Rightarrow> string \<Rightarrow> ((string \<times> string) \<times> string) list" where
  "glob disk pattern = (case path_elements pattern of
     [p] \<Rightarrow> sort_key fst (filter (\<lambda>((shard, name), content). HasPrefix name p) disk)
   | _ \<Rightarrow> [])"

definition load_file :: "(string \<times> string \<Rightarrow> bool) \<Rightarrow> url_map \<Rightarrow> (string \<times> string) \<times> string \<Rightarrow> url_map" where
  "load_file unreadable urls = (\<lambda>(path, content).
     let parts = SplitChar (CHR ''|'') (snd path) in
     if length parts \<noteq> 2 then urls
     else if unreadable path then urls
     else let splitContent = SplitN2 content '':::'';
              (urlIndex, encodedUrl) = (if length splitContent = 2 then (splitContent ! 0, splitContent ! 1)
                                        else (''0'', content)) in
       case DecodeString StdAlphabet encodedUrl of
         None \<Rightarrow> urls
       | Some url \<Rightarrow> AList.update (parts ! 1) (TrimSpace (urlIndex @ '':::'' @ url)) urls)"

definition loadStreamURLs :: "(string \<times> string \<Rightarrow> bool) \<Rightarrow> streams_dir \<Rightarrow> string \<Rightarrow> string \<Rightarrow> url_map" where
  "loadStreamURLs unreadable disk title m3uIndex =
     foldl (load_file unreadable) [] (glob disk (EncodeToString StdAlphabet title @ ''_'' @ m3uIndex))"

text \<open>The indexes are loaded concurrently, each into an entry of its own.\<close>

definition ParseStreamInfoBySlug ::
    "parse_env \<Rightarrow> (string \<times> string \<Rightarrow> bool) \<Rightarrow> streams_dir \<Rightarrow> string \<Rightarrow> go_error + StreamInfo" where
  "ParseStreamInfoBySlug E unreadable disk slg = (case DecodeSlug (slug_codec E) slg of
     Inl e \<Rightarrow> Inl e
   | Inr initInfo \<Rightarrow> Inr (initInfo\<lparr>URLs := Some (foldl (\<lambda>us idx.
         AList.update idx (loadStreamURLs unreadable disk (Title initInfo) idx) us) [] (GetM3UIndexes (pe_environ E)))\<rparr>))"

definition GetStreamBySlug ::
    "parse_env \<Rightarrow> (string \<times> string \<Rightarrow> bool) \<Rightarrow> streams_dir \<Rightarrow> string \<Rightarrow> go_error + StreamInfo" where
  "GetStreamBySlug E unreadable disk slg =
     (case ParseStreamInfoBySlug E unreadable disk slg of
        Inl e \<Rightarrow> Inl (Errorf ''error parsing stream info'')
      | Inr s \<Rightarrow> Inr s)"

section \<open>File names\<close>

definition b64 :: "string \<Rightarrow> string" where
  "b64 s = EncodeToString StdAlphabet s"

text \<open>The name of the file of a URL hash under a title and an index.\<close>

definition url_file :: "string \<Rightarrow> string \<Rightarrow> string \<Rightarrow> string" where
  "url_file title idx h = b64 title @ ''_'' @ idx @ ''|'' @ h"

lemma SplitChar_none: "d \<notin> set s \<Longrightarrow> SplitChar d s = [s]"
  by (induction s) auto

lemma SplitChar_append: "d \<notin> set s \<Longrightarrow> SplitChar d (s @ d # t) = s # SplitChar d t"
  by (induction s) auto

lemma path_elements_single: "s \<noteq> [] \<Longrightarrow> CHR ''/'' \<notin> set s \<Longrightarrow> path_elements s = [s]"
  by (simp add: path_elements_def SplitChar_none)

lemma b64_chars: "set (b64 s) \<subseteq> set (StdAlphabet @ ''='')"
  using EncodeToString_alphabet [OF proper_Std, of s] by (auto simp: b64_def)

lemma StdAlphabet_chars: "CHR ''|'' \<notin> set (StdAlphabet @ ''='')" "CHR ''_'' \<notin> set (StdAlphabet @ ''='')"
    "CHR '':'' \<notin> set (StdAlphabet @ ''='')"
  by code_simp+

lemma b64_plain: "CHR ''|'' \<notin> set (b64 s)" "CHR ''_'' \<notin> set (b64 s)" "CHR '':'' \<notin> set (b64 s)"
  using b64_chars [of s] StdAlphabet_chars by blast+

lemma url_file_parts:
  assumes "CHR ''|'' \<notin> set idx" "CHR ''|'' \<notin> set h"
  shows "SplitChar (CHR ''|'') (url_file title idx h) = [b64 title @ ''_'' @ idx, h]"
proof -
  have "url_file title idx h = (b64 title @ ''_'' @ idx) @ CHR ''|'' # h" by (simp add: url_file_def)
  moreover have "CHR ''|'' \<notin> set (b64 title @ ''_'' @ idx)" using assms(1) b64_plain(1) by simp
  ultimately show ?thesis by (simp only: SplitChar_append SplitChar_none assms(2) simp_thms)
qed

lemma b64_inj: "b64 s = b64 t \<longleftrightarrow> s = t"
  by (simp add: b64_def EncodeToString_inj proper_Std)

section \<open>Stored URLs are found\<close>

lemma load_fold:
  assumes "\<And>us. map_of (load_file unreadable us f0) h = Some v"
    and "\<And>us f. f \<in> set fs \<Longrightarrow> f \<noteq> f0 \<Longrightarrow> map_of (load_file unreadable us f) h = map_of us h"
    and "f0 \<in> set fs \<or> map_of us h = Some v"
  shows "map_of (foldl (load_file unreadable) us fs) h = Some v"
  using assms(2,3)
proof (induction fs arbitrary: us)
  case (Cons f fs)
  have "f0 \<in> set fs \<or> map_of (load_file unreadable us f) h = Some v"
    using Cons.prems assms(1) by (cases "f = f0") auto
  with Cons show ?case by simp
qed simp

lemma load_file_other:
  "SplitChar (CHR ''|'') (snd path) ! 1 \<noteq> h \<Longrightarrow> map_of (load_file unreadable us (path, content)) h = map_of us h"
  by (auto simp: load_file_def Let_def update_conv split: option.split prod.split)

lemma Itoa_chars: "set (Itoa n) \<subseteq> insert (CHR ''-'') {c. is_digit c}" "Itoa n \<noteq> []"
  using nat_digits_all_digits by (auto simp: Itoa_def list_all_iff)

lemma Itoa_no_colon: "CHR '':'' \<notin> set (Itoa n)"
proof -
  have "\<not> is_digit (CHR '':'')" by (simp add: is_digit_def)
  then show ?thesis using Itoa_chars(1) [of n] by auto
qed

lemma visible_Itoa: "visible (hd (Itoa n))"
proof -
  have "hd (Itoa n) \<in> insert (CHR ''-'') {c. is_digit c}"
    using Itoa_chars [of n] hd_in_set by blast
  moreover have "visible (CHR ''-'')" by (simp add: visible_def)
  ultimately show ?thesis using visible_digit by auto
qed

definition url_content :: "int \<Rightarrow> string \<Rightarrow> string" where
  "url_content n u = Itoa n @ '':::'' @ b64 u"

lemma load_file_stored:
  assumes "CHR ''|'' \<notin> set idx" "CHR ''|'' \<notin> set h" "u \<noteq> []" "visible (last u)"
  shows "map_of (load_file (\<lambda>_. False) us ((shard, url_file title idx h), url_content n u)) h
    = Some (Itoa n @ '':::'' @ u)"
proof -
  have parts: "SplitChar (CHR ''|'') (url_file title idx h) = [b64 title @ ''_'' @ idx, h]"
    by (rule url_file_parts) (use assms in simp_all)
  have "SplitN2 (url_content n u) '':::'' = [Itoa n, b64 u]"
    using cut_first [of "'':::''" "Itoa n" "b64 u"] Itoa_no_colon by (simp add: SplitN2_def url_content_def)
  moreover have "DecodeString StdAlphabet (b64 u) = Some u"
    by (simp add: b64_def DecodeString_EncodeToString proper_Std)
  moreover have "TrimSpace (Itoa n @ '':::'' @ u) = Itoa n @ '':::'' @ u"
    using assms(3,4) Itoa_chars(2) visible_Itoa by (intro TrimSpace_visible) simp_all
  ultimately show ?thesis using parts by (simp add: load_file_def update_conv)
qed

text \<open>Conversely, what is listed comes from a file: one whose name matches the pattern and which,
  loaded alone, gives the entry.\<close>

lemma load_file_entry:
  "map_of (load_file unreadable us f) h = Some v \<Longrightarrow> map_of us h = Some v \<or> load_file unreadable [] f = [(h, v)]"
  by (cases f) (auto simp: load_file_def Let_def update_conv split: if_splits option.splits prod.splits)

lemma load_fold_entry:
  "map_of (foldl (load_file unreadable) us fs) h = Some v \<Longrightarrow>
    map_of us h = Some v \<or> (\<exists>f \<in> set fs. load_file unreadable [] f = [(h, v)])"
proof (induction fs arbitrary: us)
  case (Cons f fs)
  then show ?case using load_file_entry [of unreadable us f h v] by auto
qed simp

lemma glob_disk: "f \<in> set (glob disk pattern) \<Longrightarrow> f \<in> set disk"
  by (auto simp: glob_def split: list.splits)

lemma listed_url_is_stored:
  assumes "map_of (loadStreamURLs unreadable disk title idx) h = Some v"
  obtains f where "f \<in> set disk" "f \<in> set (glob disk (b64 title @ ''_'' @ idx))"
    "load_file unreadable [] f = [(h, v)]"
  using load_fold_entry [OF assms [unfolded loadStreamURLs_def, folded b64_def]] glob_disk by auto

text \<open>
  A file written by \<open>parseLine\<close> under index \<open>idx\<close> is found for every index that is a prefix of
  \<open>idx\<close>, because the pattern ends in an asterisk right after the index.
\<close>

lemma stored_url_listed:
  assumes slash: "CHR ''/'' \<notin> set (b64 title @ idx @ h)" and bar: "CHR ''|'' \<notin> set (idx @ h)"
    and u: "u \<noteq> []" "visible (last u)" and i: "idx = i @ rest"
    and new: "\<forall>((sh, nm), c) \<in> set disk. SplitChar (CHR ''|'') nm ! 1 \<noteq> h"
  shows "map_of (loadStreamURLs (\<lambda>_. False) (AList.update (shard, url_file title idx h) (url_content n u) disk) title i) h
    = Some (Itoa n @ '':::'' @ u)"
proof -
  let ?f = "((shard, url_file title idx h), url_content n u)"
  let ?disk = "AList.update (shard, url_file title idx h) (url_content n u) disk"
  define pat where "pat = b64 title @ ''_'' @ i"
  have "path_elements pat = [pat]"
    using slash i by (intro path_elements_single) (auto simp: pat_def)
  then have fs: "set (glob ?disk pat) = {((sh, nm), c) \<in> set ?disk. HasPrefix nm pat}"
    by (auto simp: glob_def)
  have "url_file title idx h = pat @ rest @ ''|'' @ h" by (simp add: url_file_def i pat_def)
  then have "HasPrefix (url_file title idx h) pat" by (metis HasPrefix_append)
  moreover have "?f \<in> set ?disk" by (rule map_of_SomeD) (simp add: update_conv)
  ultimately have "?f \<in> set (glob ?disk pat)" by (auto simp: fs)
  moreover have "map_of (load_file (\<lambda>_. False) us f) h = map_of us h"
    if f: "f \<in> set (glob ?disk pat)" "f \<noteq> ?f" for us f
  proof -
    obtain path c where fc: "f = (path, c)" by (cases f)
    have "f \<in> set ?disk" using f(1) fs by auto
    with f(2) have "f \<in> set disk" using in_set_update by fastforce
    then have "SplitChar (CHR ''|'') (snd path) ! 1 \<noteq> h" using new fc by (cases path) auto
    then show ?thesis unfolding fc by (rule load_file_other)
  qed
  ultimately show ?thesis
    unfolding loadStreamURLs_def b64_def [symmetric] pat_def [symmetric]
    using load_file_stored u bar by (intro load_fold [where ?f0.0 = ?f]) simp_all
qed

definition url_hash :: "parse_env \<Rightarrow> LineDetails \<Rightarrow> string" where
  "url_hash E nextLine = sha3_hex E (TrimSpace (Content nextLine))"

lemma write_file_single:
  "path_elements name = [name] \<Longrightarrow> write_file Some disk shard name content = AList.update (shard, name) content disk"
  by (simp add: write_file_def)

lemma parseLine_stores:
  assumes "Title (parse_title E line) = title" "title \<noteq> []"
    and slash: "CHR ''/'' \<notin> set (b64 title @ idx @ url_hash E nextLine)"
    and bar: "CHR ''|'' \<notin> set (idx @ url_hash E nextLine)"
    and new: "\<forall>((sh, nm), c) \<in> set disk. SplitChar (CHR ''|'') nm ! 1 \<noteq> url_hash E nextLine"
  shows "\<exists>info. parseLine E Some line nextLine idx disk = (Some info,
      AList.update (take 3 (url_hash E nextLine), url_file title idx (url_hash E nextLine))
        (url_content (LineNum nextLine) (TrimSpace (Content nextLine))) disk)
    \<and> Title info = title \<and> SourceM3U info = idx"
proof -
  let ?h = "url_hash E nextLine"
  let ?name = "url_file title idx ?h"
  have pe: "path_elements ?name = [?name]"
    using slash by (intro path_elements_single) (auto simp: url_file_def)
  have "SplitChar (CHR ''|'') ?name ! 1 = ?h" using bar by (simp add: url_file_parts)
  then have "map_of disk (take 3 ?h, ?name) = None"
    using new by (auto simp: map_of_eq_None_iff)
  then have "\<not> file_exists disk (take 3 ?h) ?name" by (simp add: file_exists_def pe)
  then show ?thesis
    using assms(1,2) write_file_single [OF pe]
    by (simp add: parseLine_def Let_def url_file_def b64_def url_content_def url_hash_def)
qed

text \<open>A URL read from a source is found again: after a line of source \<open>idx\<close> has been parsed
  and its file written, loading the URLs of that title for that source yields the URL under
  its hash, with the number of its line.\<close>

theorem stored_url_is_found:
  assumes "Title (parse_title E line) = title" "title \<noteq> []"
    and "CHR ''/'' \<notin> set (b64 title @ idx @ url_hash E nextLine)"
    and "CHR ''|'' \<notin> set (idx @ url_hash E nextLine)"
    and "TrimSpace (Content nextLine) = u" "u \<noteq> []" "visible (last u)"
    and "\<forall>((sh, nm), c) \<in> set disk. SplitChar (CHR ''|'') nm ! 1 \<noteq> url_hash E nextLine"
  shows "\<exists>info disk'. parseLine E Some line nextLine idx disk = (Some info, disk') \<and> Title info = title
    \<and> map_of (loadStreamURLs (\<lambda>_. False) disk' title idx) (url_hash E nextLine)
        = Some (Itoa (LineNum nextLine) @ '':::'' @ u)"
  using parseLine_stores [OF assms(1-4,8)] stored_url_listed [OF assms(3,4,6,7) _ assms(8), of idx "[]"] assms(5)
  by auto

definition news_line :: string where
  "news_line = ''#EXTINF:-1,News''"

lemma news_line_title: "Title (parse_title plain_env news_line) = ''News''"
proof -
  have "find_attrs news_line = []" by (rule find_attrs_none) (simp add: news_line_def quote_def)
  moreover have "TrimSpace ''News'' = ''News''" by (simp add: TrimSpace_visible visible_def)
  moreover have "SplitN2 news_line '','' = [''#EXTINF:-1'', ''News'']"
    by (simp add: SplitN2_def news_line_def HasPrefix_def)
  ultimately show ?thesis
    by (simp add: parse_title_def parse_attrs_def TvgNameParser_def plain_env_def Getenv_def LookupEnv_def
        GeneralParser_plain quote_def)
qed

lemma b64_News: "b64 ''News'' = ''TmV3cw==''"
  by (simp add: b64_def Let_def pack3_def zero_byte_def StdAlphabet_def alphabet62_def)

definition news_url :: LineDetails where
  "news_url = \<lparr>Content = ''http:x'', LineNum = 4\<rparr>"

lemma news_url_trim: "TrimSpace (Content news_url) = ''http:x''"
  by (simp add: news_url_def TrimSpace_visible visible_def)

lemma news_hash: "url_hash plain_env news_url = ''abchttp:x''"
  by (simp add: url_hash_def news_url_trim plain_env_def)

theorem stored_url_is_found_witness:
  "\<exists>info disk'. parseLine plain_env Some news_line news_url ''1'' [] = (Some info, disk') \<and> Title info = ''News''
    \<and> map_of (loadStreamURLs (\<lambda>_. False) disk' ''News'' ''1'') ''abchttp:x'' = Some ''4:::http:x''"
proof -
  have "Itoa 4 = ''4''" by (simp add: Itoa_def nat_digits.simps digit_char_def char_of_def bit_iff_odd)
  with stored_url_is_found [OF news_line_title, of "''1''" news_url "''http:x''" "[]"] show ?thesis
    by (simp add: b64_News news_hash news_url_trim) (simp add: visible_def news_url_def)
qed

text \<open>A URL of one source is also taken for a URL of any source whose index is a proper prefix:
  what was stored under source 10 is listed, and counted, under source 1.\<close>

theorem url_listed_under_prefix_index:
  assumes "Title (parse_title E line) = title" "title \<noteq> []"
    and "CHR ''/'' \<notin> set (b64 title @ (i @ rest) @ url_hash E nextLine)"
    and "CHR ''|'' \<notin> set ((i @ rest) @ url_hash E nextLine)"
    and "TrimSpace (Content nextLine) = u" "u \<noteq> []" "visible (last u)"
    and "\<forall>((sh, nm), c) \<in> set disk. SplitChar (CHR ''|'') nm ! 1 \<noteq> url_hash E nextLine"
  shows "\<exists>info disk'. parseLine E Some line nextLine (i @ rest) disk = (Some info, disk') \<and> SourceM3U info = i @ rest
    \<and> map_of (loadStreamURLs (\<lambda>_. False) disk' title i) (url_hash E nextLine)
        = Some (Itoa (LineNum nextLine) @ '':::'' @ u)"
  using parseLine_stores [OF assms(1-4,8)] stored_url_listed [OF assms(3,4,6,7) refl assms(8)] assms(5)
  by auto

theorem url_listed_under_prefix_index_witness:
  "\<exists>info disk'. parseLine plain_env Some news_line news_url ''10'' [] = (Some info, disk') \<and> SourceM3U info = ''10''
    \<and> map_of (loadStreamURLs (\<lambda>_. False) disk' ''News'' ''1'') ''abchttp:x'' = Some ''4:::http:x''"
proof -
  have "Itoa 4 = ''4''" by (simp add: Itoa_def nat_digits.simps digit_char_def char_of_def bit_iff_odd)
  with url_listed_under_prefix_index [OF news_line_title, of "''1''" "''0''" news_url "''http:x''" "[]"] show ?thesis
    by (simp add: b64_News news_hash news_url_trim) (simp add: visible_def news_url_def)
qed

section \<open>Titles whose encoding has a slash\<close>

lemma path_elements_nonempty: "c \<in> set s \<Longrightarrow> c \<noteq> CHR ''/'' \<Longrightarrow> path_elements s \<noteq> []"
proof (induction s)
  case (Cons d s)
  show ?case
  proof (cases "d = CHR ''/''")
    case True
    with Cons show ?thesis by (simp add: path_elements_def)
  next
    case False
    then show ?thesis by (simp add: path_elements_def split: list.split)
  qed
qed simp

lemma path_elements_split:
  assumes "a \<noteq> []" "CHR ''/'' \<notin> set a" "c \<in> set b" "c \<noteq> CHR ''/''"
  shows "\<exists>p q ps. path_elements (a @ ''/'' @ b) = p # q # ps"
proof -
  have "path_elements (a @ ''/'' @ b) = a # path_elements b"
    using assms(1) SplitChar_append [OF assms(2), of b] by (simp add: path_elements_def)
  with path_elements_nonempty [OF assms(3,4)] show ?thesis
    by (cases "path_elements b") auto
qed

text \<open>A channel whose encoded title has a slash in it (not in front) is put into the playlist
  and cannot be played: its URL is never stored, since the file name is a path through a
  directory that does not exist, and no state of the store makes a lookup of that title find
  a URL.\<close>

theorem title_with_slash_has_no_urls:
  assumes "Title (parse_title E line) = title" and "b64 title = a @ ''/'' @ b" "a \<noteq> []" "CHR ''/'' \<notin> set a"
  shows "(\<exists>info. parseLine E left_behind line nextLine idx disk = (Some info, disk)
      \<and> URLs info = Some [(idx, [(url_hash E nextLine, Itoa (LineNum nextLine) @ '':::'' @ TrimSpace (Content nextLine))])])
    \<and> loadStreamURLs unreadable disk' title i = []"
proof
  have "title \<noteq> []" using assms(2) by (auto simp: b64_def)
  moreover have "\<exists>p q ps. path_elements (b64 title @ ''_'' @ idx @ ''|'' @ url_hash E nextLine) = p # q # ps"
    unfolding assms(2) append_assoc by (rule path_elements_split [of _ "CHR ''_''"]) (use assms in simp_all)
  ultimately show "\<exists>info. parseLine E left_behind line nextLine idx disk = (Some info, disk)
      \<and> URLs info = Some [(idx, [(url_hash E nextLine, Itoa (LineNum nextLine) @ '':::'' @ TrimSpace (Content nextLine))])]"
    using assms(1)
    by (auto simp: parseLine_def Let_def file_exists_def write_file_def b64_def url_hash_def)
next
  have "\<exists>p q ps. path_elements (b64 title @ ''_'' @ i) = p # q # ps"
    unfolding assms(2) append_assoc by (rule path_elements_split [of _ "CHR ''_''"]) (use assms in simp_all)
  then show "loadStreamURLs unreadable disk' title i = []"
    by (auto simp: loadStreamURLs_def glob_def b64_def)
qed

theorem title_with_slash_has_no_urls_witness:
  "\<exists>info. parseLine plain_env Some ''#EXTINF:-1,Up?'' news_url ''1'' [] = (Some info, [])
    \<and> loadStreamURLs (\<lambda>_. False) [] ''Up?'' ''1'' = []"
proof -
  have t: "Title (parse_title plain_env ''#EXTINF:-1,Up?'') = ''Up?''"
  proof -
    have "find_attrs ''#EXTINF:-1,Up?'' = []" by (rule find_attrs_none) (simp add: quote_def)
    moreover have "TrimSpace ''Up?'' = ''Up?''" by (simp add: TrimSpace_visible visible_def)
    moreover have "SplitN2 ''#EXTINF:-1,Up?'' '','' = [''#EXTINF:-1'', ''Up?'']"
      by (simp add: SplitN2_def HasPrefix_def)
    ultimately show ?thesis
      by (simp add: parse_title_def parse_attrs_def TvgNameParser_def plain_env_def Getenv_def LookupEnv_def
          GeneralParser_plain quote_def)
  qed
  have "b64 ''Up?'' = ''VXA'' @ ''/'' @ []"
    by (simp add: b64_def Let_def pack3_def StdAlphabet_def alphabet62_def)
  from title_with_slash_has_no_urls [OF t this, of Some news_url "''1''" "[]" "\<lambda>_. False" "[]" "''1''"]
  show ?thesis by auto
qed

end
