(* ===== verification/Downloader.thy ===== *)
theory Downloader
  imports Parser
begin

text \<open>
  \<^verbatim>\<open>sourceproc/downloader.go\<close>: reading the playlist of one source, from a local file, from its URL,
  or, when the URL does not answer with a playlist, from the copy kept of the last download.
  What is downloaded is written beside that copy; the processor puts it in its place at the end.

  A body is what arrives of it and the error it ends with, if any.  The concurrency of
  \<open>streamDownloadM3USources\<close> is one goroutine per source, each with its own result and its own
  files; here the result of a source is the list of lines and the list of errors it sends.
\<close>

section \<open>Lines\<close>

record body =
  received :: string
  read_err :: "go_error option"

record SourceDownloaderResult =
  Lines :: "LineDetails list"
  Errors :: "go_error list"

definition number_lines :: "string list \<Rightarrow> LineDetails list" where
  "number_lines ls = map (\<lambda>(i, l). \<lparr>Content = l, LineNum = int i\<rparr>) (enumerate 0 ls)"

definition scanAndStream :: "body \<Rightarrow> SourceDownloaderResult" where
  "scanAndStream b =
     (let (ls, long) = scan_tokens 1048576 (received b) in
      \<lparr>Lines = number_lines ls,
       Errors = (case (long, read_err b) of
          (None, None) \<Rightarrow> []
        | _ \<Rightarrow> [Errorf ''error reading content''])\<rparr>)"

definition failed :: "string \<Rightarrow> SourceDownloaderResult" where
  "failed msg = \<lparr>Lines = [], Errors = [Errorf msg]\<rparr>"

section \<open>One source\<close>

datatype http_get = GetErr | Got int body

text \<open>
  What a source meets: the local file it names, whether the directory of the copies can be made,
  the copy, the answer to the request, whether the new file can be created, and how much of the
  body gets into it when a line is too long and the scan stops half-way.
\<close>

record source_io =
  local_file :: "body option"
  mkdir_ok :: bool
  copy :: "body option"
  got :: http_get
  create_tmp_ok :: bool
  consumed :: nat

definition useFallback :: "source_io \<Rightarrow> string \<Rightarrow> SourceDownloaderResult \<times> string option" where
  "useFallback io msg = (case copy io of
     Some b \<Rightarrow> (scanAndStream b, None)
   | None \<Rightarrow> (failed msg, None))"

text \<open>The content of the new file: all that was received, unless the scan stopped early.\<close>

definition teed :: "source_io \<Rightarrow> body \<Rightarrow> string" where
  "teed io b = (if snd (scan_tokens 1048576 (received b)) = None then received b
     else take (consumed io) (received b))"

text \<open>The second component is the file \<open><index>.m3u.new\<close>, when one is written.\<close>

definition handleRemoteURL :: "source_io \<Rightarrow> SourceDownloaderResult \<times> string option" where
  "handleRemoteURL io =
     (if \<not> mkdir_ok io then (failed ''error creating dir for source'', None)
      else case got io of
        GetErr \<Rightarrow> useFallback io ''HTTP request error''
      | Got status b \<Rightarrow>
          if status \<noteq> 200 then useFallback io ''HTTP status and no existing file''
          else if length (received b) < 7 \<or> \<not> HasPrefix (take 7 (received b)) ''#EXTM3U''
          then useFallback io ''invalid M3U response and no fallback''
          else if \<not> create_tmp_ok io then useFallback io ''error creating tmp file''
          else (scanAndStream b, Some (teed io b)))"

definition handleLocalFile :: "source_io \<Rightarrow> SourceDownloaderResult" where
  "handleLocalFile io = (case local_file io of
     None \<Rightarrow> failed ''error opening local file''
   | Some b \<Rightarrow> scanAndStream b)"

definition download_source :: "environ \<Rightarrow> string \<Rightarrow> source_io \<Rightarrow> SourceDownloaderResult \<times> string option" where
  "download_source env idx io =
     (let m3uURL = Getenv env (''M3U_URL_'' @ idx) in
      if m3uURL = [] then (failed ''no URL configured for M3U index'', None)
      else if HasPrefix m3uURL ''file://'' then (handleLocalFile io, None)
      else handleRemoteURL io)"

section \<open>What a source delivers\<close>

lemma number_lines_nth:
  "i < length ls \<Longrightarrow> number_lines ls ! i = \<lparr>Content = ls ! i, LineNum = int i\<rparr>"
  by (simp add: number_lines_def enumerate_eq_zip)

lemma length_number_lines [simp]: "length (number_lines ls) = length ls"
  by (simp add: number_lines_def)

definition join_lines :: "string list \<Rightarrow> string" where
  "join_lines ls = concat (map (\<lambda>l. l @ [newline]) ls)"

lemma SplitChar_join:
  "\<forall>l \<in> set ls. d \<notin> set l \<Longrightarrow> SplitChar d (concat (map (\<lambda>l. l @ [d]) ls)) = ls @ [[]]"
proof (induction ls)
  case (Cons l ls)
  have "SplitChar d (l @ d # t) = l # SplitChar d t" if "d \<notin> set l" for l t
    using that by (induction l) auto
  with Cons show ?case by simp
qed simp

lemma scan_join:
  assumes "\<forall>l \<in> set ls. newline \<notin> set l \<and> length l < limit \<and> (l \<noteq> [] \<longrightarrow> last l \<noteq> CHR 0x0D)"
  shows "scan_tokens limit (join_lines ls) = (ls, None)"
proof -
  have r: "raw_lines (join_lines ls) = ls"
    using SplitChar_join [of ls newline] assms by (simp add: raw_lines_def join_lines_def Let_def)
  have tw: "takeWhile (\<lambda>l. length l < limit) ls = ls"
    using assms by (simp add: takeWhile_eq_all_conv)
  have "map drop_CR ls = ls"
    using assms by (intro map_idI) (auto simp: drop_CR_def)
  then show ?thesis unfolding scan_tokens_def Let_def r tw by simp
qed

text \<open>Whatever goes wrong with a download before its first line is used (no answer, a status
  other than 200, something that is not a playlist, no room for the new file), the source
  delivers the lines of the copy kept from the last time, and the copy stays as it is.\<close>

theorem failed_download_uses_copy:
  assumes "Getenv env (''M3U_URL_'' @ idx) \<noteq> []" "\<not> HasPrefix (Getenv env (''M3U_URL_'' @ idx)) ''file://''"
    and "mkdir_ok io" "copy io = Some c"
    and "case got io of GetErr \<Rightarrow> True
      | Got status b \<Rightarrow> status \<noteq> 200 \<or> \<not> HasPrefix (received b) ''#EXTM3U'' \<or> \<not> create_tmp_ok io"
  shows "download_source env idx io = (scanAndStream c, None)"
  using assms
  by (auto simp: download_source_def Let_def handleRemoteURL_def useFallback_def HasPrefix_def
      split: http_get.splits)

definition copy_body :: body where
  "copy_body = \<lparr>received = ''#EXTM3U'', read_err = None\<rparr>"

theorem failed_download_uses_copy_witness:
  "download_source [(''M3U_URL_1'', ''http://h/'')] ''1''
     \<lparr>local_file = None, mkdir_ok = True, copy = Some copy_body, got = Got 500 copy_body,
      create_tmp_ok = True, consumed = 0\<rparr> = (scanAndStream copy_body, None)"
  by (rule failed_download_uses_copy) (simp_all add: Getenv_def LookupEnv_def HasPrefix_def)

text \<open>A complete download delivers its lines, numbered from 0, and is kept in full.\<close>

lemma complete_download:
  assumes "Getenv env (''M3U_URL_'' @ idx) \<noteq> []" "\<not> HasPrefix (Getenv env (''M3U_URL_'' @ idx)) ''file://''"
    and "mkdir_ok io" "create_tmp_ok io" "got io = Got 200 \<lparr>received = join_lines ls, read_err = None\<rparr>"
    and "HasPrefix (join_lines ls) ''#EXTM3U''"
    and "\<forall>l \<in> set ls. newline \<notin> set l \<and> length l < 1048576 \<and> (l \<noteq> [] \<longrightarrow> last l \<noteq> CHR 0x0D)"
  shows "download_source env idx io = (\<lparr>Lines = number_lines ls, Errors = []\<rparr>, Some (join_lines ls))"
proof -
  have "7 \<le> length (join_lines ls)" "HasPrefix (take 7 (join_lines ls)) ''#EXTM3U''"
    using assms(6) by (auto simp: HasPrefix_def dest: arg_cong [where f = length])
  then show ?thesis
    using assms scan_join [OF assms(7)]
    by (simp add: download_source_def Let_def handleRemoteURL_def scanAndStream_def teed_def)
qed

text \<open>A download that breaks off after its first seven bytes counts as one.\<close>

lemma broken_download_kept:
  assumes "Getenv env (''M3U_URL_'' @ idx) \<noteq> []" "\<not> HasPrefix (Getenv env (''M3U_URL_'' @ idx)) ''file://''"
    and "mkdir_ok io" "create_tmp_ok io" "got io = Got 200 b" "read_err b = Some e"
    and "HasPrefix (received b) ''#EXTM3U''" "snd (scan_tokens 1048576 (received b)) = None"
  shows "download_source env idx io = (scanAndStream b, Some (received b))"
proof -
  have "7 \<le> length (received b)" "HasPrefix (take 7 (received b)) ''#EXTM3U''"
    using assms(7) by (auto simp: HasPrefix_def dest: arg_cong [where f = length])
  then show ?thesis
    using assms by (simp add: download_source_def Let_def handleRemoteURL_def teed_def)
qed

end
