(* ===== verification/Processor.thy ===== *)
theory Processor
  imports Sorting StreamStore Downloader
begin

text \<open>
  \<^verbatim>\<open>sourceproc/processor.go\<close> with the file names of \<^verbatim>\<open>config/config.go\<close>: one update of the merged
  playlist.  The sources are read, their channels filtered, collected and sorted, the playlist is
  written to a temporary file, and at the end either everything new takes the place of what was
  there (the playlist, the copies of the sources) or everything new is removed.

  The producers of \<open>processStreams\<close> run concurrently, one per source, and touch files whose names
  contain their own index; here they run one after the other, and the order in which the workers
  receive the channels is an argument.  \<open>Start\<close> returns when the error channel is closed, which
  happens after \<open>compileM3U\<close>, so \<open>Wait\<close> comes after all of it.
\<close>

section \<open>The directories\<close>

text \<open>
  The directory of processed playlists, by name; a path in it is the name after the path of the
  directory, so names are compared where the code compares paths.  The directory of source copies
  maps names to contents.
\<close>

datatype dir_entry = Dir | File string

record proc_fs =
  processed :: "(string \<times> dir_entry) list"
  sources :: "string \<rightharpoonup> string"
  streams :: streams_dir

definition ReadDir :: "bool \<Rightarrow> (string \<times> dir_entry) list \<Rightarrow> go_error + (string \<times> dir_entry) list" where
  "ReadDir ok d = (if ok then Inr (sort_key fst d) else Inl (Errorf ''failed to read directory''))"

text \<open>The last name, by an index taken from the list with the temporary files still in it.\<close>

definition GetLatestProcessedM3UPath :: "bool \<Rightarrow> (string \<times> dir_entry) list \<Rightarrow> (go_error + string) outcome" where
  "GetLatestProcessedM3UPath ok d = (case ReadDir ok d of
     Inl e \<Rightarrow> Ok (Inl e)
   | Inr all \<Rightarrow>
       let validFiles = filter (\<lambda>f. \<not> HasSuffix (fst f) ''.tmp'') all in
       if all = [] then Ok (Inl (Errorf ''no files found in directory''))
       else if length all - 1 < length validFiles then Ok (Inr (fst (validFiles ! (length all - 1))))
       else Panic ''index out of range'')"

fun clear_old ::
    "(string \<Rightarrow> bool) \<Rightarrow> string \<Rightarrow> (string \<times> dir_entry) list \<Rightarrow> (string \<times> dir_entry) list
      \<Rightarrow> go_error option \<times> (string \<times> dir_entry) list" where
  "clear_old remove_ok latest [] d = (None, d)"
| "clear_old remove_ok latest ((name, e) # fs) d =
     (if e = Dir then clear_old remove_ok latest fs d
      else if name = latest then clear_old remove_ok latest fs d
      else if \<not> remove_ok name then (Some (Errorf ''failed to delete file''), d)
      else clear_old remove_ok latest fs (AList.delete name d))"

definition ClearOldProcessedM3U ::
    "bool \<Rightarrow> (string \<Rightarrow> bool) \<Rightarrow> string \<Rightarrow> (string \<times> dir_entry) list \<Rightarrow> go_error option \<times> (string \<times> dir_entry) list" where
  "ClearOldProcessedM3U ok remove_ok latest d = (case ReadDir ok d of
     Inl e \<Rightarrow> (Some e, d)
   | Inr all \<Rightarrow> clear_old remove_ok latest all d)"

definition GetM3UFileByIndex :: "string \<Rightarrow> string" where
  "GetM3UFileByIndex idx = idx @ ''.m3u''"

section \<open>Reading the sources\<close>

text \<open>\<open>handleDownloaded\<close>: a line of attributes waits for the next line that is not a comment.\<close>

fun handle_lines ::
    "parse_env \<Rightarrow> (string \<Rightarrow> string option) \<Rightarrow> filters \<Rightarrow> string \<Rightarrow> string \<Rightarrow> LineDetails list \<Rightarrow> streams_dir
      \<Rightarrow> StreamInfo list \<times> streams_dir" where
  "handle_lines E lb flt idx currentLine [] d = ([], d)"
| "handle_lines E lb flt idx currentLine (l # ls) d =
     (let line = TrimSpace (Content l) in
      if HasPrefix line ''#EXTINF:'' then handle_lines E lb flt idx line ls d
      else if currentLine \<noteq> [] \<and> \<not> HasPrefix line ''#'' then
        (case parseLine E lb currentLine l idx d of
           (None, d1) \<Rightarrow> handle_lines E lb flt idx [] ls d1
         | (Some s, d1) \<Rightarrow> (case handle_lines E lb flt idx [] ls d1 of
             (ss, d2) \<Rightarrow> (if checkFilter flt s then s # ss else ss, d2)))
      else handle_lines E lb flt idx currentLine ls d)"

definition handleDownloaded ::
    "parse_env \<Rightarrow> (string \<Rightarrow> string option) \<Rightarrow> filters \<Rightarrow> string \<Rightarrow> SourceDownloaderResult \<Rightarrow> streams_dir
      \<Rightarrow> StreamInfo list \<times> streams_dir" where
  "handleDownloaded E lb flt idx res d = handle_lines E lb flt idx [] (Lines res) d"

text \<open>One source: its copy is opened, it is downloaded, its lines are handled.\<close>

definition with_copy :: "proc_fs \<Rightarrow> string \<Rightarrow> source_io \<Rightarrow> source_io" where
  "with_copy fs idx io = io\<lparr>copy := map_option (\<lambda>c. \<lparr>received = c, read_err = None\<rparr>) (sources fs (GetM3UFileByIndex idx))\<rparr>"

definition read_source ::
    "parse_env \<Rightarrow> (string \<Rightarrow> string option) \<Rightarrow> filters \<Rightarrow> (string \<Rightarrow> source_io) \<Rightarrow> string \<Rightarrow> proc_fs
      \<Rightarrow> StreamInfo list \<times> proc_fs" where
  "read_source E lb flt ios idx fs =
     (case download_source (pe_environ E) idx (with_copy fs idx (ios idx)) of (res, tmp) \<Rightarrow>
      case handleDownloaded E lb flt idx res (streams fs) of (ss, d) \<Rightarrow>
        (ss, fs\<lparr>streams := d, sources := (case tmp of None \<Rightarrow> sources fs
            | Some c \<Rightarrow> (sources fs)(GetM3UFileByIndex idx @ ''.new'' \<mapsto> c))\<rparr>))"

fun read_sources ::
    "parse_env \<Rightarrow> (string \<Rightarrow> string option) \<Rightarrow> filters \<Rightarrow> (string \<Rightarrow> source_io) \<Rightarrow> string list \<Rightarrow> proc_fs
      \<Rightarrow> StreamInfo list \<times> proc_fs" where
  "read_sources E lb flt ios [] fs = ([], fs)"
| "read_sources E lb flt ios (idx # idxs) fs =
     (case read_source E lb flt ios idx fs of (ss, fs1) \<Rightarrow>
      case read_sources E lb flt ios idxs fs1 of (ss', fs2) \<Rightarrow> (ss @ ss', fs2))"

section \<open>The processor\<close>

record M3UProcessor =
  streamCount :: int
  p_file :: "string option"
  written :: string
  sortingMgr :: SortingManager
  criticalErrorOccurred :: bool

text \<open>
  The name of the result file is the time of day; nothing is created when that fails.  Until the
  rename the directory holds it under its temporary name as an empty file: what has been written
  to it is the field \<open>written\<close> of the processor.
\<close>

definition NewProcessor ::
    "environ \<Rightarrow> string \<Rightarrow> bool \<Rightarrow> (nat \<Rightarrow> shard_file) \<Rightarrow> proc_fs \<Rightarrow> (M3UProcessor \<times> proc_fs) option" where
  "NewProcessor env now created shards fs =
     (let name = now @ ''.m3u'' @ ''.tmp'' in
      if \<not> created then None
      else Some (\<lparr>streamCount = 0, p_file = Some name, written = [],
                  sortingMgr = newSortingManager env shards, criticalErrorOccurred = False\<rparr>,
                 fs\<lparr>processed := AList.update name (File []) (processed fs)\<rparr>))"

definition markCriticalError :: "M3UProcessor \<Rightarrow> M3UProcessor" where
  "markCriticalError p = p\<lparr>criticalErrorOccurred := True\<rparr>"

definition addStream ::
    "(string \<Rightarrow> nat) \<Rightarrow> sort_io \<Rightarrow> StreamInfo \<Rightarrow> M3UProcessor \<Rightarrow> (go_error option \<times> M3UProcessor) outcome" where
  "addStream hash io s p = (case URLs s of
     None \<Rightarrow> Panic ''nil pointer dereference''
   | Some [] \<Rightarrow> Ok (None, p)
   | Some us \<Rightarrow> bind_outcome (AddToSorter hash io s (sortingMgr p)) (\<lambda>(e, m).
       Ok (e, p\<lparr>streamCount := int64 (streamCount p + 1), sortingMgr := m\<rparr>)))"

fun workers ::
    "(string \<Rightarrow> nat) \<Rightarrow> (sort_io \<times> StreamInfo) list \<Rightarrow> M3UProcessor \<Rightarrow> M3UProcessor outcome" where
  "workers hash [] p = Ok p"
| "workers hash ((io, s) # ss) p = bind_outcome (addStream hash io s p) (\<lambda>(e, p1).
     workers hash ss (if e = None then p1 else markCriticalError p1))"

text \<open>Which of the writes to the result file succeed.\<close>

record out_io =
  header_ok :: bool
  entry_ok :: "nat \<Rightarrow> bool"
  flush_ok :: bool

fun write_entries ::
    "parse_env \<Rightarrow> string \<Rightarrow> out_io \<Rightarrow> nat \<Rightarrow> StreamInfo list \<Rightarrow> M3UProcessor \<Rightarrow> M3UProcessor" where
  "write_entries E baseURL w k [] p = p"
| "write_entries E baseURL w k (s # ss) p =
     (if entry_ok w k
      then write_entries E baseURL w (Suc k) ss (p\<lparr>written := written p @ formatStreamEntry E baseURL s\<rparr>)
      else write_entries E baseURL w (Suc k) ss (markCriticalError p))"

definition compileM3U ::
    "parse_env \<Rightarrow> ((StreamInfo \<Rightarrow> StreamInfo \<Rightarrow> bool) \<Rightarrow> StreamInfo list \<Rightarrow> StreamInfo list) \<Rightarrow> (nat \<Rightarrow> sort_io)
      \<Rightarrow> string \<Rightarrow> out_io \<Rightarrow> M3UProcessor \<Rightarrow> M3UProcessor" where
  "compileM3U E srt gio baseURL w p =
     (let finish = (\<lambda>p. p\<lparr>sortingMgr := Close (sortingMgr p)\<rparr>) in
      if \<not> header_ok w then finish (markCriticalError p)
      else let p1 = p\<lparr>written := written p @ ''#EXTM3U'' @ [newline]\<rparr> in
        (case GetSortedEntries srt gio (sortingMgr p1) of
           (Inl e, m) \<Rightarrow> finish (markCriticalError (p1\<lparr>sortingMgr := m\<rparr>))
         | (Inr es, m) \<Rightarrow>
             let p2 = write_entries E baseURL w 0 es (p1\<lparr>sortingMgr := m\<rparr>) in
             if \<not> flush_ok w then finish (markCriticalError p2) else finish p2))"

section \<open>The end of an update\<close>

fun applyNewRemoteFiles :: "(string \<Rightarrow> bool) \<Rightarrow> string list \<Rightarrow> (string \<rightharpoonup> string) \<Rightarrow> (string \<rightharpoonup> string)" where
  "applyNewRemoteFiles rename_ok [] src = src"
| "applyNewRemoteFiles rename_ok (idx # idxs) src =
     (let finalPath = GetM3UFileByIndex idx; tmpPath = finalPath @ ''.new'' in
      case src tmpPath of
        None \<Rightarrow> applyNewRemoteFiles rename_ok idxs src
      | Some c \<Rightarrow> applyNewRemoteFiles rename_ok idxs
          (if rename_ok idx then src(tmpPath := None, finalPath \<mapsto> c) else src))"

definition cleanFailedRemoteFiles ::
    "(string \<Rightarrow> bool) \<Rightarrow> string list \<Rightarrow> (string \<rightharpoonup> string) \<Rightarrow> (string \<rightharpoonup> string)" where
  "cleanFailedRemoteFiles removed idxs src = foldl (\<lambda>src idx.
     if removed idx then src(GetM3UFileByIndex idx @ ''.new'' := None) else src) src idxs"

text \<open>Which of the renames and removals succeed, and which branch of the \<open>select\<close> is taken.\<close>

record end_io =
  cancelled :: bool
  rename_result_ok :: bool
  rename_source_ok :: "string \<Rightarrow> bool"
  remove_source_ok :: "string \<Rightarrow> bool"
  read_dir_ok :: bool
  remove_ok :: "string \<Rightarrow> bool"

definition remove_file :: "end_io \<Rightarrow> string \<Rightarrow> (string \<times> dir_entry) list \<Rightarrow> (string \<times> dir_entry) list" where
  "remove_file x name d = (if remove_ok x name then AList.delete name d else d)"

definition Wait ::
    "end_io \<Rightarrow> string list \<Rightarrow> string \<Rightarrow> M3UProcessor \<Rightarrow> proc_fs \<Rightarrow> go_error option \<times> M3UProcessor \<times> proc_fs" where
  "Wait x idxs tmp p fs =
     (if cancelled x then
        (Some Canceled, p, fs\<lparr>processed := remove_file x tmp (processed fs),
            sources := cleanFailedRemoteFiles (remove_source_ok x) idxs (sources fs)\<rparr>)
      else if \<not> criticalErrorOccurred p then
        (let prod = TrimSuffix tmp ''.tmp'';
             d1 = (if rename_result_ok x
                   then AList.update prod (File (written p)) (AList.delete tmp (processed fs)) else processed fs);
             src = applyNewRemoteFiles (rename_source_ok x) idxs (sources fs);
             d2 = snd (ClearOldProcessedM3U (read_dir_ok x) (remove_ok x) prod d1)
         in (None, p, fs\<lparr>processed := d2, sources := src\<rparr>))
      else (None, p\<lparr>p_file := None\<rparr>,
            fs\<lparr>processed := remove_file x tmp (processed fs),
              sources := cleanFailedRemoteFiles (remove_source_ok x) idxs (sources fs)\<rparr>))"

definition GetResultPath :: "bool \<Rightarrow> string \<Rightarrow> M3UProcessor \<Rightarrow> proc_fs \<Rightarrow> string outcome" where
  "GetResultPath ok dir p fs = (case p_file p of
     Some name \<Rightarrow> Ok (dir @ ''/'' @ TrimSuffix name ''.tmp'')
   | None \<Rightarrow> bind_outcome (GetLatestProcessedM3UPath ok (processed fs)) (\<lambda>r.
       Ok (case r of Inl e \<Rightarrow> [] | Inr path \<Rightarrow> path)))"

section \<open>An update\<close>

text \<open>
  Everything an update meets: the time it starts at, the answers of the sources and of the file
  system, the compiled filters, the hash and the sort routine, the shards left on disk, and the
  order in which the workers take the channels, each with what the file system does then.
\<close>

record update_env =
  u_env :: parse_env
  u_now :: string
  u_created :: bool
  u_left_behind :: "string \<Rightarrow> string option"
  u_filters :: filters
  u_source :: "string \<Rightarrow> source_io"
  u_hash :: "string \<Rightarrow> nat"
  u_order :: "StreamInfo list \<Rightarrow> (sort_io \<times> StreamInfo) list"
  u_sort :: "(StreamInfo \<Rightarrow> StreamInfo \<Rightarrow> bool) \<Rightarrow> StreamInfo list \<Rightarrow> StreamInfo list"
  u_shards :: "nat \<Rightarrow> shard_file"
  u_get :: "nat \<Rightarrow> sort_io"
  u_out :: out_io
  u_end :: end_io

definition u_indexes :: "update_env \<Rightarrow> string list" where
  "u_indexes U = GetM3UIndexes (pe_environ (u_env U))"

definition u_tmp :: "update_env \<Rightarrow> string" where
  "u_tmp U = u_now U @ ''.m3u'' @ ''.tmp''"

definition u_base :: "update_env \<Rightarrow> string" where
  "u_base U = DetermineBaseURL (pe_environ (u_env U)) None"

text \<open>The channels the sources give, and the directories then.\<close>

definition u_read :: "update_env \<Rightarrow> proc_fs \<Rightarrow> StreamInfo list \<times> proc_fs" where
  "u_read U fs = read_sources (u_env U) (u_left_behind U) (u_filters U) (u_source U) (u_indexes U) fs"

text \<open>\<open>NewProcessor\<close> and \<open>Run\<close>; the processor that was not created is a nil pointer.\<close>

definition Run :: "update_env \<Rightarrow> proc_fs \<Rightarrow> (go_error option \<times> M3UProcessor \<times> proc_fs) outcome" where
  "Run U fs =
     (case NewProcessor (pe_environ (u_env U)) (u_now U) (u_created U) (u_shards U) fs of
        None \<Rightarrow> Panic ''nil pointer dereference''
      | Some (p, fs1) \<Rightarrow>
          (case u_read U fs1 of (ss, fs2) \<Rightarrow>
           bind_outcome (workers (u_hash U) (u_order U ss) p) (\<lambda>p1.
             Ok (Wait (u_end U) (u_indexes U) (u_tmp U)
                  (compileM3U (u_env U) (u_sort U) (u_get U) (u_base U) (u_out U) p1) fs2))))"

section \<open>What the parts do\<close>

definition has_url :: "StreamInfo \<Rightarrow> bool" where
  "has_url s \<longleftrightarrow> (\<exists>u. URLs s = Some [u])"

lemma parseLine_has_url: "parseLine E lb line l idx d = (Some s, d') \<Longrightarrow> has_url s"
  by (auto simp: parseLine_def Let_def has_url_def split: if_splits)

lemma handle_lines_has_url:
  "handle_lines E lb flt idx cur ls d = (ss, d') \<Longrightarrow> list_all has_url ss"
proof (induction ls arbitrary: cur d ss d')
  case (Cons l ls)
  let ?line = "TrimSpace (Content l)"
  consider "HasPrefix ?line ''#EXTINF:''" | "\<not> HasPrefix ?line ''#EXTINF:''" "cur \<noteq> [] \<and> \<not> HasPrefix ?line ''#''"
    | "\<not> HasPrefix ?line ''#EXTINF:''" "\<not> (cur \<noteq> [] \<and> \<not> HasPrefix ?line ''#'')" by blast
  then show ?case
  proof cases
    case 2
    obtain r d1 where p: "parseLine E lb cur l idx d = (r, d1)" by fastforce
    obtain ss1 d2 where h: "handle_lines E lb flt idx [] ls d1 = (ss1, d2)" by fastforce
    have "list_all has_url ss1" using Cons.IH [OF h] .
    with 2 p h Cons.prems show ?thesis
      by (cases r) (auto simp: Let_def dest: parseLine_has_url split: if_splits)
  qed (use Cons in \<open>auto simp: Let_def\<close>)
qed simp

lemma read_source_has_url: "read_source E lb flt ios idx fs = (ss, fs') \<Longrightarrow> list_all has_url ss"
  by (auto simp: read_source_def handleDownloaded_def dest: handle_lines_has_url split: prod.splits)

lemma read_sources_has_url: "read_sources E lb flt ios idxs fs = (ss, fs') \<Longrightarrow> list_all has_url ss"
  by (induction idxs arbitrary: fs ss fs') (auto dest: read_source_has_url split: prod.splits)

text \<open>Reading a source changes nothing but its new file and the store of URLs.\<close>

lemma read_source_frame:
  assumes "read_source E lb flt ios idx fs = (ss, fs')"
  shows "processed fs' = processed fs"
    "n \<noteq> GetM3UFileByIndex idx @ ''.new'' \<Longrightarrow> sources fs' n = sources fs n"
    "sources fs' (GetM3UFileByIndex idx @ ''.new'') =
       (case snd (download_source (pe_environ E) idx (with_copy fs idx (ios idx))) of
          None \<Rightarrow> sources fs (GetM3UFileByIndex idx @ ''.new'') | Some c \<Rightarrow> Some c)"
  using assms by (auto simp: read_source_def split: prod.splits option.splits)

lemma read_sources_frame:
  "read_sources E lb flt ios idxs fs = (ss, fs') \<Longrightarrow> processed fs' = processed fs
    \<and> (n \<notin> (\<lambda>idx. GetM3UFileByIndex idx @ ''.new'') ` set idxs \<longrightarrow> sources fs' n = sources fs n)"
proof (induction idxs arbitrary: fs ss)
  case (Cons idx idxs)
  obtain ss1 fs1 where r: "read_source E lb flt ios idx fs = (ss1, fs1)" by fastforce
  obtain ss2 fs2 where "read_sources E lb flt ios idxs fs1 = (ss2, fs2)" by fastforce
  with Cons r read_source_frame [OF r] show ?case by auto
qed simp

lemma cleanFailed:
  "cleanFailedRemoteFiles (\<lambda>_. True) idxs src n =
     (if n \<in> (\<lambda>idx. GetM3UFileByIndex idx @ ''.new'') ` set idxs then None else src n)"
  unfolding cleanFailedRemoteFiles_def by (induction idxs arbitrary: src) auto

lemma workers_add_all:
  assumes "list_all has_url ss"
    and "add_streams hash (map (Pair all_ok) ss) (sortingMgr p) = Ok (replicate (length ss) None, m)"
  shows "\<exists>n. workers hash (map (Pair all_ok) ss) p = Ok (p\<lparr>streamCount := n, sortingMgr := m\<rparr>)"
  using assms
proof (induction ss arbitrary: p)
  case Nil
  then show ?case by (intro exI [of _ "streamCount p"]) simp
next
  case (Cons s ss)
  obtain u where u: "URLs s = Some [u]" using Cons.prems(1) by (auto simp: has_url_def)
  obtain e1 m1 es m2 where m1: "AddToSorter hash all_ok s (sortingMgr p) = Ok (e1, m1)"
      "add_streams hash (map (Pair all_ok) ss) m1 = Ok (es, m2)" "e1 # es = replicate (length (s # ss)) None" "m2 = m"
    using Cons.prems(2) by (simp add: bind_outcome_Ok split_beta) (metis prod.collapse)
  then have "addStream hash all_ok s p = Ok (None, p\<lparr>streamCount := int64 (streamCount p + 1), sortingMgr := m1\<rparr>)"
    by (cases u) (simp add: addStream_def u)
  with Cons.IH [of "p\<lparr>streamCount := int64 (streamCount p + 1), sortingMgr := m1\<rparr>"] Cons.prems(1) m1(2-4)
  show ?case by simp
qed

lemma write_entries_ok:
  "\<forall>k. entry_ok w k \<Longrightarrow> write_entries E base w k ss p = p\<lparr>written := written p @ concat (map (formatStreamEntry E base) ss)\<rparr>"
  by (induction ss arbitrary: k p) simp_all

lemma delete_update: "k \<notin> fst ` set d \<Longrightarrow> AList.delete k (AList.update k v d) = d"
  by (induction d) (auto simp: delete_idem)

lemma clear_old_ok:
  "set (snd (clear_old (\<lambda>_. True) latest fs d))
     = {(n, e) \<in> set d. \<not> (\<exists>c. (n, c) \<in> set fs \<and> c \<noteq> Dir \<and> n \<noteq> latest)}"
proof (induction fs arbitrary: d)
  case (Cons f fs)
  obtain n e where f: "f = (n, e)" by (cases f)
  show ?case by (auto simp: f Cons.IH AList.delete_eq)
qed simp

lemma clear_old_latest: "map_of (snd (clear_old ok latest fs d)) latest = map_of d latest"
  by (induction ok latest fs d rule: clear_old.induct) (simp_all add: delete_conv)

section \<open>What an update publishes\<close>

text \<open>The update meets no fault of the file system at the end, and is not cancelled.\<close>

definition smooth_end :: "update_env \<Rightarrow> bool" where
  "smooth_end U \<longleftrightarrow> \<not> cancelled (u_end U) \<and> rename_result_ok (u_end U) \<and> read_dir_ok (u_end U)
     \<and> remove_ok (u_end U) = (\<lambda>_. True)"

definition smooth_out :: "update_env \<Rightarrow> bool" where
  "smooth_out U \<longleftrightarrow> header_ok (u_out U) \<and> (\<forall>k. entry_ok (u_out U) k) \<and> flush_ok (u_out U)"

lemma NewProcessor_created:
  "NewProcessor env (u_now U) True shards fs =
     Some (\<lparr>streamCount = 0, p_file = Some (u_tmp U), written = [],
            sortingMgr = newSortingManager env shards, criticalErrorOccurred = False\<rparr>,
           fs\<lparr>processed := AList.update (u_tmp U) (File []) (processed fs)\<rparr>)"
  by (simp add: NewProcessor_def u_tmp_def Let_def)

lemma compileM3U_ok:
  assumes "smooth_out U" "GetSortedEntries srt gio (sortingMgr p) = (Inr out, m')" "written p = []"
  shows "\<exists>q. compileM3U E srt gio base (u_out U) p = q \<and> criticalErrorOccurred q = criticalErrorOccurred p
    \<and> written q = ''#EXTM3U'' @ [newline] @ concat (map (formatStreamEntry E base) out) \<and> p_file q = p_file p"
  using assms by (simp add: compileM3U_def smooth_out_def Let_def write_entries_ok)

lemma TrimSuffix_tmp: "TrimSuffix (u_tmp U) ''.tmp'' = u_now U @ ''.m3u''"
  unfolding u_tmp_def append_assoc [symmetric] by (rule TrimSuffix_append)

lemma Wait_publishes:
  assumes "smooth_end U" "\<not> criticalErrorOccurred p" "distinct (map fst (processed fs))"
  shows "\<exists>fs'. Wait (u_end U) idxs (u_tmp U) p fs = (None, p, fs')
    \<and> {(n, e) \<in> set (processed fs'). e \<noteq> Dir} = {(u_now U @ ''.m3u'', File (written p))}
    \<and> map_of (processed fs') (u_now U @ ''.m3u'') = Some (File (written p))
    \<and> sources fs' = applyNewRemoteFiles (rename_source_ok (u_end U)) idxs (sources fs)"
proof -
  let ?prod = "u_now U @ ''.m3u''"
  let ?d = "AList.update ?prod (File (written p)) (AList.delete (u_tmp U) (processed fs))"
  let ?d' = "snd (clear_old (\<lambda>_. True) ?prod (sort_key fst ?d) ?d)"
  have w: "Wait (u_end U) idxs (u_tmp U) p fs = (None, p,
      fs\<lparr>processed := ?d', sources := applyNewRemoteFiles (rename_source_ok (u_end U)) idxs (sources fs)\<rparr>)"
    using assms by (simp add: Wait_def smooth_end_def Let_def TrimSuffix_tmp ClearOldProcessedM3U_def ReadDir_def)
  have "(?prod, File (written p)) \<in> set ?d" by (rule map_of_SomeD) (simp add: update_conv)
  moreover have "e = File (written p)" if "(?prod, e) \<in> set ?d" for e
  proof -
    have "distinct (map fst ?d)" by (simp add: distinct_update distinct_delete assms(3))
    then have "map_of ?d ?prod = Some e" using that by simp
    then show ?thesis by (simp add: update_conv)
  qed
  ultimately have "{(n, e) \<in> set ?d'. e \<noteq> Dir} = {(?prod, File (written p))}"
    unfolding clear_old_ok by auto
  moreover have "map_of ?d' ?prod = Some (File (written p))" by (simp add: clear_old_latest update_conv)
  ultimately show ?thesis using w by simp
qed

definition entry_url :: "parse_env \<Rightarrow> string \<Rightarrow> StreamInfo \<Rightarrow> string" where
  "entry_url E base s = base @ ''/p/stream/'' @ EncodeSlug (slug_codec E) s"

lemma formatStreamEntry_no_urls:
  "URLs s = None \<Longrightarrow> arrival E [] = [] \<Longrightarrow>
    formatStreamEntry E base s = extinf_line s @ [newline] @ entry_url E base s @ [newline]"
  by (simp add: formatStreamEntry_line GenerateStreamURL_def entry_url_def Contains_def)

text \<open>Up to the end of \<open>compileM3U\<close>, when nothing fails.\<close>

definition smooth_sorting :: "update_env \<Rightarrow> bool" where
  "smooth_sorting U \<longleftrightarrow> u_created U \<and> slice_sorter (u_sort U) \<and> u_shards U = (\<lambda>_. Missing)
     \<and> u_get U = (\<lambda>_. all_ok) \<and> (\<forall>ss. \<exists>ss'. mset ss' = mset ss \<and> u_order U ss = map (Pair all_ok) ss')"

definition u_start :: "update_env \<Rightarrow> proc_fs \<Rightarrow> proc_fs" where
  "u_start U fs = fs\<lparr>processed := AList.update (u_tmp U) (File []) (processed fs)\<rparr>"

lemma Run_smooth:
  assumes "smooth_sorting U" "smooth_out U" "u_read U (u_start U fs) = (ss, fs2)"
  shows "\<exists>q out ps. Run U fs = Ok (Wait (u_end U) (u_indexes U) (u_tmp U) q fs2) \<and> \<not> criticalErrorOccurred q
    \<and> p_file q = Some (u_tmp U)
    \<and> written q = ''#EXTM3U'' @ [newline] @ concat (map (formatStreamEntry (u_env U) (u_base U)) out)
    \<and> mset (map snd ps) = mset out \<and> distinct (map fst ps) \<and> set (map fst ps) = key_of (u_hash U) ` set ss
    \<and> (\<forall>(k, v) \<in> set ps. (\<exists>s \<in> set ss. key_of (u_hash U) s = k \<and> Title v = json_string (Title s)) \<and> URLs v = None)"
proof -
  let ?m0 = "newSortingManager (pe_environ (u_env U)) (\<lambda>_. Missing)"
  let ?p0 = "\<lparr>streamCount = 0, p_file = Some (u_tmp U), written = [], sortingMgr = ?m0, criticalErrorOccurred = False\<rparr>"
  have S: "u_created U" "slice_sorter (u_sort U)" "u_shards U = (\<lambda>_. Missing)" "u_get U = (\<lambda>_. all_ok)"
    using assms(1) by (simp_all add: smooth_sorting_def)
  obtain ss' where ss': "mset ss' = mset ss" "u_order U ss = map (Pair all_ok) ss'"
    using assms(1) unfolding smooth_sorting_def by blast
  have sets: "set ss' = set ss" using mset_eq_setD [OF ss'(1)] .
  have url: "list_all has_url ss'"
    using read_sources_has_url assms(3) sets by (simp add: u_read_def list_all_iff)
  then have "\<forall>s \<in> set ss'. URLs s \<noteq> None" by (auto simp: list_all_iff has_url_def)
  from sort_run_ok [OF S(2) this, of "u_hash U"] obtain m out m' ps where r:
      "add_streams (u_hash U) (map (Pair all_ok) ss') ?m0 = Ok (replicate (length ss') None, m)"
      "GetSortedEntries (u_sort U) (\<lambda>_. all_ok) m = (Inr out, m')" "mset (map snd ps) = mset out"
      "distinct (map fst ps)" "set (map fst ps) = key_of (u_hash U) ` set ss'"
      "\<forall>(p, v) \<in> set ps. (\<exists>s \<in> set ss'. key_of (u_hash U) s = p \<and> Title v = json_string (Title s)) \<and> URLs v = None"
    by blast
  obtain n where n: "workers (u_hash U) (u_order U ss) ?p0 = Ok (?p0\<lparr>streamCount := n, sortingMgr := m\<rparr>)"
    using workers_add_all [OF url, of "u_hash U" ?p0 m] r(1) ss'(2) by auto
  let ?q = "compileM3U (u_env U) (u_sort U) (u_get U) (u_base U) (u_out U) (?p0\<lparr>streamCount := n, sortingMgr := m\<rparr>)"
  have q: "\<not> criticalErrorOccurred ?q" "p_file ?q = Some (u_tmp U)"
    "written ?q = ''#EXTM3U'' @ [newline] @ concat (map (formatStreamEntry (u_env U) (u_base U)) out)"
    using compileM3U_ok [OF assms(2), of "u_sort U" "u_get U" "?p0\<lparr>streamCount := n, sortingMgr := m\<rparr>" out m'
        "u_env U" "u_base U"] r(2) S(4) by simp_all
  have run: "Run U fs = Ok (Wait (u_end U) (u_indexes U) (u_tmp U) ?q fs2)"
    using S n assms(3) by (simp add: Run_def NewProcessor_created u_start_def)
  show ?thesis
    by (rule exI [of _ ?q], rule exI [of _ out], rule exI [of _ ps])
      (intro conjI run q r(3,4) r(5) [unfolded sets] r(6) [unfolded sets])
qed

text \<open>C11. An update without faults publishes every accepted channel once: the directory of playlists
  then holds one file, the new playlist; after its header it has one entry for each pair of
  shard and sanitized title among the channels that the sources gave and the filters let
  through, each with the title of such a channel.  Every entry points to the path
  \<^verbatim>\<open>/p/stream/<slug>\<close>: the path and the extension of the source URL, which \<open>GenerateStreamURL\<close> would
  use, are gone, because the URLs do not survive the shard files.\<close>

theorem update_publishes_every_channel:
  assumes "smooth_sorting U" "smooth_out U" "smooth_end U" "arrival (u_env U) [] = []"
    and "distinct (map fst (processed fs))" and "chans = fst (u_read U (u_start U fs))"
  shows "\<exists>p fs' ps out.
      Run U fs = Ok (None, p, fs')
    \<and> {(n, e) \<in> set (processed fs'). e \<noteq> Dir} = {(u_now U @ ''.m3u'', File (''#EXTM3U'' @ [newline]
          @ concat (map (\<lambda>s. extinf_line s @ [newline] @ entry_url (u_env U) (u_base U) s @ [newline]) out)))}
    \<and> mset (map snd ps) = mset out \<and> distinct (map fst ps)
    \<and> set (map fst ps) = key_of (u_hash U) ` set chans
    \<and> (\<forall>(k, v) \<in> set ps. \<exists>s \<in> set chans. key_of (u_hash U) s = k \<and> Title v = json_string (Title s))"
proof -
  obtain fs2 where read: "u_read U (u_start U fs) = (chans, fs2)" using assms(6) by (metis prod.collapse)
  obtain q out ps where r: "Run U fs = Ok (Wait (u_end U) (u_indexes U) (u_tmp U) q fs2)" "\<not> criticalErrorOccurred q"
      "written q = ''#EXTM3U'' @ [newline] @ concat (map (formatStreamEntry (u_env U) (u_base U)) out)"
      "mset (map snd ps) = mset out" "distinct (map fst ps)" "set (map fst ps) = key_of (u_hash U) ` set chans"
      "\<forall>(k, v) \<in> set ps. (\<exists>s \<in> set chans. key_of (u_hash U) s = k \<and> Title v = json_string (Title s)) \<and> URLs v = None"
    using Run_smooth [OF assms(1,2) read] by blast
  have "processed fs2 = processed (u_start U fs)"
    using read_sources_frame read unfolding u_read_def by blast
  then have "distinct (map fst (processed fs2))" by (simp add: u_start_def distinct_update assms(5))
  from Wait_publishes [OF assms(3) r(2) this] obtain fs' where
      w: "Wait (u_end U) (u_indexes U) (u_tmp U) q fs2 = (None, q, fs')"
         "{(n, e) \<in> set (processed fs'). e \<noteq> Dir} = {(u_now U @ ''.m3u'', File (written q))}" by blast
  have "\<forall>v \<in> set out. URLs v = None"
    using mset_eq_setD [OF r(4), symmetric] r(7) by auto
  then have fmt: "map (formatStreamEntry (u_env U) (u_base U)) out
      = map (\<lambda>s. extinf_line s @ [newline] @ entry_url (u_env U) (u_base U) s @ [newline]) out"
    using assms(4) by (simp add: formatStreamEntry_no_urls)
  have titles: "\<forall>(k, v) \<in> set ps. \<exists>s \<in> set chans. key_of (u_hash U) s = k \<and> Title v = json_string (Title s)"
    using r(7) by blast
  show ?thesis
    by (rule exI [of _ q], rule exI [of _ fs'], rule exI [of _ ps], rule exI [of _ out])
      (use r(1) w(1) w(2) [unfolded r(3) fmt] r(4-6) titles in \<open>simp del: mset_map\<close>)
qed

definition sample_source :: "http_get \<Rightarrow> source_io" where
  "sample_source g = \<lparr>local_file = None, mkdir_ok = True, copy = None, got = g, create_tmp_ok = True, consumed = 0\<rparr>"

definition sample_body :: body where
  "sample_body = \<lparr>received = ''#EXTM3U'' @ [newline] @ news_line @ [newline] @ ''http:x'' @ [newline], read_err = None\<rparr>"

definition sample_end :: end_io where
  "sample_end = \<lparr>cancelled = False, rename_result_ok = True, rename_source_ok = \<lambda>_. True,
     remove_source_ok = \<lambda>_. True, read_dir_ok = True, remove_ok = \<lambda>_. True\<rparr>"

definition sample_update :: update_env where
  "sample_update = \<lparr>u_env = plain_env, u_now = ''20250101000000'', u_created = True, u_left_behind = Some,
     u_filters = \<lparr>includeGroups = [], includeTitle = [], excludeGroups = [], excludeTitle = []\<rparr>,
     u_source = \<lambda>_. sample_source (Got 200 sample_body), u_hash = length,
     u_order = map (Pair all_ok), u_sort = insertion_sort, u_shards = \<lambda>_. Missing, u_get = \<lambda>_. all_ok,
     u_out = \<lparr>header_ok = True, entry_ok = \<lambda>_. True, flush_ok = True\<rparr>, u_end = sample_end\<rparr>"

definition old_fs :: proc_fs where
  "old_fs = \<lparr>processed = [(''20240101000000.m3u'', File ''#EXTM3U'')], sources = [''1.m3u'' \<mapsto> ''#EXTM3U''], streams = []\<rparr>"

lemma sample_update_smooth: "smooth_sorting sample_update" "smooth_out sample_update" "smooth_end sample_update"
  by (auto simp: smooth_sorting_def smooth_out_def smooth_end_def sample_update_def sample_end_def
      insertion.slice_sorter_axioms)

theorem update_publishes_every_channel_witness:
  "\<exists>p fs' (ps :: ((nat \<times> string) \<times> StreamInfo) list). Run sample_update old_fs = Ok (None, p, fs')
    \<and> set (map fst ps) = key_of (u_hash sample_update) ` set (fst (u_read sample_update (u_start sample_update old_fs)))"
proof -
  have "arrival (u_env sample_update) [] = []" "distinct (map fst (processed old_fs))"
    by (simp_all add: sample_update_def plain_env_def old_fs_def)
  from update_publishes_every_channel [OF sample_update_smooth this refl] show ?thesis by (elim exE conjE) (intro exI conjI, assumption+)
qed

section \<open>Updates that fail\<close>

lemma Run_cases:
  assumes "Run U fs = Ok (r, p, fs')"
  obtains ss fs2 q where "u_created U"
    "u_read U (u_start U fs) = (ss, fs2)"
    "Wait (u_end U) (u_indexes U) (u_tmp U) q fs2 = (r, p, fs')"
    "processed fs2 = AList.update (u_tmp U) (File []) (processed fs)"
    "\<forall>n. n \<notin> (\<lambda>idx. GetM3UFileByIndex idx @ ''.new'') ` set (u_indexes U) \<longrightarrow> sources fs2 n = sources fs n"
proof -
  let ?fs1 = "u_start U fs"
  have c: "u_created U" using assms by (cases "u_created U") (simp_all add: Run_def NewProcessor_def)
  obtain ss fs2 where r: "u_read U ?fs1 = (ss, fs2)" by fastforce
  obtain q where "Wait (u_end U) (u_indexes U) (u_tmp U) q fs2 = (r, p, fs')"
    using assms c r by (auto simp: Run_def NewProcessor_created bind_outcome_Ok u_start_def)
  moreover have "processed fs2 = processed ?fs1
      \<and> (n \<notin> (\<lambda>idx. GetM3UFileByIndex idx @ ''.new'') ` set (u_indexes U) \<longrightarrow> sources fs2 n = sources ?fs1 n)" for n
    using read_sources_frame [OF r [unfolded u_read_def]] .
  ultimately show ?thesis using that c r by (simp add: u_start_def)
qed

lemma Run_not_critical:
  assumes "smooth_sorting U" "smooth_out U" "\<not> cancelled (u_end U)"
  obtains p fs' where "Run U fs = Ok (None, p, fs')" "\<not> criticalErrorOccurred p"
proof -
  obtain ss fs2 where "u_read U (u_start U fs) = (ss, fs2)" by fastforce
  from Run_smooth [OF assms(1,2) this] obtain q where
      "Run U fs = Ok (Wait (u_end U) (u_indexes U) (u_tmp U) q fs2)" "\<not> criticalErrorOccurred q" by blast
  with assms(3) that show ?thesis by (simp add: Wait_def Let_def)
qed

text \<open>C16. An update that fails or is cancelled leaves the playlists and the copies of the sources as they
  were, whatever the sources and the disk did in between, and no half-downloaded file is left.
  (The URLs that were stored for channels meanwhile stay.)\<close>

theorem failed_update_changes_nothing:
  assumes "Run U fs = Ok (r, p, fs')" "criticalErrorOccurred p \<or> cancelled (u_end U)"
    and "remove_ok (u_end U) = (\<lambda>_. True)" "remove_source_ok (u_end U) = (\<lambda>_. True)" "u_tmp U \<notin> fst ` set (processed fs)"
  shows "processed fs' = processed fs
    \<and> sources fs' = (\<lambda>n. if n \<in> (\<lambda>idx. GetM3UFileByIndex idx @ ''.new'') ` set (u_indexes U) then None else sources fs n)"
proof -
  obtain ss fs2 q where w: "Wait (u_end U) (u_indexes U) (u_tmp U) q fs2 = (r, p, fs')"
      "processed fs2 = AList.update (u_tmp U) (File []) (processed fs)"
      "\<forall>n. n \<notin> (\<lambda>idx. GetM3UFileByIndex idx @ ''.new'') ` set (u_indexes U) \<longrightarrow> sources fs2 n = sources fs n"
    by (rule Run_cases [OF assms(1)]) (rule that)
  have "cancelled (u_end U) \<or> criticalErrorOccurred q"
    using w(1) assms(2) by (auto simp: Wait_def Let_def split: if_splits)
  then have "processed fs' = AList.delete (u_tmp U) (processed fs2)"
      "sources fs' = cleanFailedRemoteFiles (\<lambda>_. True) (u_indexes U) (sources fs2)"
    using w(1) assms(3,4) by (auto simp: Wait_def remove_file_def split: if_splits)
  with w(2,3) assms(5) show ?thesis
    by (simp add: delete_update fun_eq_iff cleanFailed)
qed

definition failing_update :: update_env where
  "failing_update = sample_update\<lparr>u_source := \<lambda>_. sample_source GetErr,
     u_out := \<lparr>header_ok = False, entry_ok = \<lambda>_. True, flush_ok = True\<rparr>\<rparr>"

text \<open>Without an answer, the copies are read; here they hold a header and no channel.\<close>

lemma no_answer_read:
  assumes "sources fs = [''1.m3u'' \<mapsto> ''#EXTM3U'']" "u_source U = (\<lambda>_. sample_source GetErr)" "u_env U = plain_env"
  shows "u_read U fs = ([], fs)"
proof -
  have idx: "GetM3UIndexes (pe_environ plain_env) = [''1'', ''10'']"
    by (simp add: GetM3UIndexes_def indexed_def plain_env_def HasPrefix_def TrimPrefix_def)
  have scan: "scan_tokens 1048576 ''#EXTM3U'' = ([''#EXTM3U''], None)"
    by (simp add: scan_tokens_def raw_lines_def newline_def drop_CR_def)
  have trim: "TrimSpace ''#EXTM3U'' = ''#EXTM3U''" by (simp add: TrimSpace_visible visible_def)
  have env: "Getenv (pe_environ plain_env) ''M3U_URL_1'' = ''http://a''" "Getenv (pe_environ plain_env) ''M3U_URL_10'' = ''http://b''"
    by (simp_all add: plain_env_def Getenv_def LookupEnv_def)
  have d: "download_source (pe_environ plain_env) ''1'' (with_copy fs ''1'' (sample_source GetErr))
      = (\<lparr>Lines = number_lines [''#EXTM3U''], Errors = []\<rparr>, None)"
    using assms(1) env scan
    by (simp add: download_source_def with_copy_def sample_source_def handleRemoteURL_def useFallback_def HasPrefix_def
        GetM3UFileByIndex_def scanAndStream_def)
  have d10: "download_source (pe_environ plain_env) ''10'' (with_copy fs ''10'' (sample_source GetErr))
      = (failed ''HTTP request error'', None)"
    using assms(1) env
    by (simp add: download_source_def with_copy_def sample_source_def handleRemoteURL_def useFallback_def HasPrefix_def
        GetM3UFileByIndex_def)
  show ?thesis
    using assms(2,3) idx d d10 trim
    by (simp add: u_read_def u_indexes_def read_source_def handleDownloaded_def number_lines_def failed_def HasPrefix_def)
qed

theorem failed_update_changes_nothing_witness:
  "\<exists>r p fs'. Run failing_update old_fs = Ok (r, p, fs') \<and> processed fs' = processed old_fs
    \<and> sources fs' ''1.m3u'' = Some ''#EXTM3U''"
proof -
  let ?U = failing_update
  have r: "u_read ?U (u_start ?U old_fs) = ([], u_start ?U old_fs)"
    by (rule no_answer_read) (simp_all add: old_fs_def u_start_def failing_update_def sample_update_def)
  have "u_created ?U" "u_order ?U [] = []" "\<not> header_ok (u_out ?U)" "\<not> cancelled (u_end ?U)"
      "remove_ok (u_end ?U) = (\<lambda>_. True)" "remove_source_ok (u_end ?U) = (\<lambda>_. True)"
    by (simp_all add: failing_update_def sample_update_def sample_end_def)
  with r obtain p fs' where run: "Run ?U old_fs = Ok (None, p, fs')" "criticalErrorOccurred p"
    by (simp add: Run_def NewProcessor_created u_start_def compileM3U_def Let_def markCriticalError_def Wait_def)
  have "u_tmp ?U \<notin> fst ` set (processed old_fs)"
    by (simp add: u_tmp_def failing_update_def sample_update_def old_fs_def)
  from failed_update_changes_nothing [OF run(1) disjI1 [OF run(2)] _ _ this] have
    "processed fs' = processed old_fs \<and> sources fs' ''1.m3u'' = Some ''#EXTM3U''"
    using \<open>remove_ok (u_end ?U) = (\<lambda>_. True)\<close> \<open>remove_source_ok (u_end ?U) = (\<lambda>_. True)\<close> by (auto simp: GetM3UFileByIndex_def old_fs_def)
  with run(1) show ?thesis by blast
qed

text \<open>When the finished playlist cannot be renamed, the update still counts as done and then
  removes every playlist there is, the old ones and the new one.\<close>

theorem failed_rename_deletes_playlists:
  assumes "Run U fs = Ok (r, p, fs')" "\<not> criticalErrorOccurred p" "\<not> cancelled (u_end U)"
    and "\<not> rename_result_ok (u_end U)" "read_dir_ok (u_end U)" "remove_ok (u_end U) = (\<lambda>_. True)"
    and "u_now U @ ''.m3u'' \<notin> fst ` set (processed fs)"
  shows "r = None \<and> (\<forall>(n, e) \<in> set (processed fs'). e = Dir)"
proof -
  obtain ss fs2 q where w: "Wait (u_end U) (u_indexes U) (u_tmp U) q fs2 = (r, p, fs')"
      "processed fs2 = AList.update (u_tmp U) (File []) (processed fs)"
    by (rule Run_cases [OF assms(1)]) (rule that)
  let ?prod = "u_now U @ ''.m3u''"
  have "\<not> criticalErrorOccurred q"
    using w(1) assms(2,3) by (auto simp: Wait_def Let_def split: if_splits)
  then have r: "r = None" "processed fs' = snd (clear_old (\<lambda>_. True) ?prod (sort_key fst (processed fs2)) (processed fs2))"
    using w(1) assms(3-6) by (auto simp: Wait_def Let_def TrimSuffix_tmp ClearOldProcessedM3U_def ReadDir_def)
  have "?prod \<noteq> u_tmp U" by (simp add: u_tmp_def)
  then have "?prod \<notin> fst ` set (processed fs2)" using w(2) assms(7) by (simp add: dom_update)
  with r show ?thesis by (auto simp: clear_old_ok rev_image_eqI)
qed

definition rename_fails_update :: update_env where
  "rename_fails_update = sample_update\<lparr>u_source := \<lambda>_. sample_source GetErr, u_end := sample_end\<lparr>rename_result_ok := False\<rparr>\<rparr>"

theorem failed_rename_deletes_playlists_witness:
  "\<exists>p fs'. Run rename_fails_update old_fs = Ok (None, p, fs') \<and> (\<forall>(n, e) \<in> set (processed fs'). e = Dir)"
proof -
  let ?U = rename_fails_update
  have end_io: "\<not> cancelled (u_end ?U)" "\<not> rename_result_ok (u_end ?U)" "read_dir_ok (u_end ?U)" "remove_ok (u_end ?U) = (\<lambda>_. True)"
    by (simp_all add: rename_fails_update_def sample_update_def sample_end_def)
  obtain p fs' where run: "Run ?U old_fs = Ok (None, p, fs')" "\<not> criticalErrorOccurred p"
  proof (rule Run_not_critical)
    show "smooth_sorting ?U" "smooth_out ?U"
      using sample_update_smooth(1,2) by (simp_all add: smooth_sorting_def smooth_out_def rename_fails_update_def)
  qed (rule end_io)
  have "u_now ?U @ ''.m3u'' \<notin> fst ` set (processed old_fs)"
    by (simp add: rename_fails_update_def sample_update_def old_fs_def)
  with failed_rename_deletes_playlists [OF run end_io] run(1) show ?thesis by blast
qed

section \<open>The copies of the sources\<close>

lemma file_names:
  "GetM3UFileByIndex i @ ''.new'' = GetM3UFileByIndex j @ ''.new'' \<longleftrightarrow> i = j"
  "GetM3UFileByIndex i \<noteq> GetM3UFileByIndex j @ ''.new''"
  "GetM3UFileByIndex i = GetM3UFileByIndex j \<longleftrightarrow> i = j"
proof -
  have "last (GetM3UFileByIndex i) = CHR ''u''" "last (GetM3UFileByIndex j @ ''.new'') = CHR ''w''"
    by (simp_all add: GetM3UFileByIndex_def)
  moreover have "CHR ''u'' \<noteq> CHR ''w''" by simp
  ultimately show "GetM3UFileByIndex i \<noteq> GetM3UFileByIndex j @ ''.new''" by metis
qed (simp_all add: GetM3UFileByIndex_def)

lemma read_sources_new:
  assumes "distinct idxs" "idx \<in> set idxs"
    and "\<And>cp. snd (download_source (pe_environ E) idx ((ios idx)\<lparr>copy := cp\<rparr>)) = Some c"
    and "read_sources E lb flt ios idxs fs = (ss, fs')"
  shows "sources fs' (GetM3UFileByIndex idx @ ''.new'') = Some c"
  using assms(1,2,4)
proof (induction idxs arbitrary: fs ss fs')
  case (Cons i idxs)
  obtain ss1 fs1 where r: "read_source E lb flt ios i fs = (ss1, fs1)" by fastforce
  obtain ss2 fs2 where rs: "read_sources E lb flt ios idxs fs1 = (ss2, fs2)" by fastforce
  have fs': "fs' = fs2" using Cons.prems(3) r rs by simp
  show ?case
  proof (cases "idx \<in> set idxs")
    case True
    then show ?thesis using Cons.IH [OF _ True rs] Cons.prems(1) fs' by simp
  next
    case False
    then have "i = idx" using Cons.prems(2) by simp
    then have "sources fs1 (GetM3UFileByIndex idx @ ''.new'') = Some c"
      using read_source_frame(3) [OF r] assms(3) by (simp add: with_copy_def)
    moreover have "sources fs2 (GetM3UFileByIndex idx @ ''.new'') = sources fs1 (GetM3UFileByIndex idx @ ''.new'')"
    proof -
      have "GetM3UFileByIndex idx @ ''.new'' \<notin> (\<lambda>idx. GetM3UFileByIndex idx @ ''.new'') ` set idxs"
        using False by (simp only: image_iff file_names(1)) blast
      with read_sources_frame [OF rs] show ?thesis by blast
    qed
    ultimately show ?thesis by (simp add: fs')
  qed
qed simp

lemma apply_other:
  "idx \<notin> set idxs \<Longrightarrow> applyNewRemoteFiles rn idxs src (GetM3UFileByIndex idx) = src (GetM3UFileByIndex idx)"
  by (induction idxs arbitrary: src) (auto simp: Let_def file_names split: option.split)

lemma apply_new:
  "distinct idxs \<Longrightarrow> idx \<in> set idxs \<Longrightarrow> src (GetM3UFileByIndex idx @ ''.new'') = Some c \<Longrightarrow> rn idx
    \<Longrightarrow> applyNewRemoteFiles rn idxs src (GetM3UFileByIndex idx) = Some c"
proof (induction idxs arbitrary: src)
  case (Cons i idxs)
  show ?case
  proof (cases "i = idx")
    case True
    with Cons.prems show ?thesis by (simp add: Let_def apply_other)
  next
    case False
    have ne: "GetM3UFileByIndex idx @ ''.new'' \<noteq> GetM3UFileByIndex i" by (metis file_names(2))
    show ?thesis
    proof (cases "src (GetM3UFileByIndex i @ ''.new'')")
      case None
      with Cons False show ?thesis by (simp add: Let_def)
    next
      case (Some b)
      let ?src = "if rn i then src(GetM3UFileByIndex i @ ''.new'' := None, GetM3UFileByIndex i \<mapsto> b) else src"
      have "?src (GetM3UFileByIndex idx @ ''.new'') = Some c"
        using Cons.prems(3) False ne by (simp add: file_names(1,3))
      with Cons.IH [of ?src] Cons.prems False Some show ?thesis by (simp add: Let_def)
    qed
  qed
qed simp

lemma Run_copies:
  assumes "Run U fs = Ok (r, p, fs')" "\<not> criticalErrorOccurred p" "\<not> cancelled (u_end U)"
    and "distinct (u_indexes U)" "idx \<in> set (u_indexes U)" "rename_source_ok (u_end U) idx"
    and "\<And>cp. snd (download_source (pe_environ (u_env U)) idx ((u_source U idx)\<lparr>copy := cp\<rparr>)) = Some c"
  shows "sources fs' (GetM3UFileByIndex idx) = Some c"
proof -
  obtain ss fs2 q where w: "Wait (u_end U) (u_indexes U) (u_tmp U) q fs2 = (r, p, fs')"
      "u_read U (u_start U fs) = (ss, fs2)"
    by (rule Run_cases [OF assms(1)]) (rule that)
  have "sources fs2 (GetM3UFileByIndex idx @ ''.new'') = Some c"
    by (rule read_sources_new [OF assms(4,5,7) w(2) [unfolded u_read_def]])
  moreover have "\<not> criticalErrorOccurred q"
    using w(1) assms(2,3) by (auto simp: Wait_def Let_def split: if_splits)
  then have "sources fs' = applyNewRemoteFiles (rename_source_ok (u_end U)) (u_indexes U) (sources fs2)"
    using w(1) assms(3) by (auto simp: Wait_def Let_def)
  ultimately show ?thesis using apply_new [OF assms(4,5)] assms(6) by simp
qed

text \<open>A download that breaks off after its first line replaces the copy of the source: the error
  of the body is only logged, and at the end of the update the truncated text takes the place of
  the complete copy, which is what the next failed download falls back on.\<close>

theorem broken_download_replaces_copy:
  assumes "Run U fs = Ok (r, p, fs')" "\<not> criticalErrorOccurred p" "\<not> cancelled (u_end U)"
    and "distinct (u_indexes U)" "idx \<in> set (u_indexes U)" "rename_source_ok (u_end U) idx"
    and "Getenv (pe_environ (u_env U)) (''M3U_URL_'' @ idx) \<noteq> []"
    and "\<not> HasPrefix (Getenv (pe_environ (u_env U)) (''M3U_URL_'' @ idx)) ''file://''"
    and "mkdir_ok (u_source U idx)" "create_tmp_ok (u_source U idx)" "got (u_source U idx) = Got 200 b"
    and "read_err b = Some e" "HasPrefix (received b) ''#EXTM3U''" "snd (scan_tokens 1048576 (received b)) = None"
  shows "sources fs' (GetM3UFileByIndex idx) = Some (received b)"
proof (rule Run_copies [OF assms(1-6)])
  show "snd (download_source (pe_environ (u_env U)) idx ((u_source U idx)\<lparr>copy := cp\<rparr>)) = Some (received b)" for cp
    using broken_download_kept [of "pe_environ (u_env U)" idx "(u_source U idx)\<lparr>copy := cp\<rparr>" b e] assms(7-14)
    by simp
qed

definition broken_body :: body where
  "broken_body = \<lparr>received = ''#EXTM3U'' @ [newline] @ ''#EXT'', read_err = Some (Errorf ''unexpected EOF'')\<rparr>"

definition one_source :: parse_env where
  "one_source = plain_env\<lparr>pe_environ := [(''M3U_URL_1'', ''http://a'')]\<rparr>"

definition broken_update :: update_env where
  "broken_update = sample_update\<lparr>u_env := one_source, u_source := \<lambda>_. sample_source (Got 200 broken_body)\<rparr>"

theorem broken_download_replaces_copy_witness:
  "\<exists>r p fs'. Run broken_update old_fs = Ok (r, p, fs') \<and> sources fs' ''1.m3u'' = Some (received broken_body)"
proof -
  let ?U = broken_update
  obtain p fs' where run: "Run ?U old_fs = Ok (None, p, fs')" "\<not> criticalErrorOccurred p"
  proof (rule Run_not_critical)
    show "smooth_sorting ?U" "smooth_out ?U"
      using sample_update_smooth(1,2) by (simp_all add: smooth_sorting_def smooth_out_def broken_update_def)
  qed (simp add: broken_update_def sample_update_def sample_end_def)
  have "sources fs' (GetM3UFileByIndex ''1'') = Some (received broken_body)"
    by (rule broken_download_replaces_copy [OF run])
      (simp_all add: broken_update_def sample_update_def sample_end_def u_indexes_def GetM3UIndexes_def indexed_def
        one_source_def plain_env_def HasPrefix_def TrimPrefix_def Getenv_def LookupEnv_def sample_source_def
        broken_body_def scan_tokens_def raw_lines_def newline_def)
  with run(1) show ?thesis by (auto simp: GetM3UFileByIndex_def)
qed

end
