(* ===== verification/M3UHandler.thy ===== *)
theory M3UHandler
  imports ResponseWriter
begin

text \<open>
  \<^verbatim>\<open>handlers/m3u_http.go\<close>: serving the merged playlist to those who know a user name and a password.

  Decoding the JSON of the variable \<^verbatim>\<open>CREDENTIALS\<close> and the full Unicode \<open>strings.ToLower\<close> of user
  names are arguments (\<open>decode\<close>, \<open>lower\<close>).  A point in time is a number of nanoseconds, the zero
  time is \<open>None\<close>.  A map is the list of its entries.
\<close>

record Credential =
  Username :: string
  Password :: string
  Expiration :: "int option"

record M3UHTTPHandler =
  processedPath :: string
  credentials :: "(string \<times> Credential) list"

definition loadCredentials ::
    "(string \<Rightarrow> string) \<Rightarrow> (string \<Rightarrow> Credential list option) \<Rightarrow> environ \<Rightarrow> M3UHTTPHandler \<Rightarrow> M3UHTTPHandler" where
  "loadCredentials lower decode env h =
     (let credsStr = Getenv env ''CREDENTIALS'' in
      if credsStr = [] \<or> ToLower credsStr = ''none'' then h
      else case decode credsStr of
        None \<Rightarrow> h
      | Some creds \<Rightarrow>
          h\<lparr>credentials := foldl (\<lambda>m cred. AList.update (lower (Username cred)) cred m) (credentials h) creds\<rparr>)"

definition NewM3UHTTPHandler ::
    "(string \<Rightarrow> string) \<Rightarrow> (string \<Rightarrow> Credential list option) \<Rightarrow> environ \<Rightarrow> string \<Rightarrow> M3UHTTPHandler" where
  "NewM3UHTTPHandler lower decode env path =
     loadCredentials lower decode env \<lparr>processedPath = path, credentials = []\<rparr>"

definition SetProcessedPath :: "string \<Rightarrow> M3UHTTPHandler \<Rightarrow> M3UHTTPHandler" where
  "SetProcessedPath path h = h\<lparr>processedPath := path\<rparr>"

text \<open>Of a request: its method, the query parameters, empty when missing, and the time it arrives.\<close>

record m3u_request =
  q_method :: string
  q_username :: string
  q_password :: string
  q_now :: int

definition handleAuth :: "(string \<Rightarrow> string) \<Rightarrow> m3u_request \<Rightarrow> M3UHTTPHandler \<Rightarrow> bool" where
  "handleAuth lower r h =
     (if length (credentials h) = 0 then True
      else let user = q_username r; pass = q_password r in
        if user = [] \<or> pass = [] then False
        else case map_of (credentials h) (lower user) of
          None \<Rightarrow> False
        | Some cred \<Rightarrow>
            if pass \<noteq> Password cred then False
            else \<not> (case Expiration cred of None \<Rightarrow> False | Some e \<Rightarrow> q_now r > e))"

text \<open>The header that lets any web page read the answer is set before anything else.\<close>

definition allow_origin :: "Writer \<Rightarrow> Writer" where
  "allow_origin w = w\<lparr>wHeader := header_Set (wHeader w) ''Access-Control-Allow-Origin'' ''*''\<rparr>"

definition ServeHTTP :: "(string \<Rightarrow> string) \<Rightarrow> file_server \<Rightarrow> m3u_request \<Rightarrow> M3UHTTPHandler \<Rightarrow> Writer \<Rightarrow> Writer" where
  "ServeHTTP lower files r h w =
     (let w1 = allow_origin w in
      if \<not> handleAuth lower r h then http_Error ''Forbidden'' 403 w1
      else if processedPath h = [] then http_Error ''No processed M3U found.'' 404 w1
      else http_ServeFile files (q_method r) (processedPath h) w1)"

section \<open>Who gets the playlist\<close>

lemma handleAuth_SetProcessedPath [simp]: "handleAuth lower r (SetProcessedPath path h) = handleAuth lower r h"
  by (simp add: handleAuth_def SetProcessedPath_def)

text \<open>The credential that counts for a user: of several with the same name in lower case, the last.\<close>

definition credential_of :: "(string \<Rightarrow> string) \<Rightarrow> Credential list \<Rightarrow> string \<Rightarrow> Credential option" where
  "credential_of lower creds user = find (\<lambda>c. lower (Username c) = lower user) (rev creds)"

lemma map_of_loaded:
  "map_of (foldl (\<lambda>m c. AList.update (lower (Username c)) c m) [] creds) (lower user) = credential_of lower creds user"
  by (induction creds rule: rev_induct) (auto simp: credential_of_def update_conv)

lemma loaded_empty: "foldl (\<lambda>m c. AList.update (lower (Username c)) c m) [] creds = [] \<longleftrightarrow> creds = []"
proof (cases creds rule: rev_cases)
  case (snoc cs c)
  have "map_of (AList.update (lower (Username c)) c m) (lower (Username c)) \<noteq> None" for m
    by (simp add: update_conv)
  then have "AList.update (lower (Username c)) c m \<noteq> []" for m by fastforce
  with snoc show ?thesis by simp
qed simp

lemma loaded_credentials:
  assumes "Getenv env ''CREDENTIALS'' = str" "str \<noteq> []" "ToLower str \<noteq> ''none''" "decode str = Some creds"
  shows "credentials (NewM3UHTTPHandler lower decode env path)
    = foldl (\<lambda>m c. AList.update (lower (Username c)) c m) [] creds"
  using assms by (simp add: NewM3UHTTPHandler_def loadCredentials_def)

text \<open>C17. With a non-empty list of credentials configured, the playlist is refused to everybody except
  a request whose user name is, but for case, that of a credential (the last one of that name),
  with exactly its password, both non-empty, and not after its expiration; that request gets the
  playlist when there is one.\<close>

theorem playlist_needs_valid_credential:
  assumes "Getenv env ''CREDENTIALS'' = str" "str \<noteq> []" "ToLower str \<noteq> ''none''" "decode str = Some creds" "creds \<noteq> []"
  shows "ServeHTTP lower files r (SetProcessedPath path (NewM3UHTTPHandler lower decode env p0)) w =
    (case credential_of lower creds (q_username r) of
       Some c \<Rightarrow>
         if q_username r \<noteq> [] \<and> q_password r \<noteq> [] \<and> q_password r = Password c
            \<and> (\<forall>e. Expiration c = Some e \<longrightarrow> q_now r \<le> e)
         then (if path = [] then http_Error ''No processed M3U found.'' 404 (allow_origin w)
               else http_ServeFile files (q_method r) path (allow_origin w))
         else http_Error ''Forbidden'' 403 (allow_origin w)
     | None \<Rightarrow> http_Error ''Forbidden'' 403 (allow_origin w))"
proof -
  let ?h = "SetProcessedPath path (NewM3UHTTPHandler lower decode env p0)"
  have c: "credentials ?h = foldl (\<lambda>m c. AList.update (lower (Username c)) c m) [] creds"
    using loaded_credentials [where decode = decode, OF assms(1-4)] by (simp add: SetProcessedPath_def)
  then have "length (credentials ?h) \<noteq> 0" using assms(5) by (simp add: loaded_empty)
  moreover have "map_of (credentials ?h) (lower (q_username r)) = credential_of lower creds (q_username r)"
    unfolding c by (rule map_of_loaded)
  moreover have "processedPath ?h = path" by (simp add: SetProcessedPath_def)
  ultimately show ?thesis
    by (auto simp: ServeHTTP_def handleAuth_def Let_def split: option.split)
qed

definition sample_creds :: "Credential list" where
  "sample_creds = [\<lparr>Username = ''Ann'', Password = ''pw'', Expiration = Some 100\<rparr>]"

theorem playlist_needs_valid_credential_witness:
  "let h = SetProcessedPath ''d/x.m3u'' (NewM3UHTTPHandler ToLower (\<lambda>_. Some sample_creds) [(''CREDENTIALS'', ''[]'')] []);
       files = (\<lambda>n. if n = ''d/x.m3u'' then Some ([], ''#EXTM3U'') else None);
       w = \<lparr>wHeader = [], wStatus = [], wBody = []\<rparr> in
   wBody (ServeHTTP ToLower files \<lparr>q_method = ''GET'', q_username = ''ann'', q_password = ''pw'', q_now = 100\<rparr> h w) = ''#EXTM3U''
   \<and> wStatus (ServeHTTP ToLower files \<lparr>q_method = ''GET'', q_username = ''ann'', q_password = ''pw'', q_now = 101\<rparr> h w) = [403]"
proof -
  have e: "Getenv [(''CREDENTIALS'', ''[]'')] ''CREDENTIALS'' = ''[]''" "ToLower ''[]'' \<noteq> ''none''"
    by (simp_all add: Getenv_def LookupEnv_def lower_char_def)
  have c: "credential_of ToLower sample_creds ''ann'' = Some \<lparr>Username = ''Ann'', Password = ''pw'', Expiration = Some 100\<rparr>"
    by (simp add: credential_of_def sample_creds_def lower_char_def char_of_def bit_iff_odd)
  show ?thesis
    unfolding Let_def
    using playlist_needs_valid_credential [where decode = "\<lambda>_. Some sample_creds", OF e(1) _ e(2) refl]
    by (simp add: c sample_creds_def [THEN arg_cong, of "\<lambda>cs. cs = []"] http_ServeFile_file allow_origin_def)
qed

text \<open>Credentials that cannot be decoded are no credentials: a mistake in the variable does not
  lock anybody out, it lets everybody in, with or without a password.\<close>

theorem malformed_credentials_admit_everyone:
  assumes "decode (Getenv env ''CREDENTIALS'') = None"
  shows "handleAuth lower r (NewM3UHTTPHandler lower decode env path)"
  using assms by (simp add: handleAuth_def NewM3UHTTPHandler_def loadCredentials_def Let_def)

theorem malformed_credentials_admit_everyone_witness:
  "handleAuth ToLower \<lparr>q_method = ''GET'', q_username = [], q_password = [], q_now = 0\<rparr>
     (NewM3UHTTPHandler ToLower (\<lambda>_. None) [(''CREDENTIALS'', ''[{'')] ''d/x.m3u'')"
  by (rule malformed_credentials_admit_everyone) simp

end
