(* ===== verification/Updater.thy ===== *)
theory Updater
  imports Processor M3UHandler
begin

text \<open>
  \<^verbatim>\<open>updater/updater.go\<close>: starting up (clearing or adopting the playlist left by the last run, setting
  up the schedule) and the update job, which runs one at a time and hands its result to the
  playlist handler.  The schedule parser of the cron library is an argument; that a job is started
  in the background is part of the result.
\<close>

definition env_or :: "environ \<Rightarrow> string \<Rightarrow> string \<Rightarrow> string" where
  "env_or env key dflt = (let v = Getenv env key in if TrimSpace v = [] then dflt else v)"

text \<open>\<open>sourceproc.ClearProcessedM3Us\<close>; an error of the removal is only logged.\<close>

definition ClearProcessedM3Us :: "bool \<Rightarrow> proc_fs \<Rightarrow> proc_fs" where
  "ClearProcessedM3Us ok fs = (if ok then fs\<lparr>processed := []\<rparr> else fs)"

record boot =
  b_handler :: M3UHTTPHandler
  b_fs :: proc_fs
  b_update_started :: bool

definition Initialize ::
    "(string \<Rightarrow> bool) \<Rightarrow> environ \<Rightarrow> bool \<Rightarrow> proc_fs \<Rightarrow> M3UHTTPHandler \<Rightarrow> (go_error + boot) outcome" where
  "Initialize schedule_ok env dir_ok fs h =
     bind_outcome
       (if env_or env ''CLEAR_ON_BOOT'' ''false'' = ''true'' then Ok (h, ClearProcessedM3Us dir_ok fs)
        else bind_outcome (GetLatestProcessedM3UPath dir_ok (processed fs)) (\<lambda>r.
          Ok (case r of Inl e \<Rightarrow> h | Inr latestM3u \<Rightarrow> SetProcessedPath latestM3u h, fs)))
       (\<lambda>(h1, fs1).
          if \<not> schedule_ok (env_or env ''SYNC_CRON'' ''0 0 * * *'') then Ok (Inl (Errorf ''cron''))
          else Ok (Inr \<lparr>b_handler = h1, b_fs = fs1,
                        b_update_started = (env_or env ''SYNC_ON_BOOT'' ''true'' = ''true'')\<rparr>))"

text \<open>
  \<open>UpdateSources\<close>: the processor is created, and with it its temporary file, before the context
  and the variable \<^verbatim>\<open>BASE_URL\<close> are looked at.
\<close>

definition UpdateSources ::
    "update_env \<Rightarrow> bool \<Rightarrow> string \<Rightarrow> bool \<Rightarrow> proc_fs \<Rightarrow> M3UHTTPHandler \<Rightarrow> (M3UHTTPHandler \<times> proc_fs) outcome" where
  "UpdateSources U ctx_done dir dir_ok fs h =
     (let created = NewProcessor (pe_environ (u_env U)) (u_now U) (u_created U) (u_shards U) fs;
          fs1 = (case created of None \<Rightarrow> fs | Some (p, fs1) \<Rightarrow> fs1) in
      if ctx_done then Ok (h, fs1)
      else if LookupEnv (pe_environ (u_env U)) ''BASE_URL'' = None then Ok (h, fs1)
      else bind_outcome (Run U fs) (\<lambda>(err, p, fs2).
        case err of
          Some e \<Rightarrow> Ok (h, fs2)
        | None \<Rightarrow> bind_outcome (GetResultPath dir_ok dir p fs2) (\<lambda>path. Ok (SetProcessedPath path h, fs2))))"

section \<open>A temporary file left behind\<close>

text \<open>Any name that ends in \<^verbatim>\<open>.tmp\<close> makes the index point behind the end of the filtered list.\<close>

lemma latest_panics:
  assumes "(n, e) \<in> set d" "HasSuffix n ''.tmp''"
  shows "GetLatestProcessedM3UPath True d = Panic ''index out of range''"
proof -
  let ?valid = "filter (\<lambda>f. \<not> HasSuffix (fst f) ''.tmp'') (sort_key fst d)"
  have "(n, e) \<in> set (sort_key fst d)" using assms(1) by simp
  then have "length ?valid < length (sort_key fst d)"
    using assms(2) by (intro length_filter_less [of "(n, e)"]) simp_all
  then have "\<not> length (sort_key fst d) - 1 < length ?valid" by linarith
  moreover have "sort_key fst d \<noteq> []" using assms(1) by (metis empty_iff set_empty set_sort)
  ultimately show ?thesis
    unfolding GetLatestProcessedM3UPath_def ReadDir_def Let_def by simp
qed

text \<open>C38. An update that stops early, because \<^verbatim>\<open>BASE_URL\<close> is not set or the program is shutting down,
  leaves its temporary file behind, and the next start of the program panics on it: the list of
  finished playlists is indexed with the number of all files.\<close>

theorem aborted_update_breaks_next_boot:
  assumes "u_created U" "ctx_done \<or> LookupEnv (pe_environ (u_env U)) ''BASE_URL'' = None"
    and "env_or env ''CLEAR_ON_BOOT'' ''false'' \<noteq> ''true''"
  shows "\<exists>fs'. UpdateSources U ctx_done dir dir_ok fs h = Ok (h, fs')
    \<and> Initialize schedule_ok env True fs' h' = Panic ''index out of range''"
proof -
  have "UpdateSources U ctx_done dir dir_ok fs h = Ok (h, u_start U fs)"
    using assms(1,2) by (auto simp: UpdateSources_def NewProcessor_created u_start_def Let_def)
  moreover have "(u_tmp U, File []) \<in> set (processed (u_start U fs))"
    by (rule map_of_SomeD) (simp add: u_start_def update_conv)
  moreover have "HasSuffix (u_tmp U) ''.tmp''"
    by (simp add: u_tmp_def HasSuffix_def)
  ultimately show ?thesis
    using assms(3) latest_panics by (auto simp: Initialize_def)
qed

theorem aborted_update_breaks_next_boot_witness:
  "\<exists>fs'. UpdateSources sample_update False ''data/processed'' True old_fs \<lparr>processedPath = [], credentials = []\<rparr>
      = Ok (\<lparr>processedPath = [], credentials = []\<rparr>, fs')
    \<and> Initialize (\<lambda>_. True) [] True fs' \<lparr>processedPath = [], credentials = []\<rparr> = Panic ''index out of range''"
  by (rule aborted_update_breaks_next_boot)
    (simp_all add: sample_update_def plain_env_def LookupEnv_def env_or_def Getenv_def)

section \<open>The path that is served\<close>

text \<open>What a playlist of channels reads, and an update job without faults in full.\<close>

definition playlist_text :: "update_env \<Rightarrow> StreamInfo list \<Rightarrow> string" where
  "playlist_text U out = ''#EXTM3U'' @ [newline] @ concat (map (formatStreamEntry (u_env U) (u_base U)) out)"

lemma UpdateSources_smooth:
  assumes "smooth_sorting U" "smooth_out U" "smooth_end U" "LookupEnv (pe_environ (u_env U)) ''BASE_URL'' \<noteq> None"
    and "distinct (map fst (processed fs))" and chans: "chans = fst (u_read U (u_start U fs))"
  obtains fs' out ps where
    "UpdateSources U False dir dir_ok fs h = Ok (SetProcessedPath (dir @ ''/'' @ u_now U @ ''.m3u'') h, fs')"
    "{(n, e) \<in> set (processed fs'). e \<noteq> Dir} = {(u_now U @ ''.m3u'', File (playlist_text U out))}"
    "map_of (processed fs') (u_now U @ ''.m3u'') = Some (File (playlist_text U out))"
    "mset (map snd ps) = mset out" "distinct (map fst ps)" "set (map fst ps) = key_of (u_hash U) ` set chans"
    "\<forall>(k, v) \<in> set ps. (\<exists>s \<in> set chans. key_of (u_hash U) s = k \<and> Title v = json_string (Title s)) \<and> URLs v = None"
proof -
  obtain fs2 where read: "u_read U (u_start U fs) = (chans, fs2)" using chans by (metis prod.collapse)
  obtain q out ps where r: "Run U fs = Ok (Wait (u_end U) (u_indexes U) (u_tmp U) q fs2)" "\<not> criticalErrorOccurred q"
      "p_file q = Some (u_tmp U)" "written q = playlist_text U out"
    and ps: "mset (map snd ps) = mset out" "distinct (map fst ps)" "set (map fst ps) = key_of (u_hash U) ` set chans"
      "\<forall>(k, v) \<in> set ps. (\<exists>s \<in> set chans. key_of (u_hash U) s = k \<and> Title v = json_string (Title s)) \<and> URLs v = None"
    using Run_smooth [OF assms(1,2) read] unfolding playlist_text_def by blast
  have "processed fs2 = processed (u_start U fs)"
    using read_sources_frame read unfolding u_read_def by blast
  then have "distinct (map fst (processed fs2))" by (simp add: u_start_def distinct_update assms(5))
  from Wait_publishes [OF assms(3) r(2) this] obtain fs' where
      w: "Wait (u_end U) (u_indexes U) (u_tmp U) q fs2 = (None, q, fs')"
         "{(n, e) \<in> set (processed fs'). e \<noteq> Dir} = {(u_now U @ ''.m3u'', File (playlist_text U out))}"
         "map_of (processed fs') (u_now U @ ''.m3u'') = Some (File (playlist_text U out))"
    unfolding r(4) by blast
  have "UpdateSources U False dir dir_ok fs h = Ok (SetProcessedPath (dir @ ''/'' @ u_now U @ ''.m3u'') h, fs')"
    using assms(4) r(1,3) w(1) by (auto simp: UpdateSources_def GetResultPath_def TrimSuffix_tmp Let_def)
  with that w(2,3) ps show thesis by blast
qed

text \<open>After an update without faults the handler serves exactly the playlist the update wrote: its
  path leads to the one file left in the directory of playlists.\<close>

theorem update_result_is_served:
  assumes "smooth_sorting U" "smooth_out U" "smooth_end U" "LookupEnv (pe_environ (u_env U)) ''BASE_URL'' \<noteq> None"
    and "distinct (map fst (processed fs))"
  shows "\<exists>h' fs' content. UpdateSources U False dir dir_ok fs h = Ok (h', fs')
    \<and> processedPath h' = dir @ ''/'' @ u_now U @ ''.m3u'' \<and> credentials h' = credentials h
    \<and> {(n, e) \<in> set (processed fs'). e \<noteq> Dir} = {(u_now U @ ''.m3u'', File (''#EXTM3U'' @ [newline] @ content))}"
proof -
  obtain fs' out ps where "UpdateSources U False dir dir_ok fs h = Ok (SetProcessedPath (dir @ ''/'' @ u_now U @ ''.m3u'') h, fs')"
    "{(n, e) \<in> set (processed fs'). e \<noteq> Dir} = {(u_now U @ ''.m3u'', File (playlist_text U out))}"
    by (rule UpdateSources_smooth [OF assms refl])
  then show ?thesis by (auto simp: SetProcessedPath_def playlist_text_def)
qed

definition served_update :: update_env where
  "served_update = sample_update\<lparr>u_env := plain_env\<lparr>pe_environ := [(''BASE_URL'', ''http://me'')]\<rparr>\<rparr>"

theorem update_result_is_served_witness:
  "\<exists>h' fs' content. UpdateSources served_update False ''data/processed'' True old_fs \<lparr>processedPath = [], credentials = []\<rparr> = Ok (h', fs')
    \<and> processedPath h' = ''data/processed'' @ ''/'' @ u_now served_update @ ''.m3u''
    \<and> credentials h' = credentials \<lparr>processedPath = [], credentials = []\<rparr>
    \<and> {(n, e) \<in> set (processed fs'). e \<noteq> Dir} = {(u_now served_update @ ''.m3u'', File (''#EXTM3U'' @ [newline] @ content))}"
proof (rule update_result_is_served)
  show "smooth_sorting served_update" "smooth_out served_update" "smooth_end served_update"
    using sample_update_smooth by (simp_all add: smooth_sorting_def smooth_out_def smooth_end_def served_update_def)
qed (simp_all add: served_update_def LookupEnv_def old_fs_def)

lemma latest_of:
  "sort_key fst d = all \<Longrightarrow> filter (\<lambda>f. \<not> HasSuffix (fst f) ''.tmp'') all = all \<Longrightarrow> all \<noteq> []
    \<Longrightarrow> GetLatestProcessedM3UPath True d = Ok (Inr (fst (all ! (length all - 1))))"
  by (cases all) (simp_all add: GetLatestProcessedM3UPath_def ReadDir_def Let_def)

text \<open>A start that adopts the playlist of the last run adopts only its name: the path set in the
  handler lacks the directory, so it never is the path of the file that \<open>UpdateSources\<close> set
  before, and requests look for the file in the working directory.\<close>

theorem adopted_path_lacks_directory:
  assumes "\<forall>(n, e) \<in> set (processed fs). \<not> HasSuffix n ''.tmp'' \<and> CHR ''/'' \<notin> set n" "processed fs \<noteq> []"
    and "env_or env ''CLEAR_ON_BOOT'' ''false'' \<noteq> ''true''" "schedule_ok (env_or env ''SYNC_CRON'' ''0 0 * * *'')"
  shows "\<exists>b. Initialize schedule_ok env True fs h = Ok (Inr b)
    \<and> processedPath (b_handler b) \<in> fst ` set (processed fs)
    \<and> (\<forall>dir n. processedPath (b_handler b) \<noteq> dir @ ''/'' @ n)"
proof -
  let ?all = "sort_key fst (processed fs)"
  have "filter (\<lambda>f. \<not> HasSuffix (fst f) ''.tmp'') ?all = ?all"
    using assms(1) by (intro filter_True) auto
  moreover have ne: "?all \<noteq> []" using assms(2) by (metis set_empty set_sort)
  ultimately have l: "GetLatestProcessedM3UPath True (processed fs) = Ok (Inr (fst (?all ! (length ?all - 1))))"
    using latest_of [OF refl] by blast
  have "?all ! (length ?all - 1) \<in> set ?all" using ne by (metis last_conv_nth last_in_set)
  then have m: "?all ! (length ?all - 1) \<in> set (processed fs)" by simp
  then have "CHR ''/'' \<notin> set (fst (?all ! (length ?all - 1)))" using assms(1) by (auto simp: split_beta)
  then have "fst (?all ! (length ?all - 1)) \<noteq> dir @ ''/'' @ n" for dir n by auto
  with l m assms(3,4) show ?thesis by (auto simp: Initialize_def SetProcessedPath_def)
qed

theorem adopted_path_lacks_directory_witness:
  "\<exists>b. Initialize (\<lambda>_. True) [] True old_fs \<lparr>processedPath = [], credentials = []\<rparr> = Ok (Inr b)
    \<and> processedPath (b_handler b) \<in> fst ` set (processed old_fs)
    \<and> (\<forall>dir n. processedPath (b_handler b) \<noteq> dir @ ''/'' @ n)"
  by (rule adopted_path_lacks_directory)
    (simp_all add: old_fs_def HasSuffix_def env_or_def Getenv_def LookupEnv_def)

end
