(* ===== verification/Server.thy ===== *)
theory Server
  imports StreamHTTP Updater
begin

text \<open>
  \<^verbatim>\<open>main.go\<close>: starting up, and the four routes of the server with the handlers behind them.

  The routes are those of \<open>http.ServeMux\<close>: a request for a path that is not in its shortest form is
  redirected to it, \<^verbatim>\<open>/playlist.m3u\<close> matches only itself, the other three patterns match every path
  below them, and without the final slash they redirect to themselves.  A request carries its path
  twice, as the client escaped it and decoded (\<open>r.URL.EscapedPath()\<close> and \<open>r.URL.Path\<close>).
\<close>

section \<open>Paths\<close>

text \<open>\<open>url.PathUnescape\<close>, and the segments of a pattern, which are compared unescaped.\<close>

definition hex_digit :: "char \<Rightarrow> nat option" where
  "hex_digit c =
     (let n = of_char c in
      if 48 \<le> n \<and> n \<le> 57 then Some (n - 48)
      else if 65 \<le> n \<and> n \<le> 70 then Some (n - 55)
      else if 97 \<le> n \<and> n \<le> 102 then Some (n - 87) else None)"

fun PathUnescape :: "string \<Rightarrow> string option" where
  "PathUnescape [] = Some []"
| "PathUnescape (c # cs) =
     (if c = CHR ''%'' then
        (case cs of
           a # b # r \<Rightarrow> (case (hex_digit a, hex_digit b) of
              (Some x, Some y) \<Rightarrow> map_option ((#) (char_of (16 * x + y))) (PathUnescape r)
            | _ \<Rightarrow> None)
         | _ \<Rightarrow> None)
      else map_option ((#) c) (PathUnescape cs))"

definition unescape_segment :: "string \<Rightarrow> string" where
  "unescape_segment seg = (case PathUnescape seg of None \<Rightarrow> seg | Some s \<Rightarrow> s)"

text \<open>\<open>path.Clean\<close> of a path that starts with a slash, and \<open>cleanPath\<close>, which keeps a final slash.\<close>

definition clean_step :: "string list \<Rightarrow> string \<Rightarrow> string list" where
  "clean_step done seg = (if seg = [] \<or> seg = ''.'' then done else if seg = ''..'' then butlast done else done @ [seg])"

definition rooted :: "string list \<Rightarrow> string" where
  "rooted segs = (if segs = [] then ''/'' else concat (map ((#) (CHR ''/'')) segs))"

definition path_Clean_rooted :: "string \<Rightarrow> string" where
  "path_Clean_rooted p = rooted (foldl clean_step [] (SplitChar (CHR ''/'') p))"

definition cleanPath :: "string \<Rightarrow> string" where
  "cleanPath p0 =
     (if p0 = [] then ''/''
      else let p = (if hd p0 = CHR ''/'' then p0 else CHR ''/'' # p0); np = path_Clean_rooted p
           in if last p = CHR ''/'' \<and> np \<noteq> ''/'' then np @ ''/'' else np)"

section \<open>Routes\<close>

datatype route = PlaylistRoute | StreamRoute | PassthroughRoute | SegmentRoute

datatype routing = Moved string | NotFound | Handle route

definition tree_pattern :: "string \<Rightarrow> route option" where
  "tree_pattern seg = (if seg = ''p'' then Some StreamRoute else if seg = ''a'' then Some PassthroughRoute
     else if seg = ''segment'' then Some SegmentRoute else None)"

text \<open>The match of a path that starts with a slash: its first segment, and whether anything follows.\<close>

definition match_path :: "string \<Rightarrow> route option" where
  "match_path path =
     (let seg = unescape_segment (takeWhile (\<lambda>c. c \<noteq> CHR ''/'') (tl path));
          rest = dropWhile (\<lambda>c. c \<noteq> CHR ''/'') (tl path)
      in if tl path = [] then None
         else if rest = [] then (if seg = ''playlist.m3u'' then Some PlaylistRoute else None)
         else tree_pattern seg)"

text \<open>
  \<open>findHandler\<close> with \<open>matchOrRedirect\<close>.  Only requests other than \<^verbatim>\<open>CONNECT\<close> are cleaned.
\<close>

definition missing_slash :: "string \<Rightarrow> bool" where
  "missing_slash path \<longleftrightarrow> match_path path = None \<and> path \<noteq> [] \<and> last path \<noteq> CHR ''/''
     \<and> CHR ''/'' \<notin> set (tl path) \<and> match_path (path @ ''/'') \<noteq> None"

definition findHandler :: "string \<Rightarrow> string \<Rightarrow> string \<Rightarrow> routing" where
  "findHandler mthd escapedPath urlPath =
     (let path = (if mthd = ''CONNECT'' then escapedPath else cleanPath escapedPath) in
      if missing_slash path then Moved (cleanPath urlPath @ ''/'')
      else if path \<noteq> escapedPath then Moved path
      else case match_path path of None \<Rightarrow> NotFound | Some r \<Rightarrow> Handle r)"

section \<open>The server\<close>

text \<open>
  The handlers' surroundings: of the playlist handler, the lower-case function and the files; of
  the proxy, its server; of the segment handler, the text of an error and what a GET of a URL
  brings; the server behind the passthrough handler.
\<close>

record web_env =
  we_lower :: "string \<Rightarrow> string"
  we_files :: file_server
  we_server :: server
  we_show_error :: "go_error \<Rightarrow> string"
  we_fetch :: "string \<Rightarrow> go_error + (Response \<times> copy_tick list)"
  we_upstream :: upstream

text \<open>
  A request, with what its handling meets: a fresh UUID, the time, the turns of a stream, the answer
  to the write of an error message.
\<close>

record web_request =
  wr_method :: string
  wr_escaped :: string
  wr_path :: string
  wr_username :: string
  wr_password :: string
  wr_header :: header
  wr_body :: string
  wr_fresh :: string
  wr_now :: int
  wr_visits :: "stream_visit list"
  wr_answer :: "nat \<times> go_error option"

record web_state =
  ws_m3u :: M3UHTTPHandler
  ws_http :: http_state

datatype reply = Redirect string | Reply Writer | Streaming Writer

definition writer_of :: "StreamClient \<Rightarrow> Writer" where
  "writer_of sc = (case respWriter sc of Some w \<Rightarrow> w | None \<Rightarrow> \<lparr>wHeader = [], wStatus = [], wBody = []\<rparr>)"

text \<open>The handlers of the four routes, each behind the middleware; \<open>None\<close> is one that never returns.\<close>

definition route_handler :: "web_env \<Rightarrow> web_request \<Rightarrow> web_state \<Rightarrow> route \<Rightarrow> ctx_values \<Rightarrow> Writer
    \<Rightarrow> (reply \<times> web_state) outcome option" where
  "route_handler W r s route ctx w =
     (case route of
        PlaylistRoute \<Rightarrow>
          Some (Ok (Reply (ServeHTTP (we_lower W) (we_files W)
            \<lparr>q_method = wr_method r, q_username = wr_username r, q_password = wr_password r, q_now = wr_now r\<rparr>
            (ws_m3u s) w), s))
      | StreamRoute \<Rightarrow>
          map_option (\<lambda>out. bind_outcome out (\<lambda>(fin, h).
              let w' = writer_of (hs_client h)
              in Ok (if fin = None then Streaming w' else Reply w', s\<lparr>ws_http := h\<rparr>)))
            (Stream_ServeHTTP (we_server W) \<lparr>Method = wr_method r, URLPath = Some (wr_path r)\<rparr> (wr_visits r) w (ws_http s))
      | PassthroughRoute \<Rightarrow>
          Some (bind_outcome (Passthrough_ServeHTTP (we_upstream W)
              \<lparr>pt_method = wr_method r, pt_path = wr_path r, pt_header = wr_header r, pt_body = wr_body r, pt_context = ctx\<rparr> w)
            (\<lambda>w'. Ok (Reply w', s)))
      | SegmentRoute \<Rightarrow>
          Some (bind_outcome (ServeSegmentHTTP (sv_seg (we_server W)) (we_show_error W) (we_fetch W) (wr_path r) (wr_answer r) w)
            (\<lambda>sc. Ok (Reply (writer_of sc), s))))"

definition serve :: "web_env \<Rightarrow> web_request \<Rightarrow> Writer \<Rightarrow> web_state \<Rightarrow> (reply \<times> web_state) outcome option" where
  "serve W r w s =
     (case findHandler (wr_method r) (wr_escaped r) (wr_path r) of
        Moved p \<Rightarrow> Some (Ok (Redirect p, s))
      | NotFound \<Rightarrow> Some (Ok (Reply (http_Error ''404 page not found'' 404 w), s))
      | Handle route \<Rightarrow> Middleware (wr_fresh r) (route_handler W r s route) (wr_header r) [] w)"

text \<open>
  \<open>main\<close> up to the server: the handlers are made, the updater is started with the playlist handler,
  and a time zone that cannot be loaded ends the program.
\<close>

datatype start = Fatal string | Serving M3UHTTPHandler proc_fs bool

definition main ::
    "(string \<Rightarrow> string) \<Rightarrow> (string \<Rightarrow> Credential list option) \<Rightarrow> (string \<Rightarrow> bool) \<Rightarrow> (string \<Rightarrow> bool)
      \<Rightarrow> environ \<Rightarrow> bool \<Rightarrow> proc_fs \<Rightarrow> start outcome" where
  "main lower decode schedule_ok zone_ok env dir_ok fs =
     bind_outcome (Initialize schedule_ok env dir_ok fs (NewM3UHTTPHandler lower decode env [])) (\<lambda>r.
       case r of
         Inl e \<Rightarrow> Ok (Fatal ''Error initializing updater'')
       | Inr b \<Rightarrow>
           let tz = Getenv env ''TZ'' in
           if tz \<noteq> [] \<and> \<not> zone_ok tz then Ok (Fatal ''error loading location'')
           else Ok (Serving (b_handler b) (b_fs b) (b_update_started b)))"

section \<open>Links are routed\<close>

lemma SplitChar_at: "SplitChar d (s @ d # t) = SplitChar d s @ SplitChar d t"
proof (induction s)
  case (Cons c s)
  obtain p ps where "SplitChar d s = p # ps" by (cases "SplitChar d s") simp_all
  with Cons show ?case by simp
qed simp

lemma SplitChar_free: "x \<in> set (SplitChar d s) \<Longrightarrow> d \<notin> set x"
  by (induction s arbitrary: x) (auto split: if_splits list.splits)

definition kept :: "string \<Rightarrow> bool" where
  "kept seg \<longleftrightarrow> seg \<noteq> [] \<and> seg \<noteq> ''.''"

lemma clean_no_parent:
  "''..'' \<notin> set segs \<Longrightarrow> foldl clean_step done segs = done @ filter kept segs"
  by (induction segs arbitrary: "done") (auto simp: clean_step_def kept_def)

text \<open>A path whose segments are all kept.\<close>

definition plain_segments :: "string list \<Rightarrow> bool" where
  "plain_segments segs \<longleftrightarrow> (\<forall>x \<in> set segs. kept x \<and> x \<noteq> ''..'' \<and> CHR ''/'' \<notin> set x)"

lemma SplitChar_rooted:
  assumes "plain_segments (x # xs)"
  shows "SplitChar (CHR ''/'') (rooted (x # xs)) = [] # x # xs"
  using assms
proof (induction xs arbitrary: x)
  case Nil
  then show ?case by (simp add: rooted_def plain_segments_def SplitChar_none)
next
  case (Cons y ys)
  have e: "rooted (x # y # ys) = CHR ''/'' # x @ rooted (y # ys)" by (simp add: rooted_def)
  have r: "rooted (y # ys) = CHR ''/'' # tl (rooted (y # ys))" by (simp add: rooted_def)
  have IH: "SplitChar (CHR ''/'') (rooted (y # ys)) = [] # y # ys"
    using Cons.prems by (intro Cons.IH) (simp add: plain_segments_def)
  then have "SplitChar (CHR ''/'') (tl (rooted (y # ys))) = y # ys" by (subst (asm) r) simp
  moreover have "CHR ''/'' \<notin> set x" using Cons.prems by (simp add: plain_segments_def)
  ultimately have "SplitChar (CHR ''/'') (x @ rooted (y # ys)) = x # y # ys"
    by (subst r) (simp add: SplitChar_append)
  then show ?case unfolding e by simp
qed

lemma last_rooted: "segs \<noteq> [] \<Longrightarrow> last segs \<noteq> [] \<Longrightarrow> last (rooted segs) = last (last segs)"
  by (induction segs rule: rev_induct) (simp_all add: rooted_def)

lemma clean_rooted:
  assumes "plain_segments (x # xs)"
  shows "cleanPath (rooted (x # xs)) = rooted (x # xs)"
proof -
  have k: "''..'' \<notin> set (x # xs)" "filter kept (x # xs) = x # xs"
    using assms by (auto simp: plain_segments_def intro: filter_True)
  have "foldl clean_step [] ([] # x # xs) = x # xs"
    using clean_no_parent [of "x # xs" "[]"] k by (simp add: clean_step_def)
  then have c: "path_Clean_rooted (rooted (x # xs)) = rooted (x # xs)"
    unfolding path_Clean_rooted_def SplitChar_rooted [OF assms] by simp
  have l: "last (x # xs) \<in> set (x # xs)" by (rule last_in_set) simp
  then have ne: "last (x # xs) \<noteq> []" "CHR ''/'' \<notin> set (last (x # xs))"
    using assms by (auto simp: plain_segments_def kept_def)
  have "last (rooted (x # xs)) \<noteq> CHR ''/''"
    using last_rooted [of "x # xs"] ne last_in_set by (metis list.distinct(1))
  moreover have "hd (rooted (x # xs)) = CHR ''/''" "rooted (x # xs) \<noteq> []" by (simp_all add: rooted_def)
  ultimately show ?thesis using c by (simp add: cleanPath_def Let_def)
qed

text \<open>A path below one of the three patterns is given, cleaned if need be, to the handler of the pattern.\<close>

lemma below_is_routed:
  assumes "tree_pattern pre = Some route" "plain_segments (pre # x # xs)" "mthd \<noteq> ''CONNECT''"
  shows "findHandler mthd (rooted (pre # x # xs)) u = Handle route"
proof -
  let ?e = "rooted (pre # x # xs)"
  have pre: "pre \<in> {''p'', ''a'', ''segment''}" using assms(1) by (auto simp: tree_pattern_def split: if_splits)
  have e: "?e = CHR ''/'' # pre @ CHR ''/'' # tl (rooted (x # xs))" by (simp add: rooted_def)
  have "takeWhile (\<lambda>c. c \<noteq> CHR ''/'') (tl ?e) = pre" "dropWhile (\<lambda>c. c \<noteq> CHR ''/'') (tl ?e) \<noteq> []" "tl ?e \<noteq> []"
    using assms(2) unfolding e plain_segments_def by (auto simp: takeWhile_append dropWhile_append)
  moreover have "unescape_segment pre = pre" using pre by (auto simp: unescape_segment_def)
  moreover have "pre \<noteq> ''playlist.m3u''" using pre by auto
  ultimately have m: "match_path ?e = Some route" using assms(1) by (simp add: match_path_def Let_def)
  then show ?thesis
    using clean_rooted [OF assms(2)] assms(3) by (simp add: findHandler_def Let_def missing_slash_def)
qed

lemma path_is_cleaned:
  assumes "''..'' \<notin> set (SplitChar (CHR ''/'') sub)" "plain_segments [pre, fin]"
  shows "cleanPath (''/'' @ pre @ ''/'' @ sub @ ''/'' @ fin)
    = rooted (pre # filter kept (SplitChar (CHR ''/'') sub) @ [fin])"
    "plain_segments (pre # filter kept (SplitChar (CHR ''/'') sub) @ [fin])"
proof -
  let ?p = "''/'' @ pre @ ''/'' @ sub @ ''/'' @ fin"
  have free: "CHR ''/'' \<notin> set pre" "CHR ''/'' \<notin> set fin" and k: "kept pre" "kept fin" "pre \<noteq> ''..''" "fin \<noteq> ''..''"
    using assms(2) by (simp_all add: plain_segments_def)
  have "SplitChar (CHR ''/'') ?p = [] # pre # SplitChar (CHR ''/'') sub @ [fin]"
    using free by (simp add: SplitChar_append SplitChar_at SplitChar_none)
  then have "path_Clean_rooted ?p = rooted (pre # filter kept (SplitChar (CHR ''/'') sub) @ [fin])"
    using clean_no_parent [of "pre # SplitChar (CHR ''/'') sub @ [fin]" "[]"] assms(1) k
    by (simp add: path_Clean_rooted_def) (simp add: clean_step_def)
  moreover have "fin \<noteq> []" using k(2) by (simp add: kept_def)
  then have "last ?p = last fin" "last fin \<noteq> CHR ''/''"
    using free(2) last_in_set [of fin] by (simp, metis)
  ultimately show "cleanPath ?p = rooted (pre # filter kept (SplitChar (CHR ''/'') sub) @ [fin])"
    by (simp add: cleanPath_def Let_def)
  show "plain_segments (pre # filter kept (SplitChar (CHR ''/'') sub) @ [fin])"
    using assms SplitChar_free by (fastforce simp: plain_segments_def)
qed

text \<open>What the server does with a path that a link has: it hands it on, or redirects to one it hands on.\<close>

definition reaches :: "route \<Rightarrow> string \<Rightarrow> bool" where
  "reaches route path \<longleftrightarrow> (\<exists>path'. (path' = path \<or> findHandler ''GET'' path path = Moved path')
     \<and> findHandler ''GET'' path' path' = Handle route \<and> extractStreamURL path' = extractStreamURL path)"

lemma link_reaches:
  assumes "tree_pattern pre = Some route" "''..'' \<notin> set (SplitChar (CHR ''/'') sub)"
    and "x \<noteq> []" "CHR ''.'' \<notin> set x" "CHR ''/'' \<notin> set x" "CHR ''/'' \<notin> set e" "e = [] \<or> hd e = CHR ''.''"
  shows "reaches route (''/'' @ pre @ ''/'' @ sub @ ''/'' @ x @ e)"
proof -
  let ?p = "''/'' @ pre @ ''/'' @ sub @ ''/'' @ x @ e"
  let ?mid = "filter kept (SplitChar (CHR ''/'') sub)"
  have pre: "kept pre \<and> pre \<noteq> ''..'' \<and> CHR ''/'' \<notin> set pre"
    using assms(1) by (auto simp: tree_pattern_def kept_def split: if_splits)
  have "hd (x @ e) \<noteq> CHR ''.''" using assms(3,4) by (cases x) auto
  then have "x @ e \<noteq> ''.''" "x @ e \<noteq> ''..''" by (metis list.sel(1))+
  then have s: "plain_segments [pre, x @ e]"
    using pre assms(3,5,6) by (auto simp: plain_segments_def kept_def)
  note c = path_is_cleaned [OF assms(2) s]
  let ?q = "rooted (pre # ?mid @ [x @ e])"
  obtain y ys where y: "?mid @ [x @ e] = y # ys" by (cases "?mid @ [x @ e]") simp_all
  have h: "findHandler ''GET'' ?q ?q = Handle route"
    unfolding y by (rule below_is_routed [OF assms(1)]) (use c(2) y in simp_all)
  have q: "?q = (CHR ''/'' # pre @ concat (map ((#) (CHR ''/'')) ?mid)) @ ''/'' @ x @ e" by (simp add: rooted_def)
  have eq: "extractStreamURL ?q = extractStreamURL ?p"
    using extract_last_element [OF assms(3-7), of "CHR ''/'' # pre @ concat (map ((#) (CHR ''/'')) ?mid)"]
      extract_last_element [OF assms(3-7), of "''/'' @ pre @ ''/'' @ sub"] unfolding q by simp
  show ?thesis
  proof (cases "?q = ?p")
    case True
    with h show ?thesis unfolding reaches_def by metis
  next
    case False
    have "match_path ?q = Some route"
      using h c(1) by (auto simp: findHandler_def Let_def split: if_splits option.splits)
    then have "findHandler ''GET'' ?p ?p = Moved ?q"
      using False c(1) by (simp add: findHandler_def Let_def missing_slash_def)
    with h eq show ?thesis unfolding reaches_def by metis
  qed
qed

lemma reaches_below:
  assumes "tree_pattern pre = Some route" "plain_segments [pre, x]"
  shows "reaches route (''/'' @ pre @ ''/'' @ x)"
proof -
  have "rooted [pre, x] = ''/'' @ pre @ ''/'' @ x" by (simp add: rooted_def)
  with below_is_routed [OF assms, of "''GET''" "''/'' @ pre @ ''/'' @ x"] show ?thesis
    unfolding reaches_def by auto
qed

text \<open>C3. Every link the server gives out comes back to the handler that can read it: the request for the
  path of a channel's link reaches the stream handler, directly or, when the sub path taken from
  the source is not in its shortest form, through a redirection that keeps the slug; the one for
  the link of a segment reaches the segment handler.  What each handler then decodes is the
  channel, or the segment, that the link was made for.  (A sub path with a parent directory in it
  can lead elsewhere.)\<close>

theorem links_reach_their_handlers:
  assumes "carries (slug_codec E) si (json_info si)" "\<forall>p \<in> set (sub_paths E si). ''..'' \<notin> set (SplitChar (CHR ''/'') p)"
    and "carries (seg_codec SE) seg seg"
  shows "(\<exists>path. GenerateStreamURL E base si = base @ path \<and> reaches StreamRoute path
      \<and> DecodeSlug (slug_codec E) (extractStreamURL path) = Inr ((json_info si)\<lparr>URLs := Some []\<rparr>))
    \<and> (\<exists>path. generateSegmentURL SE seg = DetermineBaseURL (pe_environ (sg_env SE)) None @ path \<and> reaches SegmentRoute path
      \<and> ParseSegmentId SE (extractStreamURL path) = Inr seg)"
proof (intro conjI)
  let ?sl = "EncodeSlug (slug_codec E) si"
  note sl = encodeSlug_shape [OF assms(1), folded EncodeSlug_def]
  obtain sub ext where g: "GenerateStreamURL E base si = base @ ''/p/'' @ sub @ ''/'' @ ?sl @ ext"
    and x: "CHR ''/'' \<notin> set ext" "ext = [] \<or> hd ext = CHR ''.''" and sub: "sub \<in> insert ''stream'' (set (sub_paths E si))"
    by (rule link_shape [OF sl(1)])
  have "''..'' \<notin> set (SplitChar (CHR ''/'') sub)" using sub assms(2) by auto
  from link_reaches [OF _ this sl x, of "''p''"] have "reaches StreamRoute (''/p/'' @ sub @ ''/'' @ ?sl @ ext)"
    by (simp add: tree_pattern_def)
  moreover have "extractStreamURL (''/p/'' @ sub @ ''/'' @ ?sl @ ext) = ?sl"
    using extract_last_element [OF sl x, of "''/p/'' @ sub"] by simp
  ultimately show "\<exists>path. GenerateStreamURL E base si = base @ path \<and> reaches StreamRoute path
      \<and> DecodeSlug (slug_codec E) (extractStreamURL path) = Inr ((json_info si)\<lparr>URLs := Some []\<rparr>)"
    using g Decode_EncodeSlug [OF assms(1)] by metis
next
  let ?sl = "encodeSlug (seg_codec SE) seg"
  let ?e = "case GetFileExtensionFromUrl (sg_env SE) (SegURL seg) of None \<Rightarrow> [] | Some x \<Rightarrow> x"
  note sl = encodeSlug_shape [OF assms(3)]
  have e: "CHR ''/'' \<notin> set ?e" "?e = [] \<or> hd ?e = CHR ''.''"
    using path_Ext_shape by (auto simp: GetFileExtensionFromUrl_def split: option.split)
  have "hd (?sl @ ?e) \<noteq> CHR ''.''" using sl(1,2) by (cases ?sl) auto
  then have "?sl @ ?e \<noteq> ''.''" "?sl @ ?e \<noteq> ''..''" by (metis list.sel(1))+
  then have "plain_segments [''segment'', ?sl @ ?e]" using sl e(1) by (simp add: plain_segments_def kept_def)
  then have "reaches SegmentRoute (''/segment'' @ ''/'' @ ?sl @ ?e)"
    using reaches_below [of "''segment''" SegmentRoute "?sl @ ?e"] by (simp add: tree_pattern_def)
  moreover have "ParseSegmentId SE (extractStreamURL (''/segment'' @ ''/'' @ ?sl @ ?e)) = Inr seg"
    unfolding extract_last_element [OF sl e] ParseSegmentId_def by (rule decode_encodeSlug [OF assms(3)])
  moreover have "generateSegmentURL SE seg = DetermineBaseURL (pe_environ (sg_env SE)) None @ ''/segment'' @ ''/'' @ ?sl @ ?e"
    by (simp add: generateSegmentURL_def Let_def)
  ultimately show "\<exists>path. generateSegmentURL SE seg = DetermineBaseURL (pe_environ (sg_env SE)) None @ path
      \<and> reaches SegmentRoute path \<and> ParseSegmentId SE (extractStreamURL path) = Inr seg" by blast
qed

theorem links_reach_their_handlers_witness:
  "(\<exists>path. GenerateStreamURL plain_env ''http://h'' news_info = ''http://h'' @ path \<and> reaches StreamRoute path
      \<and> DecodeSlug (slug_codec plain_env) (extractStreamURL path) = Inr (news_info\<lparr>URLs := Some []\<rparr>))
    \<and> (\<exists>path. generateSegmentURL sample_seg_env \<lparr>SegURL = ''http://h/a.ts'', SegSource = ''1|a''\<rparr>
        = DetermineBaseURL (pe_environ (sg_env sample_seg_env)) None @ path \<and> reaches SegmentRoute path
      \<and> ParseSegmentId sample_seg_env (extractStreamURL path) = Inr \<lparr>SegURL = ''http://h/a.ts'', SegSource = ''1|a''\<rparr>)"
proof -
  have "carries (slug_codec plain_env) news_info (json_info news_info)" by (simp add: news_info_carried news_info_json)
  moreover have "\<forall>p \<in> set (sub_paths plain_env news_info). ''..'' \<notin> set (SplitChar (CHR ''/'') p)"
    by (simp add: sub_paths_def news_info_def plain_env_def)
  moreover have "carries (seg_codec sample_seg_env) \<lparr>SegURL = ''http://h/a.ts'', SegSource = ''1|a''\<rparr>
      \<lparr>SegURL = ''http://h/a.ts'', SegSource = ''1|a''\<rparr>"
    by (simp add: sample_seg_env_def single_codec_carries)
  ultimately show ?thesis
    using links_reach_their_handlers [of plain_env news_info] by (simp only: news_info_json)
qed

section \<open>The merged playlist is served\<close>

text \<open>The files of the directory of playlists, as the server sees them.\<close>

definition playlist_files :: "(string \<Rightarrow> header) \<Rightarrow> string \<Rightarrow> proc_fs \<Rightarrow> file_server" where
  "playlist_files hs dir fs name =
     (if HasPrefix name (dir @ ''/'')
      then case map_of (processed fs) (drop (length (dir @ ''/'')) name) of
             Some (File c) \<Rightarrow> Some (hs name, c) | _ \<Rightarrow> None
      else None)"

lemma playlist_is_routed: "findHandler ''GET'' ''/playlist.m3u'' u = Handle PlaylistRoute"
  by code_simp

definition q_of :: "web_request \<Rightarrow> m3u_request" where
  "q_of r = \<lparr>q_method = wr_method r, q_username = wr_username r, q_password = wr_password r, q_now = wr_now r\<rparr>"

lemma serve_playlist:
  assumes "wr_method r = ''GET''" "wr_escaped r = ''/playlist.m3u''" "handleAuth (we_lower W) (q_of r) (ws_m3u s)"
    and "processedPath (ws_m3u s) \<noteq> []" "we_files W (processedPath (ws_m3u s)) = Some (hs, content)"
  shows "\<exists>w'. serve W r w s = Some (Ok (Reply w', s)) \<and> wStatus w' = wStatus w @ [200] \<and> wBody w' = wBody w @ content"
proof -
  let ?w = "w\<lparr>wHeader := header_Set (wHeader w) ''X-Correlation-ID'' (correlation_id (wr_fresh r) (wr_header r))\<rparr>"
  have f: "findHandler (wr_method r) (wr_escaped r) (wr_path r) = Handle PlaylistRoute"
    using playlist_is_routed assms(1,2) by simp
  have "serve W r w s = Some (Ok (Reply (http_ServeFile (we_files W) ''GET'' (processedPath (ws_m3u s)) (allow_origin ?w)), s))"
    using assms(1,3,4) unfolding serve_def f
    by (simp add: Middleware_def route_handler_def ServeHTTP_def q_of_def Let_def)
  then show ?thesis
    using http_ServeFile_file [where files = "we_files W" and mthd = "''GET''" and w = "allow_origin ?w", OF assms(5)] by (auto simp: allow_origin_def)
qed

text \<open>C1. From the update to the viewer: after an update job without faults, a client with a valid credential
  (or any client, when none is configured) that requests \<^verbatim>\<open>/playlist.m3u\<close> with a plain GET (a range
  or a condition on the modification time in its headers is not modelled) gets, with status 200,
  the playlist of the update: after its header one entry for each pair of shard and sanitized
  title among the channels that the sources gave and the filters let through, each with the
  title of such a channel.\<close>

theorem viewer_gets_merged_playlist:
  assumes "smooth_sorting U" "smooth_out U" "smooth_end U" "LookupEnv (pe_environ (u_env U)) ''BASE_URL'' \<noteq> None"
    and "distinct (map fst (processed fs))" "chans = fst (u_read U (u_start U fs))"
    and "wr_method r = ''GET''" "wr_escaped r = ''/playlist.m3u''" "handleAuth (we_lower W) (q_of r) (ws_m3u s)"
  shows "\<exists>h' fs' w' ps out. UpdateSources U False dir dir_ok fs (ws_m3u s) = Ok (h', fs')
    \<and> serve (W\<lparr>we_files := playlist_files hs dir fs'\<rparr>) r w (s\<lparr>ws_m3u := h'\<rparr>) = Some (Ok (Reply w', s\<lparr>ws_m3u := h'\<rparr>))
    \<and> wStatus w' = wStatus w @ [200]
    \<and> wBody w' = wBody w @ ''#EXTM3U'' @ [newline] @ concat (map (formatStreamEntry (u_env U) (u_base U)) out)
    \<and> mset (map snd ps) = mset out \<and> distinct (map fst ps)
    \<and> set (map fst ps) = key_of (u_hash U) ` set chans
    \<and> (\<forall>(k, v) \<in> set ps. \<exists>s \<in> set chans. key_of (u_hash U) s = k \<and> Title v = json_string (Title s))"
proof -
  let ?name = "dir @ ''/'' @ u_now U @ ''.m3u''"
  let ?h = "SetProcessedPath ?name (ws_m3u s)" let ?s = "s\<lparr>ws_m3u := ?h\<rparr>"
  obtain fs' out ps where u: "UpdateSources U False dir dir_ok fs (ws_m3u s) = Ok (?h, fs')"
    "map_of (processed fs') (u_now U @ ''.m3u'') = Some (File (playlist_text U out))"
    and ps: "mset (map snd ps) = mset out" "distinct (map fst ps)" "set (map fst ps) = key_of (u_hash U) ` set chans"
      "\<forall>(k, v) \<in> set ps. (\<exists>s \<in> set chans. key_of (u_hash U) s = k \<and> Title v = json_string (Title s)) \<and> URLs v = None"
    by (rule UpdateSources_smooth [OF assms(1-6)]) (rule that)
  let ?W = "W\<lparr>we_files := playlist_files hs dir fs'\<rparr>"
  have "HasPrefix ?name (dir @ ''/'')" using HasPrefix_append [of "dir @ ''/''" "u_now U @ ''.m3u''"] by simp
  then have "we_files ?W ?name = Some (hs ?name, playlist_text U out)" using u(2) by (simp add: playlist_files_def)
  moreover have "handleAuth (we_lower ?W) (q_of r) (ws_m3u ?s)"
    using assms(9) by simp
  ultimately obtain w' where "serve ?W r w ?s = Some (Ok (Reply w', ?s))" "wStatus w' = wStatus w @ [200]"
      "wBody w' = wBody w @ playlist_text U out"
    using serve_playlist [OF assms(7,8), of ?W ?s "hs ?name" "playlist_text U out" w] by (auto simp: SetProcessedPath_def)
  moreover have "\<forall>(k, v) \<in> set ps. \<exists>s \<in> set chans. key_of (u_hash U) s = k \<and> Title v = json_string (Title s)"
    using ps(4) by blast
  ultimately show ?thesis
    using u(1) ps(1-3) unfolding playlist_text_def
    by (intro exI [of _ ?h] exI [of _ fs'] exI [of _ w'] exI [of _ ps] exI [of _ out]) (simp del: mset_map)
qed

definition sample_web :: web_env where
  "sample_web = \<lparr>we_lower = ToLower, we_files = \<lambda>_. None, we_server = sample_server, we_show_error = \<lambda>_. ''e'',
     we_fetch = \<lambda>_. Inl EOF, we_upstream = sample_upstream\<rparr>"

definition sample_web_request :: web_request where
  "sample_web_request = \<lparr>wr_method = ''GET'', wr_escaped = ''/playlist.m3u'', wr_path = ''/playlist.m3u'', wr_username = ''ann'',
     wr_password = ''pw'', wr_header = [], wr_body = [], wr_fresh = ''id'', wr_now = 100, wr_visits = [], wr_answer = (0, None)\<rparr>"

definition sample_web_state :: web_state where
  "sample_web_state = \<lparr>ws_m3u = NewM3UHTTPHandler ToLower (\<lambda>_. Some sample_creds) [(''CREDENTIALS'', ''[]'')] [],
     ws_http = sample_http\<rparr>"

lemma sample_web_auth: "handleAuth (we_lower sample_web) (q_of sample_web_request) (ws_m3u sample_web_state)"
proof -
  have e: "Getenv [(''CREDENTIALS'', ''[]'')] ''CREDENTIALS'' = ''[]''" "ToLower ''[]'' \<noteq> ''none''"
    by (simp_all add: Getenv_def LookupEnv_def lower_char_def)
  have "ToLower ''Ann'' = ''ann''" "ToLower ''ann'' = ''ann''"
    by (simp_all add: lower_char_def char_of_def bit_iff_odd)
  then show ?thesis
    using loaded_credentials [where decode = "\<lambda>_. Some sample_creds", OF e(1) _ e(2) refl, of ToLower "[]"]
    by (simp add: handleAuth_def sample_web_def sample_web_state_def q_of_def sample_web_request_def sample_creds_def)
qed

theorem viewer_gets_merged_playlist_witness:
  "\<exists>h' fs' w' (ps :: ((nat \<times> string) \<times> StreamInfo) list) out.
      UpdateSources served_update False ''d'' True old_fs (ws_m3u sample_web_state) = Ok (h', fs')
    \<and> serve (sample_web\<lparr>we_files := playlist_files (\<lambda>_. []) ''d'' fs'\<rparr>) sample_web_request sample_writer
        (sample_web_state\<lparr>ws_m3u := h'\<rparr>) = Some (Ok (Reply w', sample_web_state\<lparr>ws_m3u := h'\<rparr>))
    \<and> wStatus w' = wStatus sample_writer @ [200]
    \<and> wBody w' = wBody sample_writer @ ''#EXTM3U'' @ [newline]
        @ concat (map (formatStreamEntry (u_env served_update) (u_base served_update)) out)
    \<and> set (map fst ps) = key_of (u_hash served_update) ` set (fst (u_read served_update (u_start served_update old_fs)))"
proof -
  have sm: "smooth_sorting served_update" "smooth_out served_update" "smooth_end served_update"
    using sample_update_smooth by (simp_all add: smooth_sorting_def smooth_out_def smooth_end_def served_update_def)
  have "LookupEnv (pe_environ (u_env served_update)) ''BASE_URL'' \<noteq> None" "distinct (map fst (processed old_fs))"
    "wr_method sample_web_request = ''GET''" "wr_escaped sample_web_request = ''/playlist.m3u''"
    by (simp_all add: served_update_def LookupEnv_def old_fs_def sample_web_request_def)
  from viewer_gets_merged_playlist [OF sm this(1,2) refl this(3,4) sample_web_auth, of "''d''" True "\<lambda>_. []" sample_writer]
  show ?thesis by (elim exE conjE) (intro exI conjI, assumption+)
qed

section \<open>A stream is served\<close>

lemma writer_of_body: "wBody (writer_of sc) = client_body sc"
  by (simp add: writer_of_def client_body_def split: option.split)

text \<open>C2. The first viewer of a stream, from the request to the bytes.  The path reaches the stream handler,
  nobody watches that stream yet, the load balancer finds a source that is served from the shared
  buffer, and the media writer reads the source's body to its end \<open>e\<close> (the end of the file, an error,
  the timeout), copying \<open>reads\<close> into the ring, however often that wraps.  However the calls of the
  writer fall, before the viewer takes its start (\<open>px_joined\<close>) or between its turns (\<open>px_reader\<close>), a
  viewer that keeps up gets byte for byte the data of all the reads, but for those it was too late for:
  of the chunks that were in the ring when it took its start it gets the last one.  Then the
  request is over, or, if the status is one that another source may mend, goes on; no client is left in the buffer
  and no goroutine is lost.\<close>

theorem first_viewer_gets_the_stream:
  assumes "findHandler (wr_method r) (wr_escaped r) (wr_path r) = Handle StreamRoute"
    and "extractStreamURL (wr_path r) \<noteq> []" "map_of (entries (hs_reg (ws_http s))) (extractStreamURL (wr_path r)) = None"
    and "wr_visits r = [v]" "\<forall>x. v_world v x = x"
      "handler (chan_run (Some st) (v_chan v)) = Received st" "\<not> v_gone_wait v"
    and "Balance (sv_lb (we_server W)\<lparr>has_client := True, has_provider := True\<rparr>) True
        (Some \<lparr>Method = wr_method r, URLPath = Some (wr_path r)\<rparr>)
        (NewLoadBalancerInstance (hs_cm (ws_http s)) (hs_indexes (ws_http s)) (hs_clock (ws_http s))) = Some (Ok (Inr lb, l))"
      "uses_buffer (hs_cm (ws_http s)) lb st" "\<not> IsAnM3U8Media (lbResponse lb)" "no_nil (hs_cm (ws_http s))" "distinct (hs_indexes (ws_http s))"
      "slice_sorter (sort_indexes (sv_lb (we_server W)))"
    and "cfg = reg_config (hs_reg (ws_http s))" "1 < SharedBufferSize cfg" "SharedBufferSize cfg < 9223372036854775808"
    and "c0 = snd (join (NewStreamCoordinator (extractStreamURL (wr_path r)) cfg))"
      "int (Suc (length ts)) < 9223372036854775808" "\<forall>t \<in> set ts. before t = [] \<and> during t = []"
      "readAndWriteStream now ts (started lb c0) = Ok (Return (Some e) ls c1)" "reads = copied_reads ts ls"
      "st = snd (media_end ctx_now e)"
    and "px_joined (v_script v) @ concat (map r_acts (px_reader (v_script v))) = media_calls reads ctx_now e t_end"
      "px_reader (v_script v) \<noteq> []"
      "keeps_up lb (nat (SharedBufferSize cfg)) [last (newChunkData # map act_chunk (px_joined (v_script v)))] (px_reader (v_script v))"
      "int (length (concat (map rd_data reads))) < 9223372036854775808"
  shows "StartMediaWriter env lb now ts ctx_now t_end cm c0 =
      (WDone, UpdateConcurrency env (lbIndex lb) False (UpdateConcurrency env (lbIndex lb) True cm),
       (foldl coord_step (started lb c0) (px_joined (v_script v) @ concat (map r_acts (px_reader (v_script v)))))
         \<lparr>LBResultOnWrite := None\<rparr>)
    \<and> (\<exists>w' s'. serve W r w s
      = Some (Ok (if handleExitCode st then Reply w' else Streaming w', s\<lparr>ws_http := s'\<rparr>))
    \<and> wBody w' = wBody w @ concat (map rd_data (drop (length (px_joined (v_script v)) - 1) reads))
    \<and> lost_of s' = lost_of (ws_http s)
    \<and> (\<exists>c. heap (hs_reg s') (hs_coord s') = Some c \<and> ClientCount c = 0))"
proof -
  let ?w = "w\<lparr>wHeader := header_Set (wHeader w) ''X-Correlation-ID'' (correlation_id (wr_fresh r) (wr_header r))\<rparr>"
  let ?rq = "\<lparr>Method = wr_method r, URLPath = Some (wr_path r)\<rparr>"
  let ?calls = "px_joined (v_script v) @ concat (map r_acts (px_reader (v_script v)))"
  let ?ws = "map tick_chunk reads" let ?e = "fst (media_end ctx_now e)"
  have p: "URLPath ?rq = Some (wr_path r)" by simp
  let ?n = "NewStreamCoordinator (extractStreamURL (wr_path r)) cfg"
  have n: "coord_ok ?n" "ClientCount ?n = 0" "\<not> WriterActive ?n" "writeSeq ?n = 0"
    using new_coordinator_ok assms(15,16) by (simp_all add: NewStreamCoordinator_def)
  have live: "live (Suc (length ts)) c0"
    using join_facts [OF n(1-3)] n(4) assms(18) unfolding assms(17) by (simp add: live_def)
  note run = media_writer_calls(1) [OF live assms(19,20), of env ctx_now t_end cm, folded assms(21)]
    media_writer_calls(2) [OF live assms(19,20), folded assms(21)]
  have calls: "?calls = map AWrite ?ws @ [AWriteError ?e st t_end]"
    unfolding assms(22,23) media_calls_def by simp
  have ws: "\<forall>ch \<in> set ?ws. \<not> is_error ch" "?e \<noteq> None \<or> st \<noteq> 0" "int (Suc (length ?ws)) < 9223372036854775808"
    using run(2) assms(18) media_end_is_error [of ctx_now e] unfolding assms(22) by simp_all
  have data: "\<forall>t \<in> set reads. rd_data t \<noteq> []" by (auto simp: assms(21) copied_reads_def StreamWriter.copied_def)
  then have bytes: "chunk_bytes (delivered (drop k ?ws)) = concat (map rd_data (drop k reads))" for k
    using delivered_tick_chunks [of "drop k reads"] by (auto simp: chunk_bytes_def drop_map dest: in_set_dropD)
  have len: "int (length (chunk_bytes (delivered ?ws))) < 9223372036854775808"
    using bytes [of 0] assms(26) by simp
  obtain s' where s': "Stream_ServeHTTP (we_server W) ?rq [v] ?w (ws_http s)
      = Some (Ok (if handleExitCode st then Some (Finished st) else None, s'))"
    "client_body (hs_client s') = wBody ?w @ concat (map rd_data (drop (length (px_joined (v_script v)) - 1) reads))"
    "lost_of s' = lost_of (ws_http s)"
    "\<exists>c. heap (hs_reg s') (hs_coord s') = Some c \<and> ClientCount c = 0 \<and> WriterCtx c = None"
    using first_request_served [OF p assms(2,3,5-7) assms(8,9,11-13) assms(15,16) [unfolded assms(14)] calls
        assms(24,25) [unfolded assms(14)] ws len] unfolding bytes by blast
  have "serve W r w s = Some (Ok (if handleExitCode st then Reply (writer_of (hs_client s'))
      else Streaming (writer_of (hs_client s')), s\<lparr>ws_http := s'\<rparr>))"
    using s'(1) assms(1,4) by (simp add: serve_def Middleware_def route_handler_def Let_def)
  then show ?thesis
    using run(1) s'(2-4) unfolding assms(23)
    by (intro conjI exI [of _ "writer_of (hs_client s')"] exI [of _ s']) (auto simp: writer_of_body)
qed

text \<open>The witness: the second source of the sample answers, with a body of five reads; the viewer takes its
  start when two of them are in the ring.\<close>

definition serving_server :: server where
  "serving_server = \<lparr>sv_lb = one_answers, sv_seg = sample_seg_env\<rparr>"

definition serving_visit :: stream_visit where
  "serving_visit = sample_visit\<lparr>v_script := sample_script\<lparr>px_joined := take 2 (media_calls five_reads None EOF 6),
     px_reader := sample_turns [take 1 (drop 2 (media_calls five_reads None EOF 6)), [],
       take 1 (drop 3 (media_calls five_reads None EOF 6)), drop 4 (media_calls five_reads None EOF 6)]\<rparr>,
     v_chan := [Finishes StatusEOF, Sends]\<rparr>"

definition serving_request :: web_request where
  "serving_request = sample_web_request\<lparr>wr_escaped := ''/p/stream/slug.ts'', wr_path := ''/p/stream/slug.ts'',
     wr_visits := [serving_visit]\<rparr>"

definition serving_start :: lb_state where
  "serving_start = NewLoadBalancerInstance (hs_cm sample_http) (hs_indexes sample_http) (hs_clock sample_http)"

lemma serving_start_eq: "serving_start = sample_state\<lparr>info := None\<rparr>"
  by (simp add: serving_start_def NewLoadBalancerInstance_def sample_http_def sample_state_def)

lemma serving_balance:
  obtains lb l where "Balance (one_answers\<lparr>has_client := True, has_provider := True\<rparr>) True
      (Some \<lparr>Method = ''GET'', URLPath = Some ''/p/stream/slug.ts''\<rparr>) serving_start = Some (Ok (Inr lb, l))"
    "lbURL lb = ''http://h/b''" "\<not> IsAnM3U8Media (lbResponse lb)" "StatusCode (lbResponse lb) = 200"
proof -
  have E: "one_answers\<lparr>has_client := True, has_provider := True\<rparr> = one_answers"
    by (simp add: one_answers_def sample_env_def)
  let ?us = "the (URLs LoadBalancer.sample_info)"
  let ?rq = "\<lparr>Method = ''GET'', URLPath = Some ''/p/stream/slug.ts''\<rparr>"
  have nn: "no_nil (Cm serving_start)" using sample_env_facts(5) by (simp add: serving_start_eq)
  have si: "URLs LoadBalancer.sample_info = Some ?us" by (simp add: LoadBalancer.sample_info_def)
  have so: "slice_sorter (sort_indexes one_answers)" "slice_sorter (sort_subs one_answers)"
    using sample_env_facts(1,2) by (simp_all add: one_answers_def)
  have "\<exists>res s'. Balance one_answers True (Some ?rq) serving_start = Some (Ok (Inr res, s'))"
  proof (rule Balance_finds [OF so])
    show "no_nil (Cm serving_start)" by (rule nn)
    show "\<not> at_limit one_answers serving_start ''2''" using sample_free [of "''2''"] by (simp add: at_limit_def serving_start_eq)
    show "tidy ?us" by (simp add: tidy_def LoadBalancer.sample_info_def)
    show "parse_slug one_answers (GetStreamId ''/p/stream/slug.ts'') = Inr LoadBalancer.sample_info"
      by (simp add: one_answers_def)
    show "URLs LoadBalancer.sample_info = Some ?us" by (rule si)
    have "url_of ''4:::http://h/b'' = ''http://h/b''" by code_simp
    then show "has_healthy one_answers (Method ?rq) ?us ''2'' ''b''"
      by (simp add: has_healthy_def healthy_def LoadBalancer.sample_info_def one_answers_def sample_env_def)
  qed (simp_all add: one_answers_def sample_env_def sample_state_def serving_start_eq)
  then obtain lb l where b: "Balance one_answers True (Some ?rq) serving_start = Some (Ok (Inr lb, l))" by blast
  obtain p stream us where "from_source one_answers ''GET'' (m3uIndexes serving_start) us lb"
    using Balance_sound [OF so(1) nn _ b] by (auto simp: sample_state_def serving_start_eq)
  then obtain t where "answer one_answers t ''GET'' (lbURL lb) = HttpOk (lbResponse lb)" "StatusCode (lbResponse lb) = 200"
    by (auto simp: from_source_def from_url_def)
  moreover define resp :: Response where
    "resp = \<lparr>StatusCode = 200, RespHeader = [], RequestPath = Some ''/b'', RequestURL = ''http://h/b''\<rparr>"
  ultimately have lb: "lbURL lb = ''http://h/b''" "lbResponse lb = resp"
    by (auto simp: one_answers_def split: if_splits)
  have "\<not> IsAnM3U8Media resp"
    by (simp add: resp_def IsAnM3U8Media_def header_Get_def lower_char_def knownMimeTypes_def path_Ext_def after_last_def Let_def)
  moreover have "StatusCode resp = 200" by (simp add: resp_def)
  ultimately show thesis using that b lb unfolding E by metis
qed

theorem first_viewer_gets_the_stream_witness:
  "\<exists>w' s'. serve (sample_web\<lparr>we_server := serving_server\<rparr>) serving_request sample_writer sample_web_state
      = Some (Ok (Streaming w', sample_web_state\<lparr>ws_http := s'\<rparr>))
    \<and> wBody w' = ''bcde'' \<and> lost_of s' = []"
proof -
  obtain lb l where b: "Balance (one_answers\<lparr>has_client := True, has_provider := True\<rparr>) True
      (Some \<lparr>Method = ''GET'', URLPath = Some ''/p/stream/slug.ts''\<rparr>) serving_start = Some (Ok (Inr lb, l))"
    "lbURL lb = ''http://h/b''" "\<not> IsAnM3U8Media (lbResponse lb)" "StatusCode (lbResponse lb) = 200"
    by (rule serving_balance)
  let ?W = "sample_web\<lparr>we_server := serving_server\<rparr>" let ?r = serving_request
  have w: "wr_method ?r = ''GET''" "wr_escaped ?r = ''/p/stream/slug.ts''" "wr_path ?r = ''/p/stream/slug.ts''"
    "wr_visits ?r = [serving_visit]" by (simp_all add: serving_request_def sample_web_request_def)
  have cfg: "reg_config (hs_reg (ws_http sample_web_state)) = sample_config"
    by (simp add: sample_web_state_def sample_http_def NewStreamRegistry_def)
  define c0 where "c0 = snd (join (NewStreamCoordinator ''slug'' sample_config))"
  have n: "ClientCount (NewStreamCoordinator ''slug'' sample_config) = 0" "\<not> WriterActive (NewStreamCoordinator ''slug'' sample_config)"
    "coord_ok (NewStreamCoordinator ''slug'' sample_config)"
    using new_coordinator_ok [of sample_config] by (simp_all add: NewStreamCoordinator_def sample_config_def)
  note j = join_facts [OF n(3,1,2), folded c0_def]
  have l: "live (length five_reads) (started lb c0)"
  proof -
    have "writeSeq (NewStreamCoordinator ''slug'' sample_config) = 0" by (simp add: NewStreamCoordinator_def)
    with j have "live 5 c0" by (simp add: live_def)
    moreover have "length five_reads = 5" by (simp add: five_reads_def)
    ultimately show ?thesis by simp
  qed
  have t: "in_time (getTimeoutDuration (started lb c0)) 0 five_reads"
    by (simp add: c0_def join_def start_writer_def RegisterClient_def ClearBuffer_def NewStreamCoordinator_def Let_def
        five_reads_def getTimeoutDuration_def sample_config_def)
  have "whole_body five_reads" by (simp add: whole_body_def five_reads_def)
  from whole_body_reads [OF l this t] obtain ls where
    run: "readAndWriteStream 0 five_reads (started lb c0) = Ok (Return (Some EOF) ls (writes (map tick_chunk five_reads) (started lb c0)))"
    "five_reads = copied_reads five_reads ls" by metis
  have 1: "findHandler (wr_method ?r) (wr_escaped ?r) (wr_path ?r) = Handle StreamRoute" unfolding w by code_simp
  have 2: "extractStreamURL (wr_path ?r) \<noteq> []" "map_of (entries (hs_reg (ws_http sample_web_state))) (extractStreamURL (wr_path ?r)) = None"
    by (simp_all add: w sample_request_id sample_web_state_def sample_http_def NewStreamRegistry_def)
  have 3: "\<forall>x. v_world serving_visit x = x" "handler (chan_run (Some StatusEOF) (v_chan serving_visit)) = Received StatusEOF"
    "\<not> v_gone_wait serving_visit"
    by (simp_all add: serving_visit_def sample_visit_def chan_run_def chan_step_def new_chan_def send_def)
  have 4: "Balance (sv_lb (we_server ?W)\<lparr>has_client := True, has_provider := True\<rparr>) True
        (Some \<lparr>Method = wr_method ?r, URLPath = Some (wr_path ?r)\<rparr>)
        (NewLoadBalancerInstance (hs_cm (ws_http sample_web_state)) (hs_indexes (ws_http sample_web_state))
          (hs_clock (ws_http sample_web_state))) = Some (Ok (Inr lb, l))"
    using b(1) by (simp add: w serving_server_def sample_web_state_def serving_start_def)
  have 5: "uses_buffer (hs_cm (ws_http sample_web_state)) lb StatusEOF"
    using b(2-4) by (simp add: uses_buffer_def sample_web_state_def sample_http_def NewConcurrencyManager_def HasSuffix_def)
  have 6: "no_nil (hs_cm (ws_http sample_web_state))" "distinct (hs_indexes (ws_http sample_web_state))"
    "slice_sorter (sort_indexes (sv_lb (we_server ?W)))"
    using sample_env_facts(1,5) by (simp_all add: sample_web_state_def sample_http_def sample_state_def serving_server_def one_answers_def)
  have 7: "sample_config = reg_config (hs_reg (ws_http sample_web_state))" "1 < SharedBufferSize sample_config"
    "SharedBufferSize sample_config < 9223372036854775808" using cfg by (simp_all add: sample_config_def)
  have 8: "c0 = snd (join (NewStreamCoordinator (extractStreamURL (wr_path ?r)) sample_config))"
    "int (Suc (length five_reads)) < 9223372036854775808" "\<forall>t \<in> set five_reads. before t = [] \<and> during t = []"
    by (simp_all add: c0_def w sample_request_id) (simp_all add: five_reads_def)
  let ?x = "v_script serving_visit"
  have 9: "StatusEOF = snd (media_end None EOF)" by simp
  have 10: "px_joined ?x @ concat (map r_acts (px_reader ?x)) = media_calls five_reads None EOF 6" "px_reader ?x \<noteq> []"
    by (simp_all add: serving_visit_def sample_visit_def sample_turns_def media_calls_def five_reads_def)
  have 11: "keeps_up lb (nat (SharedBufferSize sample_config)) [last (newChunkData # map act_chunk (px_joined ?x))] (px_reader ?x)"
    by (auto simp: serving_visit_def sample_visit_def sample_turns_def media_calls_def five_reads_def sample_config_def
        intro!: one_byte_smooth [OF b(3)])
  have 12: "int (length (concat (map rd_data five_reads))) < 9223372036854775808" by (simp add: five_reads_def)
  have got: "concat (map rd_data (drop (length (px_joined ?x) - 1) five_reads)) = ''bcde''"
    by (simp add: serving_visit_def sample_visit_def media_calls_def five_reads_def)
  from first_viewer_gets_the_stream [OF 1 2 w(4) 3 4 5 b(3) 6 7 8 run 9 10 11 12, of "[]" NewConcurrencyManager sample_writer]
  show ?thesis unfolding got
    by (auto simp: handleExitCode_def status_defs sample_writer_def sample_web_state_def sample_http_def lost_of_def)
qed

end
