(* ===== verification/Logging.thy ===== *)
theory Logging
  imports Correlation
begin

text \<open>
  \<^verbatim>\<open>logger/defaults.go\<close> and \<^verbatim>\<open>logger/fields.go\<close>: levels, fields, events, and the redaction of URLs
  that \<^verbatim>\<open>SAFE_LOGS\<close> asks for.

  The zerolog library renders a line; here a line is its level, its fields in the order in which they
  were added, and its message.  An event below the level of the logger is \<open>None\<close>, and stays so.
  The message of a formatting function is the formatted text.
\<close>

section \<open>Redaction\<close>

definition is_letter :: "char \<Rightarrow> bool" where
  "is_letter c \<longleftrightarrow> (let n = (of_char c :: nat) in 97 \<le> n \<and> n \<le> 122 \<or> 65 \<le> n \<and> n \<le> 90)"

definition scheme_char :: "char \<Rightarrow> bool" where
  "scheme_char c \<longleftrightarrow> is_letter c \<or> is_digit c \<or> c \<in> set ''+.-''"

definition address_char :: "char \<Rightarrow> bool" where
  "address_char c \<longleftrightarrow> is_letter c \<or> is_digit c \<or> c \<in> set ''+%/.-:_?&=#@''"

text \<open>
  A match of the expression at the head of a text, as what comes after it.  The scheme ends at the
  first character that is none of its own, so the greedy search has nothing to choose.
\<close>

definition url_at :: "string \<Rightarrow> string option" where
  "url_at s = (case s of
     [] \<Rightarrow> None
   | c # cs \<Rightarrow>
       if \<not> is_letter c then None
       else let rest = dropWhile scheme_char cs in
         if \<not> HasPrefix rest ''://'' then None
         else let address = drop 3 rest in
           if takeWhile address_char address = [] then None else Some (dropWhile address_char address))"

lemma url_at_shorter: "url_at s = Some r \<Longrightarrow> length r < length s"
proof -
  assume a: "url_at s = Some r"
  obtain c cs where s: "s = c # cs" using a by (cases s) (auto simp: url_at_def)
  have "length r \<le> length (drop 3 (dropWhile scheme_char cs))"
    using a s length_dropWhile_le [of address_char "drop 3 (dropWhile scheme_char cs)"]
    by (auto simp: url_at_def Let_def split: if_splits)
  also have "\<dots> \<le> length cs" using length_dropWhile_le [of scheme_char cs] by simp
  finally show ?thesis by (simp add: s)
qed

definition redacted :: string where
  "redacted = ''[redacted url]''"

function cleanString :: "string \<Rightarrow> string" where
  "cleanString s = (case url_at s of
     Some rest \<Rightarrow> redacted @ cleanString rest
   | None \<Rightarrow> (case s of [] \<Rightarrow> [] | c # cs \<Rightarrow> c # cleanString cs))"
  by pat_completeness auto
termination
  by (relation "measure length") (auto simp: url_at_shorter)

declare cleanString.simps [simp del]

definition safeLogf :: "environ \<Rightarrow> string \<Rightarrow> string" where
  "safeLogf env msg = (if Getenv env ''SAFE_LOGS'' = ''true'' then cleanString msg else msg)"

section \<open>Nothing that looks like a URL is left\<close>

text \<open>A text without an opening bracket at the head of the cleaned text was there before.\<close>

lemma cleaned_prefix: "cleanString s = p @ q \<Longrightarrow> CHR ''['' \<notin> set p \<Longrightarrow> \<exists>q'. s = p @ q'"
proof (induction s arbitrary: p rule: cleanString.induct)
  case (1 s)
  show ?case
  proof (cases p)
    case (Cons a p')
    with "1.prems" have n: "url_at s = None"
      by (subst (asm) cleanString.simps) (auto simp: redacted_def split: option.splits)
    with "1.prems"(1) Cons obtain cs where s: "s = a # cs" "cleanString cs = p' @ q"
      by (subst (asm) cleanString.simps) (auto split: list.splits)
    with "1.IH"(1) [OF n s(1) s(2)] "1.prems"(2) Cons show ?thesis by auto
  qed simp
qed

text \<open>What a match reads: a letter, a scheme, the separator and one more character.\<close>

lemma url_at_head:
  assumes "url_at s \<noteq> None"
  obtains c sch x q where "s = c # sch @ ''://'' @ x # q" "is_letter c" "list_all scheme_char sch" "address_char x"
proof -
  obtain c cs where s: "s = c # cs" using assms by (cases s) (auto simp: url_at_def)
  let ?rest = "dropWhile scheme_char cs"
  have f: "is_letter c" "HasPrefix ?rest ''://''" "takeWhile address_char (drop 3 ?rest) \<noteq> []"
    using assms s by (auto simp: url_at_def Let_def split: if_splits)
  from f(3) obtain x q where x: "drop 3 ?rest = x # q" "address_char x"
    by (cases "drop 3 ?rest") (auto split: if_splits)
  have "?rest = ''://'' @ drop 3 ?rest"
    using f(2) by (metis HasPrefix_def append_take_drop_id length_Cons list.size(3) numeral_3_eq_3)
  then have "cs = takeWhile scheme_char cs @ ''://'' @ x # q"
    using x(1) takeWhile_dropWhile_id [of scheme_char cs] by metis
  moreover have "list_all scheme_char (takeWhile scheme_char cs)" by (auto simp: list_all_iff dest: set_takeWhileD)
  ultimately show thesis using that s f(1) x(2) by metis
qed

lemma scheme_no_colon: "scheme_char c \<Longrightarrow> c \<noteq> CHR '':'' \<and> c \<noteq> CHR ''[''"
  by (auto simp: scheme_char_def is_letter_def is_digit_def Let_def)

lemma url_at_intro:
  assumes "is_letter c" "list_all scheme_char sch" "address_char x"
  shows "url_at (c # sch @ ''://'' @ x # q) \<noteq> None"
proof -
  have "dropWhile scheme_char (sch @ ''://'' @ x # q) = ''://'' @ x # q"
    using assms(2) scheme_no_colon [of "CHR '':''"] by (auto simp: list_all_iff)
  with assms(1,3) show ?thesis by (simp add: url_at_def Let_def HasPrefix_def)
qed

lemma url_at_bracket: "\<not> is_letter c \<Longrightarrow> url_at (c # cs) = None"
  by (simp add: url_at_def)

lemma url_at_stops:
  assumes "list_all scheme_char sch" "\<not> scheme_char d" "d \<noteq> CHR '':''"
  shows "url_at (c # sch @ d # t) = None"
proof -
  have "dropWhile scheme_char (sch @ d # t) = d # t" using assms(1,2) by (auto simp: list_all_iff)
  with assms(3) show ?thesis by (simp add: url_at_def Let_def HasPrefix_def)
qed

lemma inside_word:
  assumes "list_all scheme_char w" "\<not> scheme_char d" "d \<noteq> CHR '':''" "j < length w"
  shows "url_at (drop j (w @ d # u)) = None"
proof -
  obtain c sch where c: "drop j w = c # sch" using assms(4) by (metis Cons_nth_drop_Suc)
  then have "list_all scheme_char sch"
    using assms(1) set_drop_subset [of j w] by (auto simp: list_all_iff)
  with url_at_stops [OF this assms(2,3), of c u] c assms(4) show ?thesis by simp
qed

text \<open>No position of the replacement text starts a URL, whatever follows it.\<close>

lemma redacted_inert: "k < length redacted \<Longrightarrow> url_at (drop k (redacted @ t)) = None"
proof -
  assume k: "k < length redacted"
  define w v where "w = ''redacted''" and "v = ''url''"
  have e: "redacted @ t = CHR ''['' # w @ CHR '' '' # v @ CHR '']'' # t" "length redacted = 14" "length w = 8" "length v = 3"
    by (simp_all add: redacted_def w_def v_def)
  have words: "list_all scheme_char w" "list_all scheme_char v"
    by (simp_all add: w_def v_def scheme_char_def is_letter_def)
  have d: "\<not> scheme_char (CHR '' '')" "\<not> scheme_char (CHR '']'')" "CHR '' '' \<noteq> CHR '':''" "CHR '']'' \<noteq> CHR '':''"
    by (simp_all add: scheme_char_def is_letter_def is_digit_def)
  have b: "\<not> is_letter (CHR ''['')" "\<not> is_letter (CHR '' '')" "\<not> is_letter (CHR '']'')"
    by (simp_all add: is_letter_def)
  consider "k = 0" | j where "k = Suc j" "j < length w" | "k = Suc (length w)"
    | j where "k = Suc (length w + Suc j)" "j < length v" | "k = Suc (length w + Suc (length v))"
  proof -
    have "k = 0 \<or> (\<exists>j. k = Suc j \<and> j < length w) \<or> k = Suc (length w)
        \<or> (\<exists>j. k = Suc (length w + Suc j) \<and> j < length v) \<or> k = Suc (length w + Suc (length v))"
      using k unfolding e(2-4) by presburger
    with that show ?thesis by blast
  qed
  then show ?thesis
    using inside_word [OF words(1) d(1,3)] inside_word [OF words(2) d(2,4)] url_at_bracket b
    unfolding e(1) by cases simp_all
qed

lemma cleanString_skip: "url_at (c # cs) = None \<Longrightarrow> cleanString (c # cs) = c # cleanString cs"
  by (subst cleanString.simps) simp

lemma cleaned_no_url: "url_at (drop k (cleanString s)) = None"
proof (induction s arbitrary: k rule: cleanString.induct)
  case (1 s)
  show ?case
  proof (cases "url_at s")
    case (Some rest)
    have c: "cleanString s = redacted @ cleanString rest" by (subst cleanString.simps) (simp add: Some)
    show ?thesis
    proof (cases "k < length redacted")
      case True
      then show ?thesis unfolding c by (rule redacted_inert)
    next
      case False
      then show ?thesis using "1.IH"(2) [OF Some, of "k - length redacted"] by (simp add: c)
    qed
  next
    case None
    show ?thesis
    proof (cases s)
      case Nil
      then show ?thesis by (subst cleanString.simps) (simp add: url_at_def)
    next
      case (Cons a cs)
      have c: "cleanString s = a # cleanString cs" using cleanString_skip None Cons by simp
      have "url_at (a # cleanString cs) = None"
      proof (rule ccontr)
        assume "url_at (a # cleanString cs) \<noteq> None"
        then obtain d sch x q where u: "a # cleanString cs = d # sch @ ''://'' @ x # q" "is_letter d"
          "list_all scheme_char sch" "address_char x" by (rule url_at_head)
        have "\<not> scheme_char (CHR ''['')" using scheme_no_colon by metis
        then have "CHR ''['' \<notin> set sch" using u(3) by (auto simp: list_all_iff)
        moreover have "x \<noteq> CHR ''[''" using u(4) by (auto simp: address_char_def is_letter_def is_digit_def)
        ultimately have "CHR ''['' \<notin> set (sch @ ''://'' @ [x])" by simp
        moreover from u(1) have "cleanString cs = (sch @ ''://'' @ [x]) @ q" by simp
        ultimately obtain q' where "cs = (sch @ ''://'' @ [x]) @ q'" using cleaned_prefix by blast
        with u(1) url_at_intro [OF u(2-4), of q'] None Cons show False by simp
      qed
      with "1.IH"(1) [OF None Cons] show ?thesis by (cases k) (simp_all add: c)
    qed
  qed
qed

section \<open>The logger\<close>

text \<open>Values of fields; a \<open>float64\<close> is its bits, \<open>VOther\<close> the text that \<open>%v\<close> gives for any other value.\<close>

datatype field_value = VStr string | VInt int | VInt64 int | VFloat64 nat | VBool bool | VTime int | VDur int
  | VErr string | VNil | VOther string

type_synonym log_fields = "(string \<times> field_value) list"

datatype log_level = DebugLevel | InfoLevel | WarnLevel | ErrorLevel | FatalLevel

fun level_code :: "log_level \<Rightarrow> nat" where
  "level_code DebugLevel = 0"
| "level_code InfoLevel = 1"
| "level_code WarnLevel = 2"
| "level_code ErrorLevel = 3"
| "level_code FatalLevel = 4"

lemma level_code_inject [simp]: "level_code a = level_code b \<longleftrightarrow> a = b"
  by (cases a; cases b) simp_all

instantiation log_level :: linorder
begin

definition less_eq_log_level :: "log_level \<Rightarrow> log_level \<Rightarrow> bool" where
  "less_eq_log_level a b \<longleftrightarrow> level_code a \<le> level_code b"

definition less_log_level :: "log_level \<Rightarrow> log_level \<Rightarrow> bool" where
  "less_log_level a b \<longleftrightarrow> level_code a < level_code b"

instance
  by standard (auto simp: less_eq_log_level_def less_log_level_def)

end

text \<open>
  \<open>log_context\<close> is what zerolog prints on every line, \<open>log_extra\<close> the map the wrapper keeps.
\<close>

record DefaultLogger =
  min_level :: log_level
  log_context :: log_fields
  log_extra :: log_fields

definition NewDefaultLogger :: "environ \<Rightarrow> DefaultLogger" where
  "NewDefaultLogger env =
     (let levelStr = ToLower (Getenv env ''LOG_LEVEL'');
          lvl = (if levelStr = ''debug'' then DebugLevel
                 else if levelStr = ''info'' then InfoLevel
                 else if levelStr = ''warn'' then WarnLevel
                 else if levelStr = ''error'' then ErrorLevel
                 else if levelStr = ''fatal'' then FatalLevel
                 else InfoLevel)
      in \<lparr>min_level = lvl, log_context = [], log_extra = []\<rparr>)"

definition merge_fields :: "log_fields \<Rightarrow> log_fields \<Rightarrow> log_fields" where
  "merge_fields old new = foldl (\<lambda>m (k, v). AList.update k v m) old new"

text \<open>The merged map is added to a context that has the old fields already.\<close>

definition WithFields :: "log_fields \<Rightarrow> DefaultLogger \<Rightarrow> DefaultLogger" where
  "WithFields kvs l =
     (let newFields = merge_fields (log_extra l) kvs
      in l\<lparr>log_context := log_context l @ newFields, log_extra := newFields\<rparr>)"

definition log_WithCorrelationID :: "ctx_values option \<Rightarrow> DefaultLogger \<Rightarrow> DefaultLogger" where
  "log_WithCorrelationID ctx l = (case ctx of
     None \<Rightarrow> l
   | Some vals \<Rightarrow> (case CorrelationIDFromContext vals of
        Some i \<Rightarrow> WithFields [(''correlation_id'', VStr i)] l
      | None \<Rightarrow> l))"

definition WithSensitiveField :: "environ \<Rightarrow> string \<Rightarrow> string \<Rightarrow> DefaultLogger \<Rightarrow> DefaultLogger" where
  "WithSensitiveField env key val l =
     WithFields [(key, VStr (if Getenv env ''SAFE_LOGS'' = ''true'' then ''[redacted]'' else val))] l"

definition WithStandardFields :: "log_fields option \<Rightarrow> DefaultLogger \<Rightarrow> DefaultLogger" where
  "WithStandardFields kvs l = (case kvs of None \<Rightarrow> l | Some fs \<Rightarrow> WithFields fs l)"

section \<open>Events and lines\<close>

type_synonym event = "(log_level \<times> log_fields) option"

definition level_event :: "log_level \<Rightarrow> DefaultLogger \<Rightarrow> event" where
  "level_event lvl l = (if min_level l \<le> lvl then Some (lvl, log_context l) else None)"

definition add_field :: "string \<Rightarrow> field_value \<Rightarrow> event \<Rightarrow> event" where
  "add_field k v e = map_option (\<lambda>(lvl, fs). (lvl, fs @ [(k, v)])) e"

definition Str :: "string \<Rightarrow> string \<Rightarrow> event \<Rightarrow> event" where
  "Str k v = add_field k (VStr v)"

record log_line =
  line_level :: log_level
  line_fields :: log_fields
  line_msg :: string

definition Msg :: "environ \<Rightarrow> string \<Rightarrow> event \<Rightarrow> log_line list" where
  "Msg env msg e = (case e of
     None \<Rightarrow> []
   | Some (lvl, fs) \<Rightarrow> [\<lparr>line_level = lvl, line_fields = fs, line_msg = safeLogf env msg\<rparr>])"

text \<open>\<open>Debug\<close>, \<open>Log\<close>, \<open>Warn\<close>, \<open>Error\<close>, \<open>Fatal\<close> and their formatting forms: an event without fields.\<close>

definition Log_at :: "log_level \<Rightarrow> environ \<Rightarrow> string \<Rightarrow> DefaultLogger \<Rightarrow> log_line list" where
  "Log_at lvl env msg l = Msg env msg (level_event lvl l)"

section \<open>StandardFields\<close>

definition WithField :: "string \<Rightarrow> field_value \<Rightarrow> log_fields \<Rightarrow> log_fields" where
  "WithField key v sf = AList.update key v sf"

definition NewStandardFields :: log_fields where
  "NewStandardFields = []"

definition WithTime :: "string \<Rightarrow> int \<Rightarrow> log_fields \<Rightarrow> log_fields" where
  "WithTime key t = WithField key (VTime t)"

definition sf_WithCorrelationID :: "string \<Rightarrow> log_fields \<Rightarrow> log_fields" where
  "sf_WithCorrelationID v = WithField ''correlation_id'' (VStr v)"

definition WithMethod :: "string \<Rightarrow> log_fields \<Rightarrow> log_fields" where
  "WithMethod v = WithField ''method'' (VStr v)"

definition WithURL :: "string \<Rightarrow> log_fields \<Rightarrow> log_fields" where
  "WithURL v = WithField ''url'' (VStr v)"

definition WithPath :: "string \<Rightarrow> log_fields \<Rightarrow> log_fields" where
  "WithPath v = WithField ''path'' (VStr v)"

definition WithStatusCode :: "int \<Rightarrow> log_fields \<Rightarrow> log_fields" where
  "WithStatusCode v = WithField ''status_code'' (VInt v)"

definition WithDuration :: "int \<Rightarrow> log_fields \<Rightarrow> log_fields" where
  "WithDuration v = WithField ''duration'' (VDur v)"

definition WithClientIP :: "string \<Rightarrow> log_fields \<Rightarrow> log_fields" where
  "WithClientIP v = WithField ''client_ip'' (VStr v)"

definition WithUserAgent :: "string \<Rightarrow> log_fields \<Rightarrow> log_fields" where
  "WithUserAgent v = WithField ''user_agent'' (VStr v)"

definition WithComponent :: "string \<Rightarrow> log_fields \<Rightarrow> log_fields" where
  "WithComponent v = WithField ''component'' (VStr v)"

definition WithOperation :: "string \<Rightarrow> log_fields \<Rightarrow> log_fields" where
  "WithOperation v = WithField ''operation'' (VStr v)"

definition WithError :: "string \<Rightarrow> log_fields \<Rightarrow> log_fields" where
  "WithError v = WithField ''error'' (VStr v)"

definition WithErrorType :: "string \<Rightarrow> log_fields \<Rightarrow> log_fields" where
  "WithErrorType v = WithField ''error_type'' (VStr v)"

definition WithStreamID :: "string \<Rightarrow> log_fields \<Rightarrow> log_fields" where
  "WithStreamID v = WithField ''stream_id'' (VStr v)"

definition WithChannelName :: "string \<Rightarrow> log_fields \<Rightarrow> log_fields" where
  "WithChannelName v = WithField ''channel_name'' (VStr v)"

definition WithPlaylistURL :: "string \<Rightarrow> log_fields \<Rightarrow> log_fields" where
  "WithPlaylistURL v = WithField ''playlist_url'' (VStr v)"

definition WithSegmentURL :: "string \<Rightarrow> log_fields \<Rightarrow> log_fields" where
  "WithSegmentURL v = WithField ''segment_url'' (VStr v)"

definition WithBufferStatus :: "string \<Rightarrow> log_fields \<Rightarrow> log_fields" where
  "WithBufferStatus v = WithField ''buffer_status'' (VStr v)"

definition WithClientCount :: "int \<Rightarrow> log_fields \<Rightarrow> log_fields" where
  "WithClientCount v = WithField ''client_count'' (VInt v)"

definition WithStreamType :: "string \<Rightarrow> log_fields \<Rightarrow> log_fields" where
  "WithStreamType v = WithField ''stream_type'' (VStr v)"

definition WithLoadBalancerResult :: "string \<Rightarrow> log_fields \<Rightarrow> log_fields" where
  "WithLoadBalancerResult v = WithField ''load_balancer_result'' (VStr v)"

definition WithTargetURL :: "string \<Rightarrow> log_fields \<Rightarrow> log_fields" where
  "WithTargetURL v = WithField ''target_url'' (VStr v)"

definition WithAttemptCount :: "int \<Rightarrow> log_fields \<Rightarrow> log_fields" where
  "WithAttemptCount v = WithField ''attempt_count'' (VInt v)"

definition WithFailoverReason :: "string \<Rightarrow> log_fields \<Rightarrow> log_fields" where
  "WithFailoverReason v = WithField ''failover_reason'' (VStr v)"

definition WithLatency :: "int \<Rightarrow> log_fields \<Rightarrow> log_fields" where
  "WithLatency v = WithField ''latency'' (VDur v)"

definition WithBytesTransferred :: "int \<Rightarrow> log_fields \<Rightarrow> log_fields" where
  "WithBytesTransferred v = WithField ''bytes_transferred'' (VInt64 v)"

definition WithResponseSize :: "int \<Rightarrow> log_fields \<Rightarrow> log_fields" where
  "WithResponseSize v = WithField ''response_size'' (VInt64 v)"

definition WithRequestSize :: "int \<Rightarrow> log_fields \<Rightarrow> log_fields" where
  "WithRequestSize v = WithField ''request_size'' (VInt64 v)"

definition WithMemoryUsage :: "int \<Rightarrow> log_fields \<Rightarrow> log_fields" where
  "WithMemoryUsage v = WithField ''memory_usage'' (VInt64 v)"

definition WithCPUUsage :: "nat \<Rightarrow> log_fields \<Rightarrow> log_fields" where
  "WithCPUUsage v = WithField ''cpu_usage'' (VFloat64 v)"

definition WithGoroutineCount :: "int \<Rightarrow> log_fields \<Rightarrow> log_fields" where
  "WithGoroutineCount v = WithField ''goroutine_count'' (VInt v)"

text \<open>Values of other types are printed into a string.\<close>

definition apply_field :: "event \<Rightarrow> string \<times> field_value \<Rightarrow> event" where
  "apply_field e kv = (case snd kv of
     VOther text \<Rightarrow> Str (fst kv) text e
   | VErr text \<Rightarrow> Str (fst kv) text e
   | VNil \<Rightarrow> Str (fst kv) ''<nil>'' e
   | v \<Rightarrow> add_field (fst kv) v e)"

definition ApplyToEvent :: "log_fields \<Rightarrow> event \<Rightarrow> event" where
  "ApplyToEvent sf e = foldl apply_field e sf"

text \<open>An event gets every field once, after the fields it has.\<close>

definition rendered :: "string \<times> field_value \<Rightarrow> string \<times> field_value" where
  "rendered kv = (fst kv, case snd kv of VOther text \<Rightarrow> VStr text | VErr text \<Rightarrow> VStr text
     | VNil \<Rightarrow> VStr ''<nil>'' | v \<Rightarrow> v)"

lemma apply_field_appends: "apply_field (Some (lvl, fs)) kv = Some (lvl, fs @ [rendered kv])"
  by (cases "snd kv") (simp_all add: apply_field_def rendered_def Str_def add_field_def)

lemma ApplyToEvent_appends: "ApplyToEvent sf (Some (lvl, fs)) = Some (lvl, fs @ map rendered sf)"
  unfolding ApplyToEvent_def by (induction sf arbitrary: fs) (simp_all add: apply_field_appends)

lemma WithField_keys: "distinct (map fst sf) \<Longrightarrow> distinct (map fst (WithField k v sf))"
  by (simp add: WithField_def distinct_update)

section \<open>What safe logs keep secret\<close>

text \<open>C40. With \<^verbatim>\<open>SAFE_LOGS\<close> set, no part of the message of a line is a URL: no position in it
  starts one.  The fields of a line are printed as they are: a URL logged as a field, which is
  how the program logs every URL, is in the line in full.\<close>

theorem safe_logs_clean_only_the_message:
  assumes "Getenv env ''SAFE_LOGS'' = ''true''" "min_level l \<le> lvl"
  shows "\<exists>line. Msg env msg (Str ''url'' u (level_event lvl l)) = [line]
    \<and> (\<forall>k. url_at (drop k (line_msg line)) = None) \<and> last (line_fields line) = (''url'', VStr u)"
  using assms by (simp add: Msg_def Str_def add_field_def level_event_def safeLogf_def cleaned_no_url)

theorem safe_logs_clean_only_the_message_witness:
  "\<exists>line. Msg [(''SAFE_LOGS'', ''true'')] ''get http://u:p@h/x'' (Str ''url'' ''http://u:p@h/x'' (level_event InfoLevel (NewDefaultLogger []))) = [line]
    \<and> (\<forall>k. url_at (drop k (line_msg line)) = None) \<and> last (line_fields line) = (''url'', VStr ''http://u:p@h/x'')"
  by (rule safe_logs_clean_only_the_message)
    (simp_all add: Getenv_def LookupEnv_def NewDefaultLogger_def)

end
