(* ===== verification/Spec2Isabelle.thy ===== *)
theory Spec2Isabelle
  imports Registry Wakeup Viewers LoadBalancer StreamHTTP Updater Server Logging HttpClient
begin

text \<open>
  \<^bold>\<open>A verification library for Streamweaver (m3u-stream-merger).\<close>

  The program merges the M3U playlists of several IPTV sources into one and serves it, and proxies the
  streams the merged playlist links to.  It has two halves that meet in the file system and in the
  slug of a link.

  \<^item> The \<^emph>\<open>update\<close> downloads the sources, parses their lines, stores the URL of every channel in a
    file, merges and sorts the channels on disk, writes the playlist and publishes it.
  \<^item> The \<^emph>\<open>proxy\<close> answers a request for a link: it decodes the slug, looks up the stored URLs, lets
    the load balancer choose a source, and feeds one shared buffer per stream, which every client of
    the stream reads.

  \<^bold>\<open>Conventions.\<close>  Go is modelled by total functions that evaluate.  A panic is the value \<open>Panic\<close> of
  the type \<open>outcome\<close>, an error is a \<open>go_error\<close> in a sum or an option, and every early return of the
  code is a branch.  Integers are mathematical, with the wrap-around of their width written out
  (\<open>int32\<close>, \<open>int64\<close>) where they are computed with.  A map is a list of its entries or a function, bytes
  and strings are character lists.  What is not under \<^verbatim>\<open>src/\<close> (\<open>net/url\<close>, zstd, the JSON decoder, the
  regular expressions a user supplies, SHA3, cron, the servers) is an argument, mostly bundled in
  records such as \<open>parse_env\<close>, \<open>url_lib\<close>, \<open>lb_env\<close>, \<open>codec\<close>, \<open>upstream\<close>; what the code relies on of it
  stands as a hypothesis of the theorems.  What a loop meets from outside (reads, clocks, contexts,
  answers to writes, steps of other goroutines) is a list of ticks, the \<^emph>\<open>script\<close>, and the loop is
  structurally recursive in it: a script that ends leaves the loop running, so a result is only
  claimed where the script is long enough to give one.  The load balancer's retry loop, which may
  run forever, is a \<open>partial_function (option)\<close>; that it returns is proved (\<open>retries_are_counted\<close>).

  \<^bold>\<open>Theories.\<close>

  \<^item> \<^emph>\<open>Prelude\<close>: \<open>GoPrelude\<close> (integers, outcomes, errors, \<open>sort.Slice\<close> as the locale \<open>slice_sorter\<close> with
    Go's insertion sort as an instance, the locales \<open>event_machine\<close> and \<open>event_refinement\<close>, lists),
    \<open>GoStrings\<close> (packages strings, strconv, path, bufio scanning, the process environment), \<open>HttpTypes\<close>
    (headers, responses, \<^verbatim>\<open>proxy/constants.go\<close>, \<^verbatim>\<open>utils/url.go\<close>), \<open>Base64\<close> (\<open>encoding/base64\<close>, padded
    and raw), \<open>Json\<close> (what a value keeps when it is written and read back), \<open>Configs\<close>
    (\<^verbatim>\<open>proxy/stream/config\<close>, \<^verbatim>\<open>proxy/loadbalancer/config.go\<close>), \<open>Backoff\<close> (\<^verbatim>\<open>proxy/backoff.go\<close>).
  \<^item> \<^emph>\<open>Shared buffer\<close> (\<^verbatim>\<open>proxy/stream/buffer/coordinator.go\<close>): \<open>Coordinator\<close> has the record \<open>Coord\<close> and
    one definition per method (\<open>Write\<close>, \<open>writeError\<close>, \<open>ReadChunks\<close>, \<open>RegisterClient\<close>, \<open>ClearBuffer\<close>, ...);
    \<open>SharedLog\<close> shows that the ring implements a log, through the locale \<open>chunk_log\<close>, and what a reader
    loses that falls a lap behind; \<open>CoordinatorLife\<close> runs the methods as the events of a state machine
    and refines it to a two-field automaton; \<open>Wakeup\<close> is a step relation at the grain of the lock
    sections, in which a wake-up is lost.
  \<^item> \<^emph>\<open>Writers\<close>: \<open>StreamWriter\<close> (\<open>readAndWriteStream\<close>, \<^verbatim>\<open>coordinator_media.go\<close>), \<open>HLS\<close>
    (\<^verbatim>\<open>coordinator_m3u8.go\<close> with the playlist parser).  Both count one connection while they run
    (\<open>Concurrency\<close>, \<^verbatim>\<open>store/concurrency.go\<close>, refined to counters of connections).
  \<^item> \<^emph>\<open>Clients\<close>: \<open>StreamClient\<close> (\<^verbatim>\<open>proxy/client/client.go\<close>), \<open>StreamHandler\<close>
    (\<^verbatim>\<open>proxy/stream/media_stream.go\<close>), \<open>Registry\<close> (\<^verbatim>\<open>registry.go\<close>, through the locale \<open>keyed_registry\<close>),
    \<open>Viewers\<close> (many calls of \<open>HandleStream\<close> on one coordinator, with the cleanup of one who leaves cut
    where others can come between).
  \<^item> \<^emph>\<open>Choosing a source\<close>: \<open>StreamInfo\<close> (\<^verbatim>\<open>stream_info.go\<close>, \<open>SortStreamSubUrls\<close>), \<open>LoadBalancer\<close>
    (\<^verbatim>\<open>proxy/loadbalancer/instance.go\<close>).
  \<^item> \<^emph>\<open>Requests\<close>: \<open>Failover\<close> (\<^verbatim>\<open>proxy/stream/failovers\<close>: a playlist passed on with its URLs rewritten),
    \<open>Correlation\<close> (\<^verbatim>\<open>correlation\<close> and its copy in \<^verbatim>\<open>utils\<close>), \<open>Relay\<close> (\<open>io.Copy\<close> over the locale
    \<open>byte_sink\<close>, \<^verbatim>\<open>handlers/passthrough_http.go\<close> with the redirect policy of \<open>HttpClient\<close>),
    \<open>ExitChannel\<close> (the channel \<open>exitStatus\<close> between the handler of a stream and the goroutine that
    serves it, as a machine of sends, receives and leaves), \<open>StreamHTTP\<close> (\<^verbatim>\<open>handlers/stream_http.go\<close>,
    \<^verbatim>\<open>proxy_instance.go\<close>, \<^verbatim>\<open>stream_instance.go\<close>: \<open>Stream_ServeHTTP\<close> composes registry, load balancer,
    stream handler and failover), \<open>M3UHandler\<close> (\<^verbatim>\<open>handlers/m3u_http.go\<close>).
  \<^item> \<^emph>\<open>The update\<close>: \<open>Slug\<close> (\<^verbatim>\<open>sourceproc/slug.go\<close>), \<open>Parser\<close> (\<^verbatim>\<open>parser.go\<close>, \<^verbatim>\<open>utils/middlewares.go\<close>,
    \<^verbatim>\<open>utils/env.go\<close>, \<open>GenerateStreamURL\<close>), \<open>StreamStore\<close> (\<^verbatim>\<open>filter.go\<close>: filters and the stored URLs),
    \<open>Sorting\<close> (\<^verbatim>\<open>sorting.go\<close>), \<open>Downloader\<close> (\<^verbatim>\<open>downloader.go\<close>), \<open>Processor\<close> (\<^verbatim>\<open>processor.go\<close> with
    \<^verbatim>\<open>config/config.go\<close>: \<open>Run\<close> is a whole update), \<open>Updater\<close> (\<^verbatim>\<open>updater/updater.go\<close>).
  \<^item> \<open>ResponseWriter\<close>: the writer of \<open>net/http\<close> as every handler uses it (first status counts, bodies
    add up, \<open>http_Error\<close>, \<open>http_ServeFile\<close>).  \<open>Server\<close> (\<^verbatim>\<open>main.go\<close>): the route table, one request taken
    to its handler (\<open>serve\<close>), and the start of the program (\<open>main\<close>).
  \<^item> \<open>Logging\<close> (\<^verbatim>\<open>logger\<close>), \<open>HttpClient\<close> (\<^verbatim>\<open>utils/http.go\<close>, \<^verbatim>\<open>utils/fingerprint.go\<close>).
  \<^item> This theory: what holds from one half of the program to the other.

  \<^bold>\<open>What is shown.\<close>  Each theory ends with the theorems about its component, and many other theories
  have lemmas in the same style that later ones use.  The main lines:

  \<^item> \<^emph>\<open>From the request to the answer\<close>: every kind of link the program writes is routed to the handler
    that reads it (\<open>links_reach_their_handlers\<close>); after an update a viewer's request for the playlist is
    answered with the merged one (\<open>viewer_gets_merged_playlist\<close>), and the first request for a stream with
    what the source sends (\<open>first_viewer_gets_the_stream\<close>).  There the calls of the media writer and the
    steps of the viewer are interleaved in any order: \<open>px_joined\<close> are the calls before the viewer takes
    its start in the ring, \<open>px_reader\<close> its turns with the calls before each of them, \<open>keeps_up\<close> says that
    it reads before the ring is lapped, and the run of \<open>StartMediaWriter\<close> is part of the conclusion.
  \<^item> \<^emph>\<open>A client gets what the source sends\<close>: a reader that keeps up reads exactly what was written
    (\<open>reader_follows_writer\<close>), a body goes through the media writer byte for byte
    (\<open>viewer_gets_whole_body\<close>), the first client of a stream gets all of it and its cleanup leaves
    nothing behind (\<open>first_client_gets_whole_stream\<close>), the segments of a playlist go into the ring as
    they are stored under its URLs, in its order (\<open>hls_streams_segments_in_order\<close>).
  \<^item> \<^emph>\<open>Viewers share a stream\<close>: however they come and go, one writer runs for it and the counted
    clients are those who watch (\<open>one_writer_per_stream\<close>); as long as one watches, the others change
    nothing for him (\<open>watched_stream_is_undisturbed\<close>), and if he keeps up he gets all that is
    written (\<open>every_viewer_gets_what_is_written\<close>).
  \<^item> \<^emph>\<open>Sources are chosen soundly\<close>: a lap ends, returns only a status-200 answer of a URL of the
    channel, and fails only after every URL was tried or at its limit; a source that answers is found
    (\<open>answering_source_is_found\<close>), and the one chosen has the most free connections
    (\<open>chosen_source_has_most_free_connections\<close>); only URLs that are stored for the title are ever requested
    (\<open>only_stored_urls_are_requested\<close>); connections are counted exactly and given back; a stream that is
    watched outlives the registry's cleanup (\<open>watched_stream_survives_cleanup\<close>), and its requests meet at
    one coordinator exactly until a cleanup finds it without a client (\<open>clients_share_coordinator\<close>).
  \<^item> \<^emph>\<open>An update publishes every channel once or changes nothing\<close> (\<open>update_publishes_every_channel\<close>,
    \<open>failed_update_changes_nothing\<close>), and the links it publishes lead back to the stored URL
    (\<open>link_reaches_source\<close>), as segment links and passthrough links do to theirs.
  \<^item> \<^emph>\<open>Who may read\<close>: \<open>playlist_needs_valid_credential\<close>.
  \<^item> \<^emph>\<open>Where the code fails\<close>: several theorems state a defect as it is, each at the smallest state that
    shows it: a reader exactly a lap behind, a wake-up lost between two lock sections, a live playlist read
    once, a goroutine left behind by a client that leaves (\<open>leaving_client_loses_goroutine\<close>), a
    stream that is dead for whoever joins it before the last viewer of its end has left, a writer
    cancelled by a viewer who left before it started, a request answered by an empty 200, attributes
    lost in the sorter's buffer, a title that cannot be a file name, a temporary file that stops the next
    start, a broken download that replaces a good copy, URLs in logs that were to be safe.

  \<^bold>\<open>Bounds.\<close>  Byte counts are kept below 2^63 where a theorem adds them up; the ring has any size at least
  one where the theorem says so, and is empty when \<^verbatim>\<open>BUFFER_CHUNK_NUM\<close> is 0, on which the code
  panics.  \<open>coerce_steps\<close> (UTF-8) and \<open>repeat_strip\<close> (white space) take as many steps as the text has
  bytes; each step consumes at least one.

  \<^bold>\<open>Not modelled.\<close>  Logging calls in the other components (they have no effect on the state); the pools of
  zstd encoders; listening on the port, which \<^verbatim>\<open>main.go\<close> leaves to \<open>net/http\<close>; goroutines of the update
  run one after the other, the order in which they deliver being an argument; weak-memory effects.
  A viewer's entry (\<open>join\<close>) is one step, while leavers are cut into the steps between which others come;
  range and conditional requests for the playlist, and file names longer than the file system allows,
  are outside the model.
\<close>

section \<open>From a source's line to a client's request\<close>

lemma map_of_indexes:
  "i \<in> set is \<Longrightarrow> map_of (foldl (\<lambda>us i. AList.update i (f i) us) us0 is) i = Some (f i)"
  by (induction "is" rule: rev_induct) (auto simp: update_conv)

lemma map_of_no_index:
  "i \<notin> set is \<Longrightarrow> map_of (foldl (\<lambda>us i. AList.update i (f i) us) us0 is) i = map_of us0 i"
  by (induction "is" rule: rev_induct) (auto simp: update_conv)

lemma url_of_stored: "url_of (Itoa n @ '':::'' @ u) = u"
  using cut_first [of "'':::''" "Itoa n" u] Itoa_no_colon [of n] by (simp add: url_of_def SplitN2_def)

lemma stored_slug_lookup:
  assumes "carries (slug_codec E) si (json_info si)" "json_string (Title si) = Title si"
    and "idx \<in> set (GetM3UIndexes (pe_environ E))"
  obtains info us where "GetStreamBySlug E unreadable disk (EncodeSlug (slug_codec E) si) = Inr info"
    "Title info = Title si" "URLs info = Some us" "map_of us idx = Some (loadStreamURLs unreadable disk (Title si) idx)"
proof -
  let ?f = "loadStreamURLs unreadable disk (Title si)"
  let ?us = "foldl (\<lambda>us idx. AList.update idx (?f idx) us) [] (GetM3UIndexes (pe_environ E))"
  have "GetStreamBySlug E unreadable disk (EncodeSlug (slug_codec E) si) = Inr ((json_info si)\<lparr>URLs := Some ?us\<rparr>)"
    by (simp add: GetStreamBySlug_def ParseStreamInfoBySlug_def Decode_EncodeSlug [OF assms(1)] assms(2))
  with that [of "(json_info si)\<lparr>URLs := Some ?us\<rparr>" ?us] map_of_indexes [OF assms(3), of ?f "[]"] assms(2)
  show thesis by simp
qed

text \<open>C4. From end to end: once a line of a source has been read and its URL stored, the link that the
  merged playlist has for any channel of that title leads, by the path of the request it
  causes and the slug in that path, back to a channel with that title, whose URLs for
  that source contain the stored one, as the load balancer reads it.\<close>

theorem link_reaches_source:
  assumes "Title (parse_title E line) = Title si" "Title si \<noteq> []"
    and "CHR ''/'' \<notin> set (b64 (Title si) @ idx @ url_hash E nextLine)" "CHR ''|'' \<notin> set (idx @ url_hash E nextLine)"
    and "TrimSpace (Content nextLine) = u" "u \<noteq> []" "visible (last u)"
    and "\<forall>((sh, nm), c) \<in> set disk. SplitChar (CHR ''|'') nm ! 1 \<noteq> url_hash E nextLine"
    and "carries (slug_codec E) si (json_info si)" "json_string (Title si) = Title si"
    and "idx \<in> set (GetM3UIndexes (pe_environ E))"
  shows "\<exists>read disk' path info us urls content.
    parseLine E Some line nextLine idx disk = (Some read, disk')
    \<and> GenerateStreamURL E base si = base @ path
    \<and> GetStreamBySlug E (\<lambda>_. False) disk' (extractStreamURL path) = Inr info \<and> Title info = Title si
    \<and> URLs info = Some us \<and> map_of us idx = Some urls
    \<and> map_of urls (url_hash E nextLine) = Some content \<and> url_of content = u"
proof -
  let ?h = "url_hash E nextLine"
  let ?disk = "AList.update (take 3 ?h, url_file (Title si) idx ?h) (url_content (LineNum nextLine) u) disk"
  obtain read where r: "parseLine E Some line nextLine idx disk = (Some read, ?disk)"
    using parseLine_stores [OF assms(1-4,8)] assms(5) by auto
  note slug = encodeSlug_shape [OF assms(9), folded EncodeSlug_def]
  obtain path where p: "GenerateStreamURL E base si = base @ path" "extractStreamURL path = EncodeSlug (slug_codec E) si"
    by (rule link_has_slug [OF slug])
  obtain info us where i: "GetStreamBySlug E (\<lambda>_. False) ?disk (extractStreamURL path) = Inr info"
    "Title info = Title si" "URLs info = Some us" "map_of us idx = Some (loadStreamURLs (\<lambda>_. False) ?disk (Title si) idx)"
    unfolding p(2) by (rule stored_slug_lookup [OF assms(9-11)])
  have "map_of (loadStreamURLs (\<lambda>_. False) ?disk (Title si) idx) ?h = Some (Itoa (LineNum nextLine) @ '':::'' @ u)"
    by (rule stored_url_listed [OF assms(3,4,6,7) _ assms(8), of _ "[]"]) simp
  with r p(1) i url_of_stored show ?thesis by blast
qed

theorem link_reaches_source_witness:
  "\<exists>read disk' path info us urls content.
    parseLine plain_env Some news_line news_url ''1'' [] = (Some read, disk')
    \<and> GenerateStreamURL plain_env ''http://h'' news_info = ''http://h'' @ path
    \<and> GetStreamBySlug plain_env (\<lambda>_. False) disk' (extractStreamURL path) = Inr info \<and> Title info = ''News''
    \<and> URLs info = Some us \<and> map_of us ''1'' = Some urls
    \<and> map_of urls ''abchttp:x'' = Some content \<and> url_of content = ''http:x''"
proof -
  have t: "Title news_info = ''News''" by (simp add: news_info_def)
  have c: "carries (slug_codec plain_env) news_info (json_info news_info)"
    by (simp add: news_info_carried news_info_json)
  have ix: "''1'' \<in> set (GetM3UIndexes (pe_environ plain_env))"
    by (simp add: GetM3UIndexes_def indexed_def plain_env_def HasPrefix_def TrimPrefix_def)
  have "json_string ''News'' = ''News''" by (simp add: json_string_ascii)
  from link_reaches_source [where si = news_info and E = plain_env and idx = "''1''" and disk = "[]" and nextLine = news_url
      and u = "''http:x''" and base = "''http://h''", OF news_line_title [folded t] _ _ _ news_url_trim _ _ _ c _ ix] this t
  show ?thesis by (simp add: b64_News news_hash) (simp add: visible_def)
qed

section \<open>What the proxy asks for\<close>

text \<open>C12. The proxy asks sources only for stored URLs: when the load balancer, with the slug parser of the
  update, finds a source for a request, the URL it asked is what one file of the streams
  directory holds, a readable file that the pattern of the title in the slug and of a
  configured index names; and the response is that source's, with status 200.\<close>

theorem only_stored_urls_are_requested:
  assumes "slice_sorter (sort_indexes E)" "no_nil (Cm s)" "distinct (m3uIndexes s)"
    and "parse_slug E = GetStreamBySlug PE unreadable disk"
    and "Balance E True (Some rq) s = Some (Ok (Inr res, s'))"
  shows "\<exists>p si stored content t. URLPath rq = Some p \<and> DecodeSlug (slug_codec PE) (GetStreamId p) = Inr si
    \<and> lbIndex res \<in> set (GetM3UIndexes (pe_environ PE))
    \<and> stored \<in> set disk \<and> stored \<in> set (glob disk (b64 (Title si) @ ''_'' @ lbIndex res))
    \<and> load_file unreadable [] stored = [(lbSubIndex res, content)] \<and> lbURL res = url_of content
    \<and> answer E t (Method rq) (lbURL res) = HttpOk (lbResponse res) \<and> StatusCode (lbResponse res) = 200"
proof -
  obtain p stream us where p: "URLPath rq = Some p" "parse_slug E (GetStreamId p) = Inr stream" "URLs stream = Some us"
    "from_source E (Method rq) (m3uIndexes s) us res"
    by (rule Balance_sound [OF assms(1-3,5)])
  obtain si where si: "DecodeSlug (slug_codec PE) (GetStreamId p) = Inr si"
    and us: "us = foldl (\<lambda>us idx. AList.update idx (loadStreamURLs unreadable disk (Title si) idx) us) []
      (GetM3UIndexes (pe_environ PE))"
    using p(2,3) assms(4) by (auto simp: GetStreamBySlug_def ParseStreamInfoBySlug_def split: sum.splits)
  obtain urls content t where u: "map_of us (lbIndex res) = Some urls" "map_of urls (lbSubIndex res) = Some content"
    "lbURL res = url_of content" "answer E t (Method rq) (lbURL res) = HttpOk (lbResponse res)"
    "StatusCode (lbResponse res) = 200"
    using p(4) by (auto simp: from_source_def from_url_def)
  have i: "lbIndex res \<in> set (GetM3UIndexes (pe_environ PE))"
  proof (rule ccontr)
    assume "lbIndex res \<notin> set (GetM3UIndexes (pe_environ PE))"
    from map_of_no_index [OF this, of "loadStreamURLs unreadable disk (Title si)" "[]"] u(1) show False
      unfolding us by simp
  qed
  with u(1,2) have "map_of (loadStreamURLs unreadable disk (Title si) (lbIndex res)) (lbSubIndex res) = Some content"
    unfolding us by (simp add: map_of_indexes)
  then obtain f where "f \<in> set disk" "f \<in> set (glob disk (b64 (Title si) @ ''_'' @ lbIndex res))"
    "load_file unreadable [] f = [(lbSubIndex res, content)]"
    by (rule listed_url_is_stored)
  with p(1) si i u(3-5) show ?thesis by blast
qed

text \<open>A disk with one file, which the first index lists.\<close>

definition served_disk :: streams_dir where
  "served_disk = [((''h'', url_file ''News'' ''1'' ''h''), url_content 4 ''http:x'')]"

definition served_env :: lb_env where
  "served_env = sample_env\<lparr>parse_slug := GetStreamBySlug plain_env (\<lambda>_. False) served_disk,
     answer := \<lambda>_ _ _. HttpOk \<lparr>StatusCode = 200, RespHeader = [], RequestPath = Some ''x'', RequestURL = ''http:x''\<rparr>\<rparr>"

lemma served_urls:
  "loadStreamURLs (\<lambda>_. False) served_disk ''News'' ''1'' = [(''h'', Itoa 4 @ '':::'' @ ''http:x'')]"
  "loadStreamURLs (\<lambda>_. False) served_disk ''News'' ''10'' = []"
proof -
  let ?f = "((''h'', url_file ''News'' ''1'' ''h''), url_content 4 ''http:x'')"
  have "map_of (load_file (\<lambda>_. False) [] ?f) ''h'' = Some (Itoa 4 @ '':::'' @ ''http:x'')"
    by (rule load_file_stored) (simp_all add: visible_def)
  from load_file_entry [OF this] have "load_file (\<lambda>_. False) [] ?f = [(''h'', Itoa 4 @ '':::'' @ ''http:x'')]" by simp
  moreover have "glob served_disk ''TmV3cw==_1'' = [?f]" "glob served_disk ''TmV3cw==_10'' = []"
    by (simp_all add: glob_def served_disk_def path_elements_single HasPrefix_def url_file_def b64_News)
  ultimately show "loadStreamURLs (\<lambda>_. False) served_disk ''News'' ''1'' = [(''h'', Itoa 4 @ '':::'' @ ''http:x'')]"
    "loadStreamURLs (\<lambda>_. False) served_disk ''News'' ''10'' = []"
    unfolding loadStreamURLs_def b64_def [symmetric] b64_News by simp_all
qed

lemma served_slug:
  "GetStreamBySlug plain_env (\<lambda>_. False) served_disk ''e30'' =
    Inr (news_info\<lparr>URLs := Some [(''1'', [(''h'', Itoa 4 @ '':::'' @ ''http:x'')]), (''10'', [])]\<rparr>)"
proof -
  have "RawDecode URLAlphabet ''e30'' = Some ''{}''" by code_simp
  then have "DecodeSlug (slug_codec plain_env) ''e30'' = Inr (news_info\<lparr>URLs := Some []\<rparr>)"
    by (simp add: DecodeSlug_def decodeSlug_def plain_env_def single_codec_def news_info_def)
  moreover have "GetM3UIndexes (pe_environ plain_env) = [''1'', ''10'']"
    by (simp add: GetM3UIndexes_def indexed_def plain_env_def HasPrefix_def TrimPrefix_def)
  ultimately show ?thesis
    by (simp add: GetStreamBySlug_def ParseStreamInfoBySlug_def served_urls news_info_def)
qed

lemma served: "\<exists>res s'. Balance served_env True (Some \<lparr>Method = ''GET'', URLPath = Some ''/p/e30.ts''\<rparr>) sample_state
    = Some (Ok (Inr res, s'))"
proof (rule Balance_finds)
  let ?us = "[(''1'', [(''h'', Itoa 4 @ '':::'' @ ''http:x'')]), (''10'', [])]"
  show "slice_sorter (sort_indexes served_env)" "slice_sorter (sort_subs served_env)"
    using sample_env_facts(1,2) by (simp_all add: served_env_def)
  show "no_nil (Cm sample_state)" by (rule sample_env_facts)
  have "GetStreamId ''/p/e30.ts'' = ''e30''" by code_simp
  then show "parse_slug served_env (GetStreamId ''/p/e30.ts'') = Inr (news_info\<lparr>URLs := Some ?us\<rparr>)"
    by (simp add: served_env_def served_slug)
  show "tidy ?us" by (simp add: tidy_def)
  show "has_healthy served_env (Method \<lparr>Method = ''GET'', URLPath = Some ''/p/e30.ts''\<rparr>) ?us ''1'' ''h''"
    by (simp add: has_healthy_def healthy_def served_env_def sample_env_def)
  show "\<not> at_limit served_env sample_state ''1''"
    using sample_free by (simp add: at_limit_def served_env_def one_answers_def)
qed (simp_all add: served_env_def sample_env_def sample_state_def)

theorem only_stored_urls_are_requested_witness:
  "\<exists>res s'. Balance served_env True (Some \<lparr>Method = ''GET'', URLPath = Some ''/p/e30.ts''\<rparr>) sample_state
      = Some (Ok (Inr res, s'))
    \<and> (\<exists>p si stored content t. Some ''/p/e30.ts'' = Some p \<and> DecodeSlug (slug_codec plain_env) (GetStreamId p) = Inr si
      \<and> lbIndex res \<in> set (GetM3UIndexes (pe_environ plain_env))
      \<and> stored \<in> set served_disk \<and> stored \<in> set (glob served_disk (b64 (Title si) @ ''_'' @ lbIndex res))
      \<and> load_file (\<lambda>_. False) [] stored = [(lbSubIndex res, content)] \<and> lbURL res = url_of content
      \<and> answer served_env t ''GET'' (lbURL res) = HttpOk (lbResponse res) \<and> StatusCode (lbResponse res) = 200)"
proof -
  obtain res s' where r: "Balance served_env True (Some \<lparr>Method = ''GET'', URLPath = Some ''/p/e30.ts''\<rparr>) sample_state
      = Some (Ok (Inr res, s'))" using served by blast
  have "slice_sorter (sort_indexes served_env)" "parse_slug served_env = GetStreamBySlug plain_env (\<lambda>_. False) served_disk"
    using sample_env_facts(1) by (simp_all add: served_env_def)
  from only_stored_urls_are_requested [OF this(1) sample_env_facts(5) _ this(2) r] r show ?thesis
    by (auto simp: sample_state_def)
qed

end
